(* ===== verification/EventSystem.thy ===== *)
theory EventSystem
  imports Main
begin

text \<open>
  Systems of events: reachability, invariants and quantities that never decrease, used for the
  interleavings of producers, consumers and the writer thread.
\<close>

inductive reach :: "('s \<Rightarrow> bool) \<Rightarrow> ('s \<Rightarrow> 'e \<Rightarrow> 's \<Rightarrow> bool) \<Rightarrow> 's \<Rightarrow> bool" for init step where
  reach_init: "init s \<Longrightarrow> reach init step s"
| reach_step: "reach init step s \<Longrightarrow> step s e s' \<Longrightarrow> reach init step s'"

fun run :: "('s \<Rightarrow> 'e \<Rightarrow> 's \<Rightarrow> bool) \<Rightarrow> 's \<Rightarrow> ('e \<times> 's) list \<Rightarrow> bool" where
  "run step s [] = True"
| "run step s ((e, s') # tr) = (step s e s' \<and> run step s' tr)"

definition last_state :: "'s \<Rightarrow> ('e \<times> 's) list \<Rightarrow> 's" where
  "last_state s tr = (if tr = [] then s else snd (last tr))"

lemma last_state_simps [simp]:
  "last_state s [] = s" "last_state s (x # tr) = last_state (snd x) tr"
  by (simp_all add: last_state_def)

text \<open>The contract of a system with an invariant, and what follows for its runs.\<close>

locale event_system =
  fixes init :: "'s \<Rightarrow> bool" and step :: "'s \<Rightarrow> 'e \<Rightarrow> 's \<Rightarrow> bool" and inv :: "'s \<Rightarrow> bool"
  assumes init_inv: "init s \<Longrightarrow> inv s"
    and step_inv: "inv s \<Longrightarrow> step s e s' \<Longrightarrow> inv s'"
begin

lemma reach_inv: "reach init step s \<Longrightarrow> inv s"
  by (induction rule: reach.induct) (auto intro: init_inv step_inv)

lemma run_inv: "inv s \<Longrightarrow> run step s tr \<Longrightarrow> inv (last_state s tr)"
  by (induction tr arbitrary: s) (auto dest: step_inv)

lemma run_reach: "reach init step s \<Longrightarrow> run step s tr \<Longrightarrow> reach init step (last_state s tr)"
  by (induction tr arbitrary: s) (auto dest: reach_step)

text \<open>Something that held and no longer holds was ended by one event of the run.\<close>

lemma run_loses:
  assumes "inv s" and "run step s tr" and "P s" and "\<not> P (last_state s tr)"
  shows "\<exists>s1 e s2. inv s1 \<and> P s1 \<and> step s1 e s2 \<and> \<not> P s2 \<and> (e, s2) \<in> set tr"
  using assms
proof (induction tr arbitrary: s)
  case (Cons x tr)
  obtain e s' where x: "x = (e, s')" by (cases x)
  with Cons.prems(2) have st: "step s e s'" "run step s' tr" by simp_all
  show ?case
  proof (cases "P s'")
    case False
    then show ?thesis using Cons.prems(1,3) st(1) x by auto
  next
    case True
    then show ?thesis
      using Cons.IH [OF step_inv [OF Cons.prems(1) st(1)] st(2)] Cons.prems(4) x by auto
  qed
qed simp

end

text \<open>A system in which a measured quantity never decreases.\<close>

locale monotone_system = event_system init step inv
  for init :: "'s \<Rightarrow> bool" and step :: "'s \<Rightarrow> 'e \<Rightarrow> 's \<Rightarrow> bool" and inv :: "'s \<Rightarrow> bool" +
  fixes level :: "'s \<Rightarrow> nat"
  assumes step_mono: "inv s \<Longrightarrow> step s e s' \<Longrightarrow> level s \<le> level s'"
begin

lemma run_mono: "inv s \<Longrightarrow> run step s tr \<Longrightarrow> level s \<le> level (last_state s tr)"
  by (induction tr arbitrary: s) (auto, meson order_trans step_inv step_mono)

end

end
