(* ===== verification/Prelude.thy ===== *)
theory Prelude
  imports Main "HOL-Library.Word" "HOL-Library.Multiset"
begin

text \<open>
  Shared vocabulary of the development.

  \<^item> Machine integers. The Rust code runs on a 64-bit target, so \<open>u64\<close> and \<open>usize\<close> have the
    same range. A value is a \<^typ>\<open>nat\<close>; the operations that saturate or wrap in the code are
    \<open>sat_add\<close>, \<open>sat_mul\<close>, \<open>checked_add\<close>, \<open>checked_mul\<close>, \<open>atomic_add\<close> and \<open>atomic_sub\<close>,
    with the bound written out. \<open>saturating_sub\<close> is subtraction on \<^typ>\<open>nat\<close>.
  \<^item> Little-endian byte strings (\<open>to_le_bytes\<close>, \<open>from_le_bytes\<close>) over \<open>8 word\<close> bytes.
  \<^item> The ordered map of the standard library (\<open>BTreeMap\<close>) as an association list sorted by key,
    with its contract as the locale \<open>ordered_map\<close> and the interpretation \<open>bt\<close>.
  \<^item> List lemmas shared by the components, and the collections \<open>sat_simps\<close> and \<open>bt_simps\<close>.
\<close>

named_theorems sat_simps
named_theorems bt_simps

section \<open>Machine integers\<close>

type_synonym byte = "8 word"

text \<open>An \<open>Instant\<close> is a number of nanoseconds since an arbitrary origin.\<close>

type_synonym instant = nat

definition u64_max :: nat where
  "u64_max = 18446744073709551615"

definition u32_max :: nat where
  "u32_max = 4294967295"

definition sat_add :: "nat \<Rightarrow> nat \<Rightarrow> nat" where
  "sat_add a b = min (a + b) u64_max"

definition sat_mul :: "nat \<Rightarrow> nat \<Rightarrow> nat" where
  "sat_mul a b = min (a * b) u64_max"

definition sat_add32 :: "nat \<Rightarrow> nat \<Rightarrow> nat" where
  "sat_add32 a b = min (a + b) u32_max"

definition checked_add :: "nat \<Rightarrow> nat \<Rightarrow> nat option" where
  "checked_add a b = (if a + b \<le> u64_max then Some (a + b) else None)"

definition checked_mul :: "nat \<Rightarrow> nat \<Rightarrow> nat option" where
  "checked_mul a b = (if a * b \<le> u64_max then Some (a * b) else None)"

text \<open>\<open>AtomicU64::fetch_add\<close> and \<open>fetch_sub\<close> wrap around; both are used with operands in range.\<close>

definition atomic_add :: "nat \<Rightarrow> nat \<Rightarrow> nat" where
  "atomic_add a b = (a + b) mod (u64_max + 1)"

definition atomic_sub :: "nat \<Rightarrow> nat \<Rightarrow> nat" where
  "atomic_sub a b = (a + (u64_max + 1) - b) mod (u64_max + 1)"

lemma sat_add_exact [sat_simps]: "a + b \<le> u64_max \<Longrightarrow> sat_add a b = a + b"
  by (simp add: sat_add_def)

lemma sat_add_le_max: "sat_add a b \<le> u64_max"
  by (simp add: sat_add_def)

lemma sat_add_le_iff: "x \<le> u64_max \<Longrightarrow> a + b \<le> x \<Longrightarrow> sat_add a b \<le> x"
  by (simp add: sat_add_def)

lemma sat_add_leD: "sat_add a b \<le> x \<Longrightarrow> x < u64_max \<Longrightarrow> a + b \<le> x"
  by (auto simp: sat_add_def min_def split: if_splits)

lemma sat_add_ge_left: "a \<le> u64_max \<Longrightarrow> a \<le> sat_add a b"
  by (simp add: sat_add_def)

lemma sat_add_ge_right: "b \<le> u64_max \<Longrightarrow> b \<le> sat_add a b"
  by (simp add: sat_add_def)

lemma sat_mul_exact [sat_simps]: "a * b \<le> u64_max \<Longrightarrow> sat_mul a b = a * b"
  by (simp add: sat_mul_def)

lemma sat_mul_mono: "a \<le> a' \<Longrightarrow> b \<le> b' \<Longrightarrow> sat_mul a b \<le> sat_mul a' b'"
  by (auto simp: sat_mul_def min_def intro: order_trans [OF mult_le_mono])

lemma atomic_add_exact [sat_simps]: "a + b \<le> u64_max \<Longrightarrow> atomic_add a b = a + b"
  by (simp add: atomic_add_def)

lemma atomic_sub_exact [sat_simps]: "b \<le> a \<Longrightarrow> a \<le> u64_max \<Longrightarrow> atomic_sub a b = a - b"
proof -
  assume "b \<le> a" and "a \<le> u64_max"
  then have "a + (u64_max + 1) - b = (a - b) + (u64_max + 1)" and lt: "a - b < u64_max + 1"
    by linarith+
  then have "atomic_sub a b = (a - b) mod (u64_max + 1)"
    by (simp only: atomic_sub_def mod_add_self2)
  then show ?thesis using lt by (simp only: mod_less)
qed

section \<open>Little-endian byte strings\<close>

fun le_bytes :: "nat \<Rightarrow> nat \<Rightarrow> byte list" where
  "le_bytes 0 x = []"
| "le_bytes (Suc n) x = word_of_nat (x mod 256) # le_bytes n (x div 256)"

fun le_nat :: "byte list \<Rightarrow> nat" where
  "le_nat [] = 0"
| "le_nat (b # bs) = unat b + 256 * le_nat bs"

lemma length_le_bytes [simp]: "length (le_bytes n x) = n"
  by (induction n arbitrary: x) auto

lemma unat_byte_mod: "unat (word_of_nat (x mod 256) :: byte) = x mod 256"
  by (simp add: unat_of_nat)

lemma le_nat_le_bytes: "x < 256 ^ n \<Longrightarrow> le_nat (le_bytes n x) = x"
proof (induction n arbitrary: x)
  case 0
  then show ?case by simp
next
  case (Suc n)
  then have "x div 256 < 256 ^ n" by (simp add: less_mult_imp_div_less mult.commute)
  with Suc.IH have "le_nat (le_bytes n (x div 256)) = x div 256" by blast
  then show ?case by (simp add: unat_byte_mod)
qed

lemma le_nat_bound: "le_nat bs < 256 ^ length bs"
proof (induction bs)
  case Nil
  then show ?case by simp
next
  case (Cons b bs)
  have "unat b < 256" using unsigned_less [of b] by simp
  with Cons show ?case by (simp add: algebra_simps)
qed

lemma le_bytes_le_nat: "le_bytes (length bs) (le_nat bs) = bs"
proof (induction bs)
  case Nil
  then show ?case by simp
next
  case (Cons b bs)
  have "unat b < 256" using unsigned_less [of b] by simp
  with Cons show ?case by simp
qed

section \<open>Ordered maps\<close>

text \<open>
  \<open>BTreeMap<u64, V>\<close>: an association list sorted by key. \<open>bt_get\<close> is \<open>get\<close>, \<open>bt_insert\<close> is
  \<open>insert\<close>, \<open>bt_remove\<close> is \<open>remove\<close> (its result is \<open>bt_get\<close> before the call), \<open>bt_first\<close> is
  \<open>first_key_value\<close>.
\<close>

type_synonym 'v btree = "(nat \<times> 'v) list"

definition bt_get :: "'v btree \<Rightarrow> nat \<Rightarrow> 'v option" where
  "bt_get m k = map_of m k"

fun bt_insert :: "nat \<Rightarrow> 'v \<Rightarrow> 'v btree \<Rightarrow> 'v btree" where
  "bt_insert k v [] = [(k, v)]"
| "bt_insert k v ((a, w) # m) =
     (if k < a then (k, v) # (a, w) # m
      else if k = a then (k, v) # m
      else (a, w) # bt_insert k v m)"

fun bt_remove :: "nat \<Rightarrow> 'v btree \<Rightarrow> 'v btree" where
  "bt_remove k [] = []"
| "bt_remove k ((a, w) # m) = (if k = a then m else (a, w) # bt_remove k m)"

definition bt_first :: "'v btree \<Rightarrow> (nat \<times> 'v) option" where
  "bt_first m = (case m of [] \<Rightarrow> None | p # _ \<Rightarrow> Some p)"

definition bt_inv :: "'v btree \<Rightarrow> bool" where
  "bt_inv m \<longleftrightarrow> sorted_wrt (<) (map fst m)"

locale ordered_map =
  fixes empty :: "'m"
    and insert :: "nat \<Rightarrow> 'v \<Rightarrow> 'm \<Rightarrow> 'm"
    and remove :: "nat \<Rightarrow> 'm \<Rightarrow> 'm"
    and get :: "'m \<Rightarrow> nat \<Rightarrow> 'v option"
    and first :: "'m \<Rightarrow> (nat \<times> 'v) option"
    and invar :: "'m \<Rightarrow> bool"
  assumes get_empty: "get empty = Map.empty"
    and get_insert: "invar m \<Longrightarrow> get (insert k v m) = (get m)(k \<mapsto> v)"
    and get_remove: "invar m \<Longrightarrow> get (remove k m) = (get m)(k := None)"
    and first_get: "invar m \<Longrightarrow> first m = Some (k, v) \<Longrightarrow> get m k = Some v"
    and first_least: "invar m \<Longrightarrow> first m = Some (k, v) \<Longrightarrow> get m k' = Some v' \<Longrightarrow> k \<le> k'"
    and first_None: "invar m \<Longrightarrow> first m = None \<longleftrightarrow> get m = Map.empty"
    and invar_empty: "invar empty"
    and invar_insert: "invar m \<Longrightarrow> invar (insert k v m)"
    and invar_remove: "invar m \<Longrightarrow> invar (remove k m)"
begin

lemma first_below:
  assumes "invar m" and "first m = Some (k, v)" and "n < k"
  shows "get m n = None"
  using assms first_least by (metis leD option.exhaust)

lemma first_insert_above:
  assumes inv: "invar m" and "get m = Map.empty"
  shows "\<exists>w. first (insert k v m) = Some (k, w)"
proof -
  have g: "get (insert k v m) = [k \<mapsto> v]" using assms by (simp add: get_insert)
  moreover have i: "invar (insert k v m)" by (simp add: inv invar_insert)
  ultimately obtain k' w where f: "first (insert k v m) = Some (k', w)"
    using first_None by (metis map_upd_nonempty option.exhaust surj_pair)
  with i g have "k' = k" using first_get by (metis fun_upd_apply option.distinct(1))
  with f show ?thesis by blast
qed

lemma remove_first_above:
  assumes "invar m" and "first m = Some (k, v)" and "first (remove k m) = Some (k', v')"
  shows "k < k'"
proof -
  have "get (remove k m) k' = Some v'" using assms first_get invar_remove by blast
  then have "k' \<noteq> k" and "get m k' = Some v'"
    using assms(1) by (auto simp: get_remove split: if_splits)
  with assms first_least show ?thesis by (metis le_neq_implies_less)
qed

end

lemma bt_inv_Cons [bt_simps]: "bt_inv ((a, w) # m) \<longleftrightarrow> (\<forall>k \<in> fst ` set m. a < k) \<and> bt_inv m"
  by (auto simp: bt_inv_def)

lemma bt_get_simps [bt_simps]:
  "bt_get [] k = None"
  "bt_get ((a, w) # m) k = (if k = a then Some w else bt_get m k)"
  by (auto simp: bt_get_def)

lemma bt_get_dom: "bt_get m k \<noteq> None \<longleftrightarrow> k \<in> fst ` set m"
  by (auto simp: bt_get_def map_of_eq_None_iff)

lemma bt_get_None_iff: "bt_get m k = None \<longleftrightarrow> k \<notin> fst ` set m"
  using bt_get_dom by blast

lemma keys_bt_insert [simp]: "fst ` set (bt_insert k v m) = insert k (fst ` set m)"
  by (induction k v m rule: bt_insert.induct) auto

lemma keys_bt_remove_subset: "fst ` set (bt_remove k m) \<subseteq> fst ` set m"
  by (induction k m rule: bt_remove.induct) auto

lemma bt_get_bt_insert: "bt_get (bt_insert k v m) = (bt_get m)(k \<mapsto> v)"
  by (induction k v m rule: bt_insert.induct) (auto simp: bt_simps fun_eq_iff)

lemma bt_get_bt_remove: "bt_inv m \<Longrightarrow> bt_get (bt_remove k m) = (bt_get m)(k := None)"
proof (induction k m rule: bt_remove.induct)
  case (1 k)
  then show ?case by (auto simp: bt_simps fun_eq_iff)
next
  case (2 k a w m)
  then have "bt_get m a = None" by (auto simp: bt_simps bt_get_None_iff)
  with 2 show ?case by (auto simp: bt_simps fun_eq_iff)
qed

lemma bt_inv_bt_insert: "bt_inv m \<Longrightarrow> bt_inv (bt_insert k v m)"
  by (induction k v m rule: bt_insert.induct) (auto simp: bt_simps)

lemma bt_inv_bt_remove: "bt_inv m \<Longrightarrow> bt_inv (bt_remove k m)"
proof (induction k m rule: bt_remove.induct)
  case (2 k a w m)
  then have "\<forall>x \<in> fst ` set (bt_remove k m). a < x"
    using keys_bt_remove_subset [of k m] unfolding bt_inv_Cons by blast
  with 2 show ?case by (simp add: bt_inv_Cons)
qed simp

interpretation bt: ordered_map "[]" bt_insert bt_remove bt_get bt_first bt_inv
proof (unfold_locales, goal_cases)
  case 1
  then show ?case by (auto simp: bt_simps fun_eq_iff)
next
  case (2 m k v)
  then show ?case by (simp add: bt_get_bt_insert)
next
  case (3 m k)
  then show ?case by (simp add: bt_get_bt_remove)
next
  case (4 m k v)
  then show ?case by (auto simp: bt_first_def bt_simps split: list.splits)
next
  case (5 m k v k' v')
  then have "k' \<in> fst ` set m" by (metis bt_get_dom option.distinct(1))
  with 5 show ?case by (cases m) (auto simp: bt_first_def bt_simps)
next
  case (6 m)
  then show ?case by (cases m) (auto simp: bt_first_def bt_simps fun_eq_iff)
next
  case 7
  then show ?case by (simp add: bt_inv_def)
next
  case (8 m k v)
  then show ?case by (rule bt_inv_bt_insert)
next
  case (9 m k)
  then show ?case by (rule bt_inv_bt_remove)
qed

lemma bt_rebuild: "bt_inv m \<Longrightarrow> m = map (\<lambda>k. (k, the (bt_get m k))) (map fst m)"
proof (induction m)
  case (Cons p m)
  obtain a w where p: "p = (a, w)" by (cases p)
  with Cons.prems have m: "bt_inv m" and lt: "\<And>k. k \<in> fst ` set m \<Longrightarrow> a \<noteq> k"
    by (auto simp: bt_inv_Cons)
  have "map (\<lambda>k. (k, the (bt_get (p # m) k))) (map fst m) = map (\<lambda>k. (k, the (bt_get m k))) (map fst m)"
    by (rule map_cong) (use lt p in \<open>auto simp: bt_get_simps\<close>)
  also have "\<dots> = m" using Cons.IH [OF m] by simp
  finally show ?case using p by (simp add: bt_get_simps)
qed simp

lemma bt_ext:
  assumes "bt_inv m" and "bt_inv m'" and "bt_get m = bt_get m'"
  shows "m = m'"
proof -
  have "k \<in> fst ` set m \<longleftrightarrow> k \<in> fst ` set m'" for k
    using assms(3) bt_get_dom [of m k] bt_get_dom [of m' k] by simp
  then have "set (map fst m) = set (map fst m')" by (simp add: set_eq_iff)
  then have "map fst m = map fst m'"
    using assms(1,2) strict_sorted_equal by (metis bt_inv_def)
  then show ?thesis using bt_rebuild [OF assms(1)] bt_rebuild [OF assms(2)] assms(3) by metis
qed

lemmas bt_laws = bt_get_bt_insert bt_get_bt_remove bt_inv_bt_insert bt_inv_bt_remove

section \<open>Lists\<close>

lemma sorted_wrt_snoc:
  "sorted_wrt (<) (xs @ [x]) \<longleftrightarrow> sorted_wrt (<) xs \<and> (\<forall>y \<in> set xs. y < (x::nat))"
  by (auto simp: sorted_wrt_append)

lemma sum_list_take_drop: "sum_list (map f xs) = sum_list (map f (take n xs)) + sum_list (map f (drop n xs))"
  for f :: "'a \<Rightarrow> nat"
  by (metis append_take_drop_id map_append sum_list_append)

lemma mset_zip_rev: "length xs = length ys \<Longrightarrow> mset (rev (zip xs ys)) = mset (zip xs ys)"
  by simp

end
