(* ===== verification/Signals.thy ===== *)
theory Signals
  imports Prelude
begin

text \<open>
  The types the whole pipeline shares: telemetry signals with their wire tags
  (\<open>SignalType\<close> of \<open>crates/core/src/sort.rs\<close>, aliased \<open>SignalKind\<close> by the buffer), the typed batch
  \<open>SignalBatch\<close> of \<open>pipeline.rs\<close> and the error type of \<open>error.rs\<close>.

  A diagnostic message is its literal text: the values that \<open>format!\<close> interpolates are left out.
  Arrow's \<open>RecordBatch\<close> is third-party code: it is a type variable \<open>'b\<close> throughout, with the Arrow
  functions the code calls passed as arguments.
\<close>

section \<open>Errors\<close>

datatype PipelineError =
    MissingMetadata string
  | Configuration string
  | Arrow string
  | Storage string
  | Internal string
  | DownstreamClosed
  | TopologicalSinkMissing string

type_synonym 'a result = "PipelineError + 'a"

text \<open>The \<open>?\<close> operator.\<close>

definition try_bind :: "'e + 'a \<Rightarrow> ('a \<Rightarrow> 'e + 'c) \<Rightarrow> 'e + 'c" where
  "try_bind r f = (case r of Inl e \<Rightarrow> Inl e | Inr x \<Rightarrow> f x)"

lemma try_bind_simps [simp]:
  "try_bind (Inl e) f = Inl e"
  "try_bind (Inr x) f = f x"
  by (simp_all add: try_bind_def)

lemma try_bind_Inr: "try_bind r f = Inr y \<longleftrightarrow> (\<exists>x. r = Inr x \<and> f x = Inr y)"
  by (cases r) auto

section \<open>Signals\<close>

datatype SignalKind = Logs | Metrics | Traces

fun as_u8 :: "SignalKind \<Rightarrow> byte" where
  "as_u8 Logs = 0"
| "as_u8 Metrics = 1"
| "as_u8 Traces = 2"

definition from_u8 :: "byte \<Rightarrow> SignalKind option" where
  "from_u8 v =
     (if v = 0 then Some Logs
      else if v = 1 then Some Metrics
      else if v = 2 then Some Traces
      else None)"

fun as_str :: "SignalKind \<Rightarrow> string" where
  "as_str Logs = ''logs''"
| "as_str Metrics = ''metrics''"
| "as_str Traces = ''traces''"

definition ALL_SIGNALS :: "SignalKind list" where
  "ALL_SIGNALS = [Logs, Metrics, Traces]"

datatype 'b SignalBatch = LogsBatch 'b | MetricsBatch 'b | TracesBatch 'b

fun signal_of :: "'b SignalBatch \<Rightarrow> SignalKind \<times> 'b" where
  "signal_of (LogsBatch b) = (Logs, b)"
| "signal_of (MetricsBatch b) = (Metrics, b)"
| "signal_of (TracesBatch b) = (Traces, b)"

fun to_signal_batch :: "SignalKind \<Rightarrow> 'b \<Rightarrow> 'b SignalBatch" where
  "to_signal_batch Logs b = LogsBatch b"
| "to_signal_batch Metrics b = MetricsBatch b"
| "to_signal_batch Traces b = TracesBatch b"

text \<open>Signals are ordered by their tag, the index of their ring in the code's arrays.\<close>

instantiation SignalKind :: linorder
begin

definition less_eq_SignalKind :: "SignalKind \<Rightarrow> SignalKind \<Rightarrow> bool" where
  "less_eq_SignalKind a b \<longleftrightarrow> unat (as_u8 a) \<le> unat (as_u8 b)"

definition less_SignalKind :: "SignalKind \<Rightarrow> SignalKind \<Rightarrow> bool" where
  "less_SignalKind a b \<longleftrightarrow> unat (as_u8 a) < unat (as_u8 b)"

instance
proof
  fix x y z :: SignalKind
  show "x < y \<longleftrightarrow> x \<le> y \<and> \<not> y \<le> x"
    by (auto simp: less_eq_SignalKind_def less_SignalKind_def)
  show "x \<le> x" by (simp add: less_eq_SignalKind_def)
  show "x \<le> y \<Longrightarrow> y \<le> z \<Longrightarrow> x \<le> z" by (simp add: less_eq_SignalKind_def)
  show "x \<le> y \<Longrightarrow> y \<le> x \<Longrightarrow> x = y"
    by (cases x; cases y) (simp_all add: less_eq_SignalKind_def)
  show "x \<le> y \<or> y \<le> x" by (auto simp: less_eq_SignalKind_def)
qed

end

lemma from_u8_as_u8 [simp]: "from_u8 (as_u8 s) = Some s"
  by (cases s) (simp_all add: from_u8_def)

lemma from_u8_Some_iff: "from_u8 v = Some s \<longleftrightarrow> v = as_u8 s"
  by (cases s) (auto simp: from_u8_def)

lemma as_u8_inj: "as_u8 a = as_u8 b \<longleftrightarrow> a = b"
  by (metis from_u8_as_u8 option.inject)

lemma set_ALL_SIGNALS [simp]: "set ALL_SIGNALS = UNIV"
  by (auto simp: ALL_SIGNALS_def) (metis SignalKind.exhaust)

lemma all_signals: "(\<forall>s :: SignalKind. P s) \<longleftrightarrow> P Logs \<and> P Metrics \<and> P Traces"
  by (metis SignalKind.exhaust)

lemma sorted_ALL_SIGNALS: "sorted_wrt (<) ALL_SIGNALS"
  by (simp add: ALL_SIGNALS_def less_SignalKind_def)

lemma signal_of_to_signal_batch [simp]: "signal_of (to_signal_batch s b) = (s, b)"
  by (cases s) simp_all

end
