(* ===== verification/SignalRing.thy ===== *)
theory SignalRing
  imports Signals
begin

text \<open>
  \<open>crates/core/src/buffer/memory.rs\<close>: the ring of one signal. The queue of unleased batches, the
  table of active sequence numbers (\<open>slots\<close>) and the byte, row and lease counters, with the
  operations that the producers and the leases call under the ring's mutex. The contiguous
  watermark \<open>committed_seq\<close> is an atomic beside the ring: the operations take it and return it.

  \<open>'b\<close> is Arrow's \<open>RecordBatch\<close>, \<open>'s\<close> its schema.
\<close>

section \<open>State\<close>

datatype LeaseSlotState = Reserved | Queued | InFlight

datatype ('b, 's) BatchPayload =
    InMemory 'b
  | OnDisk (od_segment_id: nat) (od_offset: nat) (od_len: nat) (od_rows: nat) (od_schema: 's)

fun payload_schema :: "('b \<Rightarrow> 's) \<Rightarrow> ('b, 's) BatchPayload \<Rightarrow> 's" where
  "payload_schema batch_schema (InMemory batch) = batch_schema batch"
| "payload_schema batch_schema (OnDisk _ _ _ _ schema) = schema"

fun is_on_disk :: "('b, 's) BatchPayload \<Rightarrow> bool" where
  "is_on_disk (InMemory _) = False"
| "is_on_disk (OnDisk _ _ _ _ _) = True"

record ('b, 's) QueuedBatch =
  qb_seq_id :: nat
  qb_payload :: "('b, 's) BatchPayload"
  qb_byte_size :: nat
  qb_row_count :: nat
  qb_enqueued_at :: instant
  qb_first_failed_at :: "instant option"
  qb_attempt :: nat
  qb_ready_at :: "instant option"

record LeasedBatchMeta =
  lm_seq_id :: nat
  lm_byte_size :: nat
  lm_row_count :: nat
  lm_enqueued_at :: instant
  lm_first_failed_at :: "instant option"

record ('b, 's) SignalRing =
  queue :: "('b, 's) QueuedBatch list"
  slots :: "LeaseSlotState btree"
  inflight_enqueued_at :: "instant btree"
  next_seq :: nat
  bytes_in_flight :: nat
  rows_in_flight :: nat
  inflight_leases :: nat
  evicted_records :: nat
  evicted_unreclaimed_bytes :: "nat btree"
  unreclaimed_disk_bytes :: nat
  closed :: bool
  receiver_dropped :: bool
  ring_fatal_error :: "string option"

definition ring_new :: "('b, 's) SignalRing" where
  "ring_new = \<lparr>queue = [], slots = [], inflight_enqueued_at = [], next_seq = 1,
     bytes_in_flight = 0, rows_in_flight = 0, inflight_leases = 0, evicted_records = 0,
     evicted_unreclaimed_bytes = [], unreclaimed_disk_bytes = 0, closed = False,
     receiver_dropped = False, ring_fatal_error = None\<rparr>"

text \<open>
  The ring with its atomics (\<open>SignalRingState\<close>). A \<open>Notify\<close> is the number of \<open>notify_waiters\<close>
  calls made on it: a future enabled when the count was \<open>n\<close> is woken once the count exceeds \<open>n\<close>.
\<close>

record ('b, 's) SignalRingState =
  ring :: "('b, 's) SignalRing"
  space_available_notify :: nat
  data_ready_notify :: nat
  committed_seq :: nat
  active_senders :: nat
  corruption_drops :: nat
  replayed_records :: nat
  dead_letter_drops :: nat
  shutdown_timeout_drops :: nat
  blocked_senders :: nat
  blocked_since_unix_ms :: nat
  first_transient_failure_unix_ms :: nat

definition ring_state_new :: "('b, 's) SignalRingState" where
  "ring_state_new = \<lparr>ring = ring_new, space_available_notify = 0, data_ready_notify = 0,
     committed_seq = 0, active_senders = 0, corruption_drops = 0, replayed_records = 0,
     dead_letter_drops = 0, shutdown_timeout_drops = 0, blocked_senders = 0,
     blocked_since_unix_ms = 0, first_transient_failure_unix_ms = 0\<rparr>"

section \<open>Operations\<close>

definition enqueue_ordered ::
  "('b, 's) QueuedBatch \<Rightarrow> ('b, 's) QueuedBatch list \<Rightarrow> ('b, 's) QueuedBatch list" where
  "enqueue_ordered item q =
     (if q = [] \<or> qb_seq_id (last q) < qb_seq_id item then q @ [item]
      else if q \<noteq> [] \<and> qb_seq_id item < qb_seq_id (hd q) then item # q
      else takeWhile (\<lambda>e. \<not> qb_seq_id e > qb_seq_id item) q @ item #
           dropWhile (\<lambda>e. \<not> qb_seq_id e > qb_seq_id item) q)"

text \<open>The \<open>while let\<close> loop at the end of \<open>advance_watermark\<close>.\<close>

fun release_evicted :: "nat \<Rightarrow> nat btree \<Rightarrow> nat \<Rightarrow> nat btree \<times> nat" where
  "release_evicted watermark [] unreclaimed = ([], unreclaimed)"
| "release_evicted watermark ((seq, bytes) # m) unreclaimed =
     (if seq \<le> watermark then release_evicted watermark m (unreclaimed - bytes)
      else ((seq, bytes) # m, unreclaimed))"

definition watermark_candidate :: "('b, 's) SignalRing \<Rightarrow> nat" where
  "watermark_candidate r =
     (case bt_first (slots r) of
        None \<Rightarrow> next_seq r - 1
      | Some (first_unacked, _) \<Rightarrow> first_unacked - 1)"

definition advance_watermark ::
  "('b, 's) SignalRing \<Rightarrow> nat \<Rightarrow> ('b, 's) SignalRing \<times> nat" where
  "advance_watermark r committed =
     (let watermark = max committed (watermark_candidate r);
          (m, u) = release_evicted watermark (evicted_unreclaimed_bytes r) (unreclaimed_disk_bytes r)
      in (r\<lparr>evicted_unreclaimed_bytes := m, unreclaimed_disk_bytes := u\<rparr>, watermark))"

text \<open>\<open>record_evicted_batch\<close>: the ring, the watermark and the number of evicted rows.\<close>

definition record_evicted_batch ::
  "('b, 's) QueuedBatch \<Rightarrow> ('b, 's) SignalRing \<Rightarrow> nat \<Rightarrow> ('b, 's) SignalRing \<times> nat \<times> nat" where
  "record_evicted_batch evicted r committed =
     (let rows = qb_row_count evicted;
          r1 = r\<lparr>bytes_in_flight := bytes_in_flight r - qb_byte_size evicted,
                 rows_in_flight := rows_in_flight r - qb_row_count evicted,
                 evicted_records := sat_add (evicted_records r) rows,
                 slots := bt_remove (qb_seq_id evicted) (slots r)\<rparr>;
          r2 = (if is_on_disk (qb_payload evicted)
                then r1\<lparr>evicted_unreclaimed_bytes :=
                          bt_insert (qb_seq_id evicted) (qb_byte_size evicted) (evicted_unreclaimed_bytes r1),
                        unreclaimed_disk_bytes := sat_add (unreclaimed_disk_bytes r1) (qb_byte_size evicted)\<rparr>
                else r1);
          (r3, committed') = advance_watermark r2 committed
      in (r3, committed', rows))"

definition requeue_item ::
  "nat \<Rightarrow> instant option \<Rightarrow> ('b, 's) BatchPayload \<Rightarrow> LeasedBatchMeta \<Rightarrow> ('b, 's) QueuedBatch" where
  "requeue_item next_attempt ready_at payload item =
     \<lparr>qb_seq_id = lm_seq_id item, qb_payload = payload, qb_byte_size = lm_byte_size item,
      qb_row_count = lm_row_count item, qb_enqueued_at = lm_enqueued_at item,
      qb_first_failed_at = lm_first_failed_at item, qb_attempt = next_attempt,
      qb_ready_at = ready_at\<rparr>"

fun requeue_loop ::
  "nat \<Rightarrow> instant option \<Rightarrow> (('b, 's) BatchPayload \<times> LeasedBatchMeta) list \<Rightarrow>
   ('b, 's) SignalRing \<times> bool \<Rightarrow> ('b, 's) SignalRing \<times> bool" where
  "requeue_loop next_attempt ready_at [] (r, any_requeued) = (r, any_requeued)"
| "requeue_loop next_attempt ready_at ((payload, item) # rest) (r, any_requeued) =
     (let r1 = r\<lparr>inflight_enqueued_at := bt_remove (lm_seq_id item) (inflight_enqueued_at r)\<rparr>
      in if bt_get (slots r1) (lm_seq_id item) \<noteq> Some InFlight
         then requeue_loop next_attempt ready_at rest (r1, any_requeued)
         else requeue_loop next_attempt ready_at rest
                (r1\<lparr>slots := bt_insert (lm_seq_id item) Queued (slots r1),
                    queue := enqueue_ordered (requeue_item next_attempt ready_at payload item) (queue r1)\<rparr>,
                 True))"

definition requeue_at_head ::
  "('b, 's) BatchPayload list \<Rightarrow> LeasedBatchMeta list \<Rightarrow> nat \<Rightarrow> instant option \<Rightarrow>
   ('b, 's) SignalRing \<Rightarrow> ('b, 's) SignalRing" where
  "requeue_at_head payloads meta next_attempt ready_at r =
     (case requeue_loop next_attempt ready_at (rev (zip payloads meta)) (r, False) of
        (r', any_requeued) \<Rightarrow>
          if any_requeued then r'\<lparr>inflight_leases := inflight_leases r' - 1\<rparr> else r')"

fun ack_loop ::
  "LeasedBatchMeta list \<Rightarrow> ('b, 's) SignalRing \<times> nat \<times> nat \<times> bool \<Rightarrow>
   ('b, 's) SignalRing \<times> nat \<times> nat \<times> bool" where
  "ack_loop [] (r, acked_bytes, acked_rows, any_acked) = (r, acked_bytes, acked_rows, any_acked)"
| "ack_loop (item # rest) (r, acked_bytes, acked_rows, any_acked) =
     (let was = bt_get (slots r) (lm_seq_id item);
          r1 = r\<lparr>inflight_enqueued_at := bt_remove (lm_seq_id item) (inflight_enqueued_at r),
                 slots := bt_remove (lm_seq_id item) (slots r)\<rparr>
      in if was = Some InFlight
         then ack_loop rest (r1, sat_add acked_bytes (lm_byte_size item),
                             sat_add acked_rows (lm_row_count item), True)
         else ack_loop rest (r1, acked_bytes, acked_rows, any_acked))"

text \<open>\<open>ack_entries\<close>: the ring, the watermark and the number of acknowledged rows.\<close>

definition ack_entries ::
  "LeasedBatchMeta list \<Rightarrow> ('b, 's) SignalRing \<Rightarrow> nat \<Rightarrow> ('b, 's) SignalRing \<times> nat \<times> nat" where
  "ack_entries meta r committed =
     (case ack_loop meta (r, 0, 0, False) of
        (r1, acked_bytes, acked_rows, any_acked) \<Rightarrow>
          if any_acked
          then (case advance_watermark
                       (r1\<lparr>bytes_in_flight := bytes_in_flight r1 - acked_bytes,
                           rows_in_flight := rows_in_flight r1 - acked_rows,
                           inflight_leases := inflight_leases r1 - 1\<rparr>) committed of
                  (r2, committed') \<Rightarrow> (r2, committed', acked_rows))
          else (r1, committed, acked_rows))"

text \<open>
  \<open>oldest_enqueued_unix_ms\<close>. A clock reading gives the monotonic time in nanoseconds and the Unix
  time in milliseconds; one reading serves a whole operation.
\<close>

record clock =
  clk_now :: instant
  clk_unix_ms :: nat

definition min_value :: "instant btree \<Rightarrow> instant option" where
  "min_value m = (case m of [] \<Rightarrow> None | p # rest \<Rightarrow> Some (foldr (min \<circ> snd) rest (snd p)))"

definition oldest_enqueued_unix_ms :: "clock \<Rightarrow> ('b, 's) SignalRing \<Rightarrow> nat" where
  "oldest_enqueued_unix_ms clk r =
     (let oldest_queued = (case queue r of [] \<Rightarrow> None | b # _ \<Rightarrow> Some (qb_enqueued_at b));
          oldest_inflight = min_value (inflight_enqueued_at r)
      in case (case (oldest_queued, oldest_inflight) of
                 (Some q, Some i) \<Rightarrow> Some (min q i)
               | (Some q, None) \<Rightarrow> Some q
               | (None, Some i) \<Rightarrow> Some i
               | (None, None) \<Rightarrow> None) of
           None \<Rightarrow> 0
         | Some oldest \<Rightarrow>
             let elapsed_ms = min ((clk_now clk - oldest) div 1000000) u64_max
             in max (clk_unix_ms clk - elapsed_ms) 1)"

section \<open>Lemmas on the ring operations\<close>

named_theorems ring_frame

lemma mset_enqueue_ordered: "mset (enqueue_ordered x q) = add_mset x (mset q)"
proof -
  have "mset (takeWhile P q) + mset (dropWhile P q) = mset q" for P
    by (metis mset_append takeWhile_dropWhile_id)
  then show ?thesis by (simp add: enqueue_ordered_def)
qed

lemma set_enqueue_ordered [simp]: "set (enqueue_ordered x q) = insert x (set q)"
  by (metis mset_enqueue_ordered set_mset_add_mset_insert set_mset_mset)

lemma sorted_takeWhile_dropWhile:
  assumes "sorted_wrt (<) (map qb_seq_id q)" and "qb_seq_id x \<notin> qb_seq_id ` set q"
  shows "sorted_wrt (<) (map qb_seq_id
    (takeWhile (\<lambda>e. \<not> qb_seq_id e > qb_seq_id x) q @ x # dropWhile (\<lambda>e. \<not> qb_seq_id e > qb_seq_id x) q))"
  using assms
proof (induction q)
  case (Cons a q)
  have "set (takeWhile P q) \<subseteq> set q" and "set (dropWhile P q) \<subseteq> set q" for P
    by (auto dest: set_takeWhileD set_dropWhileD)
  with Cons show ?case by (auto dest!: set_takeWhileD set_dropWhileD)
qed simp

lemma sorted_seq_le_last:
  "sorted_wrt (<) (map qb_seq_id q) \<Longrightarrow> e \<in> set q \<Longrightarrow> qb_seq_id e \<le> qb_seq_id (last q)"
  by (induction q) (auto simp: less_imp_le)

lemma enqueue_ordered_eq:
  assumes "sorted_wrt (<) (map qb_seq_id q)"
  shows "enqueue_ordered x q =
    takeWhile (\<lambda>e. \<not> qb_seq_id e > qb_seq_id x) q @ x # dropWhile (\<lambda>e. \<not> qb_seq_id e > qb_seq_id x) q"
proof (cases "q = [] \<or> qb_seq_id (last q) < qb_seq_id x")
  case True
  then have all: "\<not> qb_seq_id e > qb_seq_id x" if "e \<in> set q" for e
    using sorted_seq_le_last [OF assms that] that by auto
  have "takeWhile (\<lambda>e. \<not> qb_seq_id e > qb_seq_id x) q = q"
    using all unfolding takeWhile_eq_all_conv by blast
  moreover have "dropWhile (\<lambda>e. \<not> qb_seq_id e > qb_seq_id x) q = []"
    using all unfolding dropWhile_eq_Nil_conv by blast
  ultimately show ?thesis using True by (simp only: enqueue_ordered_def if_True simp_thms append_Nil2)
next
  case False
  then show ?thesis by (cases q) (auto simp: enqueue_ordered_def)
qed

lemma sorted_enqueue_ordered:
  assumes "sorted_wrt (<) (map qb_seq_id q)" and "qb_seq_id x \<notin> qb_seq_id ` set q"
  shows "sorted_wrt (<) (map qb_seq_id (enqueue_ordered x q))"
  using sorted_takeWhile_dropWhile [OF assms] by (simp add: enqueue_ordered_eq [OF assms(1)])

lemma advance_watermark_frame [ring_frame, simp]:
  "queue (fst (advance_watermark r c)) = queue r"
  "slots (fst (advance_watermark r c)) = slots r"
  "inflight_enqueued_at (fst (advance_watermark r c)) = inflight_enqueued_at r"
  "next_seq (fst (advance_watermark r c)) = next_seq r"
  "bytes_in_flight (fst (advance_watermark r c)) = bytes_in_flight r"
  "rows_in_flight (fst (advance_watermark r c)) = rows_in_flight r"
  "inflight_leases (fst (advance_watermark r c)) = inflight_leases r"
  "evicted_records (fst (advance_watermark r c)) = evicted_records r"
  "closed (fst (advance_watermark r c)) = closed r"
  "receiver_dropped (fst (advance_watermark r c)) = receiver_dropped r"
  "ring_fatal_error (fst (advance_watermark r c)) = ring_fatal_error r"
  by (simp_all add: advance_watermark_def Let_def split: prod.split)

lemma snd_advance_watermark: "snd (advance_watermark r c) = max c (watermark_candidate r)"
  by (simp add: advance_watermark_def Let_def split: prod.split)

lemma advance_watermark_none_evicted:
  assumes "evicted_unreclaimed_bytes r = []"
  shows "fst (advance_watermark r c) = r"
  using assms by (simp add: advance_watermark_def)

lemma watermark_candidate_cong:
  "slots r = slots r' \<Longrightarrow> next_seq r = next_seq r' \<Longrightarrow> watermark_candidate r = watermark_candidate r'"
  by (simp add: watermark_candidate_def split: option.split)

lemma release_evicted_keeps:
  assumes "bt_inv m"
  shows "fst (release_evicted w m u) = filter (\<lambda>(s, b). w < s) m"
    and "sum_list (map snd m) \<le> u \<Longrightarrow>
         snd (release_evicted w m u) = u - sum_list (map snd (filter (\<lambda>(s, b). s \<le> w) m))"
  using assms
proof (induction w m u rule: release_evicted.induct)
  case (1 w u)
  {
    case 1
    then show ?case by simp
  next
    case 2
    then show ?case by simp
  }
next
  case (2 w s b m u)
  {
    case 1
    show ?case
    proof (cases "s \<le> w")
      case True
      with 1 2(1) show ?thesis by (simp add: bt_inv_Cons)
    next
      case False
      then have "\<forall>p \<in> set m. w < fst p" using 1 by (fastforce simp: bt_inv_Cons)
      then have "filter (\<lambda>(s, b). w < s) m = m" by (auto simp: filter_id_conv)
      with False show ?thesis by simp
    qed
  next
    case 2
    show ?case
    proof (cases "s \<le> w")
      case True
      with 2 "2.IH"(2) show ?thesis by (simp add: bt_inv_Cons)
    next
      case False
      then have "\<forall>p \<in> set m. \<not> fst p \<le> w" using 2 by (fastforce simp: bt_inv_Cons)
      then have "filter (\<lambda>(s, b). s \<le> w) m = []" by (auto simp: filter_empty_conv)
      with False show ?thesis by simp
    qed
  }
qed

end
