(* ===== verification/Watermark.thy ===== *)
theory Watermark
  imports SignalRing Decimal
begin

text \<open>
  The persisted watermark and the files of a buffer directory
  (\<open>crates/core/src/buffer/disk.rs\<close>, lines 346 to 552): \<open>DiskWatermark\<close> and its monotonic merge,
  segment file names, the atomic replacement of \<open>watermark.json\<close> and the removal of sealed segments.

  A directory maps file names to contents. The outcome of every system call is an argument, and the
  functions that touch files return the directory after each of their system calls, so that a crash
  between two of them is visible. JSON text is third-party code: the serializer is an argument.
\<close>

section \<open>The watermark\<close>

record DiskWatermark =
  wm_instance_id :: nat
  wm_logs :: nat
  wm_metrics :: nat
  wm_traces :: nat

definition default_watermark :: DiskWatermark where
  "default_watermark = \<lparr>wm_instance_id = 0, wm_logs = 0, wm_metrics = 0, wm_traces = 0\<rparr>"

fun for_signal :: "DiskWatermark \<Rightarrow> SignalKind \<Rightarrow> nat" where
  "for_signal wm Logs = wm_logs wm"
| "for_signal wm Metrics = wm_metrics wm"
| "for_signal wm Traces = wm_traces wm"

definition from_rings :: "nat \<Rightarrow> (SignalKind \<Rightarrow> ('b, 's) SignalRingState) \<Rightarrow> DiskWatermark" where
  "from_rings instance_id rings =
     \<lparr>wm_instance_id = instance_id, wm_logs = committed_seq (rings Logs),
      wm_metrics = committed_seq (rings Metrics), wm_traces = committed_seq (rings Traces)\<rparr>"

text \<open>\<open>merge_monotonic\<close>: the merged watermark and whether any field changed.\<close>

definition merge_monotonic :: "DiskWatermark \<Rightarrow> DiskWatermark \<Rightarrow> DiskWatermark \<times> bool" where
  "merge_monotonic self incoming =
     (let s1 = (if wm_instance_id self = 0 \<and> wm_instance_id incoming \<noteq> 0
                then self\<lparr>wm_instance_id := wm_instance_id incoming\<rparr> else self);
          s2 = (if wm_logs incoming > wm_logs s1 then s1\<lparr>wm_logs := wm_logs incoming\<rparr> else s1);
          s3 = (if wm_metrics incoming > wm_metrics s2 then s2\<lparr>wm_metrics := wm_metrics incoming\<rparr> else s2);
          s4 = (if wm_traces incoming > wm_traces s3 then s3\<lparr>wm_traces := wm_traces incoming\<rparr> else s3)
      in (s4, wm_instance_id s4 \<noteq> wm_instance_id self \<or> wm_logs s4 \<noteq> wm_logs self \<or>
              wm_metrics s4 \<noteq> wm_metrics self \<or> wm_traces s4 \<noteq> wm_traces self))"

section \<open>Segments\<close>

record SealedSegmentMeta =
  sg_path :: string
  sg_max_seq :: "SignalKind \<Rightarrow> nat"
  sg_has_frames :: bool

definition is_fully_acked :: "SealedSegmentMeta \<Rightarrow> DiskWatermark \<Rightarrow> bool" where
  "is_fully_acked seg wm \<longleftrightarrow>
     sg_has_frames seg \<and> sg_max_seq seg Logs \<le> wm_logs wm \<and>
     sg_max_seq seg Metrics \<le> wm_metrics wm \<and> sg_max_seq seg Traces \<le> wm_traces wm"

definition segment_file_name :: "nat \<Rightarrow> string" where
  "segment_file_name segment_id = ''segment-'' @ show_padded 20 segment_id @ ''.bin''"

text \<open>\<open>segment_path\<close> joins the name to the directory; a path here is the name within it.\<close>

definition segment_path :: "nat \<Rightarrow> string" where
  "segment_path segment_id = segment_file_name segment_id"

definition parse_segment_id :: "string \<Rightarrow> nat option" where
  "parse_segment_id file_name =
     Option.bind (strip_prefix ''segment-'' file_name) (\<lambda>rest.
     Option.bind (strip_suffix ''.bin'' rest) (\<lambda>digits.
       if length digits \<noteq> 20 \<or> \<not> list_all is_ascii_digit digits then None
       else parse_u64 digits))"

section \<open>Files\<close>

type_synonym dir = "string \<Rightarrow> byte list option"

text \<open>What goes wrong while a file is replaced: nothing, or the named call fails; a failing
  \<open>write_all\<close> has written some bytes.\<close>

datatype replace_fault = NoFault | SerializeFails | OpenFails | WriteFails "byte list" | SyncFails | RenameFails

text \<open>\<open>write_watermark_atomic\<close>: the result and the directory after each system call.\<close>

definition write_watermark_atomic ::
  "(DiskWatermark \<Rightarrow> byte list) \<Rightarrow> replace_fault \<Rightarrow> DiskWatermark \<Rightarrow> dir \<Rightarrow> (string + unit) \<times> dir list" where
  "write_watermark_atomic to_json fault wm d =
     (let payload = to_json wm;
          tmp = ''watermark.json.tmp''; final = ''watermark.json'';
          d1 = d(tmp \<mapsto> []); d2 = d(tmp \<mapsto> payload);
          d3 = (d2(final \<mapsto> payload))(tmp := None)
      in case fault of
           SerializeFails \<Rightarrow> (Inl ''failed to serialize watermark.json'', [])
         | OpenFails \<Rightarrow> (Inl ''failed to open watermark.json.tmp'', [])
         | WriteFails part \<Rightarrow> (Inl ''failed to write watermark.json.tmp'', [d1, d(tmp \<mapsto> part)])
         | SyncFails \<Rightarrow> (Inl ''failed to sync watermark.json.tmp'', [d1, d2])
         | RenameFails \<Rightarrow> (Inl ''failed to rename watermark.json.tmp to watermark.json'', [d1, d2])
         | NoFault \<Rightarrow> (Inr (), [d1, d2, d3]))"

text \<open>The directory a run leaves behind.\<close>

definition after :: "dir \<Rightarrow> dir list \<Rightarrow> dir" where
  "after d ds = (if ds = [] then d else last ds)"

text \<open>
  \<open>gc_sealed_segments\<close>: \<open>rm_ok\<close> says whether removing a file succeeds; its result is ignored.
\<close>

definition gc_sealed_segments ::
  "(string \<Rightarrow> bool) \<Rightarrow> SealedSegmentMeta list \<Rightarrow> DiskWatermark \<Rightarrow> dir \<Rightarrow> SealedSegmentMeta list \<times> dir" where
  "gc_sealed_segments rm_ok sealed wm d =
     (filter (\<lambda>seg. \<not> is_fully_acked seg wm) sealed,
      foldl (\<lambda>d seg. if is_fully_acked seg wm \<and> rm_ok (sg_path seg) then d(sg_path seg := None) else d) d sealed)"

section \<open>Lemmas\<close>

lemma for_signal_from_rings [simp]: "for_signal (from_rings i rings) s = committed_seq (rings s)"
  by (cases s) (simp_all add: from_rings_def)

lemma watermark_eqI:
  "wm_instance_id a = wm_instance_id b \<Longrightarrow> (\<And>s. for_signal a s = for_signal b s) \<Longrightarrow> a = b"
  for a b :: DiskWatermark
  by (metis DiskWatermark.equality for_signal.simps old.unit.exhaust)

lemma for_signal_merge [simp]:
  "for_signal (fst (merge_monotonic a b)) s = max (for_signal a s) (for_signal b s)"
  by (cases s) (auto simp: merge_monotonic_def Let_def max_def)

lemma instance_id_merge:
  "wm_instance_id (fst (merge_monotonic a b)) =
   (if wm_instance_id a = 0 then wm_instance_id b else wm_instance_id a)"
  by (auto simp: merge_monotonic_def Let_def)

lemma merge_changed_iff: "snd (merge_monotonic a b) \<longleftrightarrow> fst (merge_monotonic a b) \<noteq> a"
  for a b :: DiskWatermark
proof -
  obtain s where s: "s = fst (merge_monotonic a b)" by simp
  have "snd (merge_monotonic a b) \<longleftrightarrow>
      wm_instance_id s \<noteq> wm_instance_id a \<or> wm_logs s \<noteq> wm_logs a \<or>
      wm_metrics s \<noteq> wm_metrics a \<or> wm_traces s \<noteq> wm_traces a"
    unfolding s by (simp add: merge_monotonic_def Let_def)
  also have "\<dots> \<longleftrightarrow> s \<noteq> a" by (metis DiskWatermark.equality old.unit.exhaust)
  finally show ?thesis by (simp add: s)
qed

lemma is_fully_acked_iff: "is_fully_acked seg wm \<longleftrightarrow> sg_has_frames seg \<and> (\<forall>s. sg_max_seq seg s \<le> for_signal wm s)"
  by (auto simp: is_fully_acked_def all_signals)

lemma u64_max_20: "n \<le> u64_max \<Longrightarrow> n < 10 ^ 20"
  by (simp add: u64_max_def)

lemma parse_segment_file_name: "n \<le> u64_max \<Longrightarrow> parse_segment_id (segment_file_name n) = Some n"
proof -
  assume n: "n \<le> u64_max"
  then have p: "show_padded 20 n = fixed_digits 20 n"
    using show_padded_fixed [OF u64_max_20] by simp
  let ?d = "fixed_digits 20 n"
  have "strip_prefix ''segment-'' (segment_file_name n) = Some (?d @ ''.bin'')"
    unfolding segment_file_name_def p by (rule strip_prefix_append)
  moreover have "strip_suffix ''.bin'' (?d @ ''.bin'') = Some ?d" by (rule strip_suffix_append)
  moreover have "length ?d = 20" and "list_all is_ascii_digit ?d"
    by (rule length_fixed_digits, rule all_fixed_digits)
  moreover have "parse_u64 ?d = Some n"
  proof -
    have "?d \<noteq> []" by (metis length_fixed_digits list.size(3) zero_neq_numeral)
    then show ?thesis
      using n digits_val_fixed_digits [OF u64_max_20 [OF n]] all_fixed_digits [of 20 n]
      by (simp only: parse_u64_def) simp
  qed
  ultimately show ?thesis by (simp only: parse_segment_id_def Option.bind.simps) simp
qed

lemma parse_segment_id_inverse:
  assumes "parse_segment_id name = Some n"
  shows "name = segment_file_name n" and "n \<le> u64_max"
proof -
  obtain rest digits where "strip_prefix ''segment-'' name = Some rest"
    and "strip_suffix ''.bin'' rest = Some digits"
    and d: "length digits = 20" "list_all is_ascii_digit digits" and p: "parse_u64 digits = Some n"
    using assms by (auto simp: parse_segment_id_def bind_eq_Some_conv split: if_splits)
  then have "name = ''segment-'' @ rest" and "rest = digits @ ''.bin''"
    by (blast intro: strip_prefix_Some, blast intro: strip_suffix_Some)
  then have name: "name = ''segment-'' @ digits @ ''.bin''" by (simp only:)
  have n: "n = digits_val digits" "n \<le> u64_max" using p by (auto simp: parse_u64_def split: if_splits)
  have "digits = fixed_digits 20 n" using fixed_digits_digits_val [OF d(2)] d(1) n(1) by simp
  also have "\<dots> = show_padded 20 n" using show_padded_fixed [OF u64_max_20 [OF n(2)]] by simp
  finally show "name = segment_file_name n" unfolding name segment_file_name_def by (simp only:)
  show "n \<le> u64_max" by (rule n(2))
qed

lemma segment_file_name_inj:
  "a \<le> u64_max \<Longrightarrow> b \<le> u64_max \<Longrightarrow> segment_file_name a = segment_file_name b \<longleftrightarrow> a = b"
  by (metis parse_segment_file_name option.inject)

lemma segment_file_name_other: "segment_file_name n \<noteq> ''watermark.json''" "segment_file_name n \<noteq> ''watermark.json.tmp''"
  by (simp_all add: segment_file_name_def)

lemma gc_keeps_file:
  assumes "\<And>seg. seg \<in> set sealed \<Longrightarrow> is_fully_acked seg wm \<Longrightarrow> sg_path seg \<noteq> p"
  shows "snd (gc_sealed_segments rm_ok sealed wm d) p = d p"
  using assms unfolding gc_sealed_segments_def snd_conv
  by (induction sealed arbitrary: d) auto

section \<open>Merging snapshots in any order\<close>

text \<open>
  The contract the writer relies on: the value of a merge is the larger of the two, per signal.
\<close>

locale monotonic_merge =
  fixes merge :: "'w \<Rightarrow> 'w \<Rightarrow> 'w"
    and val :: "'w \<Rightarrow> 'k \<Rightarrow> nat"
  assumes val_merge: "val (merge a b) k = max (val a k) (val b k)"
begin

lemma val_foldl: "val (foldl merge a ws) k = fold max (map (\<lambda>w. val w k) ws) (val a k)"
  by (induction ws arbitrary: a) (simp_all add: val_merge max.commute)

lemma foldl_ge: "val a k \<le> val (foldl merge a ws) k"
proof (induction ws arbitrary: a)
  case (Cons w ws)
  have "val a k \<le> val (merge a w) k" by (simp add: val_merge)
  also have "\<dots> \<le> val (foldl merge (merge a w) ws) k" by (rule Cons.IH)
  finally show ?case by simp
qed simp

lemma foldl_covers: "w \<in> set ws \<Longrightarrow> val w k \<le> val (foldl merge a ws) k"
proof (induction ws arbitrary: a)
  case (Cons x ws)
  show ?case
  proof (cases "w = x")
    case True
    then have "val w k \<le> val (merge a x) k" by (simp add: val_merge)
    also have "\<dots> \<le> val (foldl merge (merge a x) ws) k" by (rule foldl_ge)
    finally show ?thesis by simp
  next
    case False
    then show ?thesis using Cons by simp
  qed
qed simp

lemma foldl_bound: "val a k \<le> n \<Longrightarrow> (\<And>w. w \<in> set ws \<Longrightarrow> val w k \<le> n) \<Longrightarrow> val (foldl merge a ws) k \<le> n"
  by (induction ws arbitrary: a) (simp_all add: val_merge)

lemma foldl_perm:
  assumes "mset ws = mset ws'"
  shows "val (foldl merge a ws) k = val (foldl merge a ws') k"
proof -
  have "set ws = set ws'" using assms by (rule mset_eq_setD)
  then show ?thesis
    by (intro antisym foldl_bound foldl_ge) (auto intro: foldl_covers)
qed

end

interpretation wm: monotonic_merge "\<lambda>a b. fst (merge_monotonic a b)" for_signal
  by unfold_locales simp

section \<open>Properties\<close>

text \<open>
  Concurrent watermark snapshots may arrive in any order: merging the same snapshots in another
  order gives the same value for every signal, the value is never below the one merged into nor
  below any snapshot, and the change flag of a merge tells exactly whether something changed.
\<close>

lemma merge_order_irrelevant:
  assumes "mset ws = mset ws'"
  shows "for_signal (foldl (\<lambda>a b. fst (merge_monotonic a b)) a ws) sig =
      for_signal (foldl (\<lambda>a b. fst (merge_monotonic a b)) a ws') sig \<and>
    for_signal a sig \<le> for_signal (foldl (\<lambda>a b. fst (merge_monotonic a b)) a ws) sig \<and>
    (\<forall>w \<in> set ws. for_signal w sig \<le> for_signal (foldl (\<lambda>a b. fst (merge_monotonic a b)) a ws) sig) \<and>
    (snd (merge_monotonic a b) \<longleftrightarrow> fst (merge_monotonic a b) \<noteq> a)"
  using wm.foldl_perm [OF assms] wm.foldl_ge wm.foldl_covers merge_changed_iff by blast

text \<open>
  Segment file names and segment numbers correspond one to one: a name parses to a number exactly
  when it is the name printed for that 64-bit number.
\<close>

lemma segment_name_bijection:
  "parse_segment_id name = Some n \<longleftrightarrow> n \<le> u64_max \<and> name = segment_file_name n"
  using parse_segment_id_inverse parse_segment_file_name by blast



end
