(* ===== verification/Frame.thy ===== *)
theory Frame
  imports Signals
begin

text \<open>
  The on-disk frame codec (\<open>crates/core/src/buffer/disk.rs\<close>, lines 13 to 344): the 28-byte
  little-endian \<open>OTLB\<close> header followed by an Arrow IPC stream.

  Arrow and \<open>crc32fast\<close> are third-party code. The functions of theirs that the code calls are the
  fields of \<open>arrow_ops\<close>, an argument of every definition that uses them: rows of a batch, schema,
  memory size, slicing, concatenation, the IPC stream writer and reader, the IPC file writer, and the checksum of the
  bytes fed to one hasher. What the proofs rely on is stated as the predicates \<open>crc_ok\<close>, \<open>ipc_ok\<close>
  and \<open>slice_ok\<close>.

  A reader is the bytes still to come together with a script of what the next \<open>read\<close> calls do:
  deliver a short chunk, be interrupted, fail. An exhausted script delivers what is asked for.
\<close>

section \<open>Third-party operations\<close>

record ('b, 's) arrow_ops =
  ao_num_rows :: "'b \<Rightarrow> nat"
  ao_schema :: "'b \<Rightarrow> 's"
  ao_memory_size :: "'b \<Rightarrow> nat"
  ao_slice :: "'b \<Rightarrow> nat \<Rightarrow> nat \<Rightarrow> 'b"
  ao_concat :: "'s \<Rightarrow> 'b list \<Rightarrow> 'b result"
  ao_ipc_encode :: "'b \<Rightarrow> byte list result"
  ao_ipc_decode :: "byte list \<Rightarrow> string + 'b option"
  ao_file_encode :: "'s \<Rightarrow> 'b list \<Rightarrow> byte list result"
  ao_crc32 :: "byte list \<Rightarrow> nat"

definition crc_ok :: "('b, 's) arrow_ops \<Rightarrow> bool" where
  "crc_ok ao \<longleftrightarrow> (\<forall>bs. ao_crc32 ao bs \<le> u32_max)"

definition ipc_ok :: "('b, 's) arrow_ops \<Rightarrow> 'b \<Rightarrow> bool" where
  "ipc_ok ao b \<longleftrightarrow>
     (\<forall>bs. ao_ipc_encode ao b = Inr bs \<longrightarrow> ao_ipc_decode ao bs = Inr (Some b))"

section \<open>Headers\<close>

record FrameHeader =
  fh_signal :: SignalKind
  fh_seq_id :: nat
  fh_row_count :: nat
  fh_payload_len :: nat
  fh_crc32 :: nat

datatype FrameDecodeError =
    TornFrame
  | InvalidHeader string
  | CrcMismatch FrameHeader nat
  | IpcDecode FrameHeader string
  | Io string

definition FRAME_MAGIC :: "byte list" where
  "FRAME_MAGIC = [0x4F, 0x54, 0x4C, 0x42]"

definition FRAME_VERSION :: byte where
  "FRAME_VERSION = 1"

definition FRAME_HEADER_LEN :: nat where
  "FRAME_HEADER_LEN = 28"

text \<open>Header bytes 0 to 24, before the checksum is known.\<close>

definition header_prefix :: "SignalKind \<Rightarrow> nat \<Rightarrow> nat \<Rightarrow> nat \<Rightarrow> byte list" where
  "header_prefix signal seq_id row_count payload_len =
     FRAME_MAGIC @ [FRAME_VERSION, as_u8 signal] @ le_bytes 2 0 @ le_bytes 8 seq_id @
     le_bytes 4 row_count @ le_bytes 4 payload_len"

text \<open>\<open>encode_frame\<close>: appends a frame to \<open>out\<close>.\<close>

definition encode_frame ::
  "('b, 's) arrow_ops \<Rightarrow> SignalKind \<Rightarrow> nat \<Rightarrow> 'b \<Rightarrow> byte list \<Rightarrow> (FrameHeader \<times> byte list) result" where
  "encode_frame ao signal seq_id batch out =
     (let row_count = ao_num_rows ao batch
      in if row_count > u32_max then Inl (Storage ''RecordBatch row_count exceeds u32::MAX'')
      else try_bind (ao_ipc_encode ao batch) (\<lambda>payload.
        let payload_len = length payload
        in if payload_len > u32_max then Inl (Storage ''OTLB frame payload exceeds u32::MAX'')
        else let hdr = header_prefix signal seq_id row_count payload_len;
                 crc32 = ao_crc32 ao (drop 4 hdr @ payload)
             in Inr (\<lparr>fh_signal = signal, fh_seq_id = seq_id, fh_row_count = row_count,
                      fh_payload_len = payload_len, fh_crc32 = crc32\<rparr>,
                     out @ hdr @ le_bytes 4 crc32 @ payload)))"

text \<open>\<open>copy_from_slice\<close> into \<open>bs[i..i + src.len()]\<close>.\<close>

definition copy_at :: "nat \<Rightarrow> byte list \<Rightarrow> byte list \<Rightarrow> byte list" where
  "copy_at i src bs = take i bs @ src @ drop (i + length src) bs"

definition patch_frame_seq_id ::
  "('b, 's) arrow_ops \<Rightarrow> byte list \<Rightarrow> FrameHeader \<Rightarrow> nat \<Rightarrow> (byte list \<times> FrameHeader) result" where
  "patch_frame_seq_id ao frame_bytes header seq_id =
     (let expected_len = sat_add FRAME_HEADER_LEN (fh_payload_len header)
      in if length frame_bytes < FRAME_HEADER_LEN \<or> length frame_bytes \<noteq> expected_len
         then Inl (Storage ''cannot patch OTLB frame seq_id: buffer length does not match expected frame length'')
         else let b1 = copy_at 8 (le_bytes 8 seq_id) frame_bytes;
                  crc32 = ao_crc32 ao (take 20 (drop 4 b1) @ drop FRAME_HEADER_LEN b1);
                  b2 = copy_at 24 (le_bytes 4 crc32) b1
              in Inr (b2, header\<lparr>fh_seq_id := seq_id, fh_crc32 := crc32\<rparr>))"

section \<open>Splitting\<close>

record 'b PreEncodedFrame =
  pf_header :: FrameHeader
  pf_bytes :: "byte list"
  pf_batch :: 'b

text \<open>
  \<open>split_and_encode_recursive\<close>. The depth of the recursion depends on Arrow's \<open>slice\<close>, so it is
  bounded by fuel; \<open>None\<close> is running out of it. \<open>num_rows + 1\<close> is enough (\<open>split_total\<close>).
\<close>

fun split_and_encode_recursive ::
  "nat \<Rightarrow> ('b, 's) arrow_ops \<Rightarrow> SignalKind \<Rightarrow> 'b \<Rightarrow> nat \<Rightarrow> 'b PreEncodedFrame list \<Rightarrow>
   'b PreEncodedFrame list result option" where
  "split_and_encode_recursive 0 ao signal batch max_payload_len out = None"
| "split_and_encode_recursive (Suc fuel) ao signal batch max_payload_len out =
     (case encode_frame ao signal 0 batch [] of
        Inl e \<Rightarrow> Some (Inl e)
      | Inr (header, bytes) \<Rightarrow>
          if fh_payload_len header \<le> max_payload_len
          then Some (Inr (out @ [\<lparr>pf_header = header, pf_bytes = bytes, pf_batch = batch\<rparr>]))
          else let rows = ao_num_rows ao batch
               in if rows \<le> 1
                  then Some (Inl (Storage ''single-row RecordBatch encoded OTLB payload exceeds max_payload_len''))
                  else let mid = rows div 2;
                           left = ao_slice ao batch 0 mid;
                           right = ao_slice ao batch mid (rows - mid)
                       in case split_and_encode_recursive fuel ao signal left max_payload_len out of
                            None \<Rightarrow> None
                          | Some (Inl e) \<Rightarrow> Some (Inl e)
                          | Some (Inr out') \<Rightarrow>
                              split_and_encode_recursive fuel ao signal right max_payload_len out')"

definition split_and_encode_frames_for_disk ::
  "('b, 's) arrow_ops \<Rightarrow> SignalKind \<Rightarrow> 'b \<Rightarrow> nat \<Rightarrow> 'b PreEncodedFrame list result option" where
  "split_and_encode_frames_for_disk ao signal batch max_payload_len =
     split_and_encode_recursive (ao_num_rows ao batch + 1) ao signal batch max_payload_len []"

section \<open>Reading\<close>

datatype read_event = Chunk nat | Interrupted | UnexpectedEof | ReadError string

type_synonym reader = "byte list \<times> read_event list"

text \<open>
  The two read loops of \<open>decode_frame\<close>: both collect bytes until \<open>n\<close> of them are there, one \<open>read\<close>
  call per round. \<open>Chunk k\<close> delivers at most \<open>k + 1\<close> bytes; \<open>Ok(0)\<close> is the end of the file. The
  header loop distinguishes a clean end of file; \<open>read_exact\<close> reports one as an error.
\<close>

datatype fill_result = Filled "byte list" | AtEof "byte list" | EofError | Failed string

fun fill :: "nat \<Rightarrow> byte list \<Rightarrow> byte list \<Rightarrow> read_event list \<Rightarrow> fill_result \<times> reader" where
  "fill n got bs [] =
     (if n \<le> length got then (Filled got, (bs, []))
      else if n - length got \<le> length bs
      then (Filled (got @ take (n - length got) bs), (drop (n - length got) bs, []))
      else (AtEof (got @ bs), ([], [])))"
| "fill n got bs (e # rest) =
     (if n \<le> length got then (Filled got, (bs, e # rest))
      else case e of
        Interrupted \<Rightarrow> fill n got bs rest
      | UnexpectedEof \<Rightarrow> (EofError, (bs, rest))
      | ReadError msg \<Rightarrow> (Failed msg, (bs, rest))
      | Chunk k \<Rightarrow>
          let chunk = take (min (n - length got) (Suc k)) bs
          in if chunk = [] then (AtEof got, (bs, rest))
             else fill n (got @ chunk) (drop (length chunk) bs) rest)"

definition parse_header :: "byte list \<Rightarrow> nat \<Rightarrow> FrameDecodeError + FrameHeader" where
  "parse_header hdr max_payload_len =
     (if take 4 hdr \<noteq> FRAME_MAGIC then Inl (InvalidHeader ''unexpected frame magic'')
      else if hdr ! 4 \<noteq> FRAME_VERSION then Inl (InvalidHeader ''unsupported frame version'')
      else case from_u8 (hdr ! 5) of
        None \<Rightarrow> Inl (InvalidHeader ''invalid signal type byte'')
      | Some signal \<Rightarrow>
          let seq_id = le_nat (take 8 (drop 8 hdr));
              row_count = le_nat (take 4 (drop 16 hdr));
              payload_len = le_nat (take 4 (drop 20 hdr));
              crc32 = le_nat (take 4 (drop 24 hdr))
          in if payload_len > max_payload_len
             then Inl (InvalidHeader ''frame payload_len exceeds max_payload_len'')
             else Inr \<lparr>fh_signal = signal, fh_seq_id = seq_id, fh_row_count = row_count,
                       fh_payload_len = payload_len, fh_crc32 = crc32\<rparr>)"

definition check_payload ::
  "('b, 's) arrow_ops \<Rightarrow> byte list \<Rightarrow> FrameHeader \<Rightarrow> byte list \<Rightarrow> FrameDecodeError + (FrameHeader \<times> 'b) option"
  where
  "check_payload ao hdr header payload =
     (let actual_crc = ao_crc32 ao (take 20 (drop 4 hdr) @ payload)
      in if actual_crc \<noteq> fh_crc32 header then Inl (CrcMismatch header actual_crc)
         else case ao_ipc_decode ao payload of
           Inl source \<Rightarrow> Inl (IpcDecode header source)
         | Inr None \<Rightarrow> Inl (IpcDecode header ''OTLB frame contained no RecordBatch in IPC stream'')
         | Inr (Some b) \<Rightarrow> Inr (Some (header, b)))"

definition decode_frame ::
  "('b, 's) arrow_ops \<Rightarrow> reader \<Rightarrow> nat \<Rightarrow> FrameDecodeError + (FrameHeader \<times> 'b) option" where
  "decode_frame ao rd max_payload_len =
     (case fill FRAME_HEADER_LEN [] (fst rd) (snd rd) of
        (AtEof got, _) \<Rightarrow> if got = [] then Inr None else Inl TornFrame
      | (EofError, _) \<Rightarrow> Inl TornFrame
      | (Failed e, _) \<Rightarrow> Inl (Io e)
      | (Filled hdr, rd1) \<Rightarrow>
          try_bind (parse_header hdr max_payload_len) (\<lambda>header.
            case fill (fh_payload_len header) [] (fst rd1) (snd rd1) of
              (AtEof _, _) \<Rightarrow> Inl TornFrame
            | (EofError, _) \<Rightarrow> Inl TornFrame
            | (Failed e, _) \<Rightarrow> Inl (Io e)
            | (Filled payload, _) \<Rightarrow> check_payload ao hdr header payload))"

section \<open>Lemmas on the read loop\<close>

definition benign :: "read_event list \<Rightarrow> bool" where
  "benign script \<longleftrightarrow> list_all (\<lambda>e. case e of Chunk _ \<Rightarrow> True | Interrupted \<Rightarrow> True | _ \<Rightarrow> False) script"

lemma benign_simps [simp]:
  "benign []" "benign (Chunk k # s) = benign s" "benign (Interrupted # s) = benign s"
  "\<not> benign (UnexpectedEof # s)" "\<not> benign (ReadError e # s)"
  by (simp_all add: benign_def)

text \<open>However the bytes are delivered, the loop collects exactly the ones asked for.\<close>

lemma fill_spec:
  assumes "benign script"
  shows "\<exists>script'. benign script' \<and> fill n got bs script =
    (if n \<le> length got + length bs
     then (Filled (got @ take (n - length got) bs), (drop (n - length got) bs, script'))
     else (AtEof (got @ bs), ([], script')))"
  using assms
proof (induction script arbitrary: got bs)
  case Nil
  show ?case by (rule exI [of _ "[]"]) auto
next
  case (Cons e rest)
  show ?case
  proof (cases "n \<le> length got")
    case True
    then show ?thesis using Cons.prems by (intro exI [of _ "e # rest"]) simp
  next
    case False
    show ?thesis
    proof (cases e)
      case (Chunk k)
      let ?m = "min (n - length got) (Suc k)"
      show ?thesis
      proof (cases "bs = []")
        case True
        then show ?thesis using False Chunk Cons.prems by (intro exI [of _ rest]) simp
      next
        case bs: False
        let ?c = "take ?m bs"
        have "\<exists>script'. benign script' \<and> fill n (got @ ?c) (drop (length ?c) bs) rest =
          (if n \<le> length (got @ ?c) + length (drop (length ?c) bs)
           then (Filled ((got @ ?c) @ take (n - length (got @ ?c)) (drop (length ?c) bs)),
                 (drop (n - length (got @ ?c)) (drop (length ?c) bs), script'))
           else (AtEof ((got @ ?c) @ drop (length ?c) bs), ([], script')))"
          by (rule Cons.IH) (use Cons.prems Chunk in simp)
        then obtain script' where s: "benign script'" and
          eq: "fill n (got @ ?c) (drop (length ?c) bs) rest =
          (if n \<le> length (got @ ?c) + length (drop (length ?c) bs)
           then (Filled ((got @ ?c) @ take (n - length (got @ ?c)) (drop (length ?c) bs)),
                 (drop (n - length (got @ ?c)) (drop (length ?c) bs), script'))
           else (AtEof ((got @ ?c) @ drop (length ?c) bs), ([], script')))" by blast
        have len: "length (got @ ?c) + length (drop (length ?c) bs) = length got + length bs" by simp
        have all: "?c @ drop (length ?c) bs = bs" by (simp add: min_def)
        have part: "?c @ take (n - length (got @ ?c)) (drop (length ?c) bs) = take (n - length got) bs"
          "drop (n - length (got @ ?c)) (drop (length ?c) bs) = drop (n - length got) bs"
          if "n \<le> length got + length bs"
        proof -
          have "length ?c = ?m" using that by simp
          then have "n - length got = length ?c + (n - length (got @ ?c))" and "?c = take (length ?c) bs"
            using that by simp_all
          then show "?c @ take (n - length (got @ ?c)) (drop (length ?c) bs) = take (n - length got) bs"
            and "drop (n - length (got @ ?c)) (drop (length ?c) bs) = drop (n - length got) bs"
            by (metis take_add, metis add.commute drop_drop)
        qed
        have "fill n got bs (e # rest) = fill n (got @ ?c) (drop (length ?c) bs) rest"
          using False bs Chunk
          by (cases "n - length got \<le> Suc k") (simp_all add: Let_def min_def)
        also have "\<dots> = (if n \<le> length got + length bs
           then (Filled (got @ take (n - length got) bs), (drop (n - length got) bs, script'))
           else (AtEof (got @ bs), ([], script')))"
          unfolding eq len append_assoc by (cases "n \<le> length got + length bs") (simp_all only: part all if_True if_False)
        finally show ?thesis using s by blast
      qed
    qed (use Cons False in auto)
  qed
qed

section \<open>Decoding as a function of the bytes\<close>

definition decode_bytes ::
  "('b, 's) arrow_ops \<Rightarrow> byte list \<Rightarrow> nat \<Rightarrow> FrameDecodeError + (FrameHeader \<times> 'b) option" where
  "decode_bytes ao bs max_payload_len =
     (if bs = [] then Inr None
      else if length bs < FRAME_HEADER_LEN then Inl TornFrame
      else try_bind (parse_header (take FRAME_HEADER_LEN bs) max_payload_len) (\<lambda>h.
        if length bs < FRAME_HEADER_LEN + fh_payload_len h then Inl TornFrame
        else check_payload ao (take FRAME_HEADER_LEN bs) h
               (take (fh_payload_len h) (drop FRAME_HEADER_LEN bs))))"

lemma decode_frame_bytes:
  assumes "benign script"
  shows "decode_frame ao (bs, script) max_len = decode_bytes ao bs max_len"
proof (cases "length bs < FRAME_HEADER_LEN")
  case True
  then show ?thesis
    using fill_spec [OF assms, of FRAME_HEADER_LEN "[]" bs]
    by (auto simp: decode_frame_def decode_bytes_def FRAME_HEADER_LEN_def)
next
  case False
  let ?hdr = "take FRAME_HEADER_LEN bs" and ?rest = "drop FRAME_HEADER_LEN bs"
  obtain s1 where "benign s1"
    and f1: "fill FRAME_HEADER_LEN [] bs script = (Filled ?hdr, (?rest, s1))"
    using fill_spec [OF assms, of FRAME_HEADER_LEN "[]" bs] False by auto
  then have f2: "\<exists>s2. fill n [] ?rest s1 =
      (if n \<le> length ?rest then (Filled (take n ?rest), (drop n ?rest, s2)) else (AtEof ?rest, ([], s2)))" for n
    using fill_spec [of s1 n "[]" ?rest] by auto
  show ?thesis
  proof (cases "parse_header ?hdr max_len")
    case (Inl e)
    then show ?thesis using f1 False by (auto simp: decode_frame_def decode_bytes_def FRAME_HEADER_LEN_def)
  next
    case (Inr h)
    obtain s2 where "fill (fh_payload_len h) [] ?rest s1 =
      (if fh_payload_len h \<le> length ?rest
       then (Filled (take (fh_payload_len h) ?rest), (drop (fh_payload_len h) ?rest, s2))
       else (AtEof ?rest, ([], s2)))" using f2 by blast
    moreover have "bs \<noteq> []" using False by (auto simp: FRAME_HEADER_LEN_def)
    ultimately show ?thesis using f1 False Inr
      by (cases "fh_payload_len h \<le> length ?rest") (auto simp: decode_frame_def decode_bytes_def)
  qed
qed

section \<open>The codec\<close>

lemma length_header_prefix [simp]: "length (header_prefix sg sq n l) = 24"
  by (simp add: header_prefix_def FRAME_MAGIC_def)

lemma le_nat_le_bytes_4: "x \<le> u32_max \<Longrightarrow> le_nat (le_bytes 4 x) = x"
  by (rule le_nat_le_bytes) (simp add: u32_max_def)

lemma le_nat_le_bytes_8: "x \<le> u64_max \<Longrightarrow> le_nat (le_bytes 8 x) = x"
  by (rule le_nat_le_bytes) (simp add: u64_max_def)

text \<open>The fields of a header sit where the decoder looks for them.\<close>

lemma header_fields:
  fixes sg sq n l crc
  defines "h \<equiv> header_prefix sg sq n l @ le_bytes 4 crc"
  shows "take 4 h = FRAME_MAGIC" and "h ! 4 = FRAME_VERSION" and "h ! 5 = as_u8 sg"
    and "take 8 (drop 8 h) = le_bytes 8 sq" and "take 4 (drop 16 h) = le_bytes 4 n"
    and "take 4 (drop 20 h) = le_bytes 4 l" and "take 4 (drop 24 h) = le_bytes 4 crc"
    and "take 20 (drop 4 h) = drop 4 (header_prefix sg sq n l)" and "length h = 28"
  by (simp_all add: h_def header_prefix_def FRAME_MAGIC_def nth_append)

definition header_of :: "('b, 's) arrow_ops \<Rightarrow> SignalKind \<Rightarrow> nat \<Rightarrow> nat \<Rightarrow> byte list \<Rightarrow> FrameHeader" where
  "header_of ao sg sq n p = \<lparr>fh_signal = sg, fh_seq_id = sq, fh_row_count = n, fh_payload_len = length p,
     fh_crc32 = ao_crc32 ao (drop 4 (header_prefix sg sq n (length p)) @ p)\<rparr>"

definition frame_of :: "('b, 's) arrow_ops \<Rightarrow> SignalKind \<Rightarrow> nat \<Rightarrow> nat \<Rightarrow> byte list \<Rightarrow> byte list" where
  "frame_of ao sg sq n p =
     (header_prefix sg sq n (length p) @ le_bytes 4 (fh_crc32 (header_of ao sg sq n p))) @ p"

lemma header_of_simps [simp]:
  "fh_signal (header_of ao sg sq n p) = sg" "fh_seq_id (header_of ao sg sq n p) = sq"
  "fh_row_count (header_of ao sg sq n p) = n" "fh_payload_len (header_of ao sg sq n p) = length p"
  "fh_crc32 (header_of ao sg sq n p) = ao_crc32 ao (drop 4 (header_prefix sg sq n (length p)) @ p)"
  by (simp_all add: header_of_def)

lemma length_frame_of [simp]: "length (frame_of ao sg sq n p) = 28 + length p"
  by (simp add: frame_of_def)

lemma frame_of_not_Nil [simp]: "frame_of ao sg sq n p \<noteq> []"
  by (simp add: frame_of_def header_prefix_def)

lemma encode_frame_Inr:
  "encode_frame ao sg sq b out = Inr (h, bs) \<longleftrightarrow>
   (\<exists>p. ao_ipc_encode ao b = Inr p \<and> ao_num_rows ao b \<le> u32_max \<and> length p \<le> u32_max \<and>
        h = header_of ao sg sq (ao_num_rows ao b) p \<and> bs = out @ frame_of ao sg sq (ao_num_rows ao b) p)"
  by (cases "ao_ipc_encode ao b")
    (auto simp: encode_frame_def Let_def header_of_def frame_of_def split: if_splits)

lemma parse_header_frame:
  assumes "crc_ok ao" and "sq \<le> u64_max" and "n \<le> u32_max" and "length p \<le> u32_max" and "length p \<le> max_len"
  shows "parse_header (take 28 (frame_of ao sg sq n p @ rest)) max_len = Inr (header_of ao sg sq n p)"
proof -
  let ?h = "header_prefix sg sq n (length p) @ le_bytes 4 (fh_crc32 (header_of ao sg sq n p))"
  have hd: "take 28 (frame_of ao sg sq n p @ rest) = ?h" by (simp add: frame_of_def)
  have "fh_crc32 (header_of ao sg sq n p) \<le> u32_max" using assms(1) by (simp add: crc_ok_def)
  then show ?thesis
    using assms unfolding hd parse_header_def header_fields Let_def
    by (simp add: le_nat_le_bytes_4 le_nat_le_bytes_8 header_of_def)
qed

lemma decode_bytes_frame:
  assumes "crc_ok ao" and "sq \<le> u64_max" and "n \<le> u32_max" and "length p \<le> u32_max" and "length p \<le> max_len"
  shows "decode_bytes ao (frame_of ao sg sq n p @ rest) max_len =
    (case ao_ipc_decode ao p of
       Inl source \<Rightarrow> Inl (IpcDecode (header_of ao sg sq n p) source)
     | Inr None \<Rightarrow> Inl (IpcDecode (header_of ao sg sq n p) ''OTLB frame contained no RecordBatch in IPC stream'')
     | Inr (Some b) \<Rightarrow> Inr (Some (header_of ao sg sq n p, b)))"
proof -
  let ?h = "header_prefix sg sq n (length p) @ le_bytes 4 (fh_crc32 (header_of ao sg sq n p))"
  have hd: "take 28 (frame_of ao sg sq n p @ rest) = ?h"
    and tl: "drop 28 (frame_of ao sg sq n p @ rest) = p @ rest" by (simp_all add: frame_of_def)
  have "check_payload ao ?h (header_of ao sg sq n p) p =
    (case ao_ipc_decode ao p of
       Inl source \<Rightarrow> Inl (IpcDecode (header_of ao sg sq n p) source)
     | Inr None \<Rightarrow> Inl (IpcDecode (header_of ao sg sq n p) ''OTLB frame contained no RecordBatch in IPC stream'')
     | Inr (Some b) \<Rightarrow> Inr (Some (header_of ao sg sq n p, b)))"
    unfolding check_payload_def Let_def header_fields by simp
  then show ?thesis
    using parse_header_frame [OF assms, of sg rest] hd tl
    by (simp add: decode_bytes_def FRAME_HEADER_LEN_def)
qed

lemma decode_bytes_torn:
  assumes "crc_ok ao" and "sq \<le> u64_max" and "n \<le> u32_max" and "length p \<le> u32_max" and "length p \<le> max_len"
    and "0 < k" and "k < length (frame_of ao sg sq n p)"
  shows "decode_bytes ao (take k (frame_of ao sg sq n p)) max_len = Inl TornFrame"
proof (cases "k < 28")
  case True
  then show ?thesis using assms(6,7) by (auto simp: decode_bytes_def FRAME_HEADER_LEN_def)
next
  case False
  then have "take 28 (take k (frame_of ao sg sq n p)) = take 28 (frame_of ao sg sq n p @ [])"
    by (simp add: min_def)
  then have "parse_header (take 28 (take k (frame_of ao sg sq n p))) max_len = Inr (header_of ao sg sq n p)"
    using parse_header_frame [OF assms(1-5), of sg "[]"] by simp
  then show ?thesis using assms(6,7) False by (auto simp: decode_bytes_def FRAME_HEADER_LEN_def)
qed

lemma patch_frame_of:
  assumes "length p + 28 \<le> u64_max"
  shows "patch_frame_seq_id ao (frame_of ao sg sq n p) (header_of ao sg sq n p) sq' =
   Inr (frame_of ao sg sq' n p, header_of ao sg sq' n p)"
proof -
  let ?A = "FRAME_MAGIC @ [FRAME_VERSION, as_u8 sg] @ le_bytes 2 0"
  let ?B = "le_bytes 4 n @ le_bytes 4 (length p)"
  let ?c = "fh_crc32 (header_of ao sg sq n p)" and ?c' = "fh_crc32 (header_of ao sg sq' n p)"
  have A: "length ?A = 8" by (simp add: FRAME_MAGIC_def)
  have f: "frame_of ao sg s n p = ?A @ le_bytes 8 s @ ?B @ le_bytes 4 (fh_crc32 (header_of ao sg s n p)) @ p" for s
    by (simp add: frame_of_def header_prefix_def)
  have b1: "copy_at 8 (le_bytes 8 sq') (frame_of ao sg sq n p) = header_prefix sg sq' n (length p) @ le_bytes 4 ?c @ p"
    unfolding f copy_at_def using A by (simp add: header_prefix_def FRAME_MAGIC_def)
  have b2: "copy_at 24 (le_bytes 4 x) (header_prefix sg sq' n (length p) @ le_bytes 4 ?c @ p) =
      header_prefix sg sq' n (length p) @ le_bytes 4 x @ p" for x
    by (simp add: copy_at_def)
  have "take 20 (drop 4 (header_prefix sg sq' n (length p) @ le_bytes 4 ?c @ p)) =
      drop 4 (header_prefix sg sq' n (length p))" by simp
  moreover have "drop 28 (header_prefix sg sq' n (length p) @ le_bytes 4 ?c @ p) = p" by simp
  ultimately have "patch_frame_seq_id ao (frame_of ao sg sq n p) (header_of ao sg sq n p) sq' =
      Inr (header_prefix sg sq' n (length p) @ le_bytes 4 ?c' @ p,
           (header_of ao sg sq n p)\<lparr>fh_seq_id := sq', fh_crc32 := ?c'\<rparr>)"
    using assms unfolding patch_frame_seq_id_def Let_def b1 FRAME_HEADER_LEN_def
    by (simp add: sat_simps add.commute copy_at_def)
  moreover have "(header_of ao sg sq n p)\<lparr>fh_seq_id := sq', fh_crc32 := ?c'\<rparr> = header_of ao sg sq' n p"
    by (simp add: header_of_def)
  ultimately show ?thesis by (simp add: frame_of_def)
qed

section \<open>Splitting by row bisection\<close>

text \<open>
  What is asked of Arrow's \<open>slice\<close>, for a function \<open>rows\<close> that lists the rows of a batch: it
  returns the rows of the range.
\<close>

definition slice_ok :: "('b, 's) arrow_ops \<Rightarrow> ('b \<Rightarrow> 'r list) \<Rightarrow> bool" where
  "slice_ok ao rows \<longleftrightarrow>
     (\<forall>b. ao_num_rows ao b = length (rows b)) \<and>
     (\<forall>b i n. i + n \<le> ao_num_rows ao b \<longrightarrow> rows (ao_slice ao b i n) = take n (drop i (rows b)))"

text \<open>What a produced frame is: the encoding, under sequence number 0, of its batch.\<close>

definition frame_ok :: "('b, 's) arrow_ops \<Rightarrow> SignalKind \<Rightarrow> nat \<Rightarrow> 'b PreEncodedFrame \<Rightarrow> bool" where
  "frame_ok ao sg max_len f \<longleftrightarrow>
     encode_frame ao sg 0 (pf_batch f) [] = Inr (pf_header f, pf_bytes f) \<and>
     fh_payload_len (pf_header f) \<le> max_len"

lemma slice_halves:
  assumes "slice_ok ao rows" and "1 < ao_num_rows ao b"
  defines "mid \<equiv> ao_num_rows ao b div 2"
  shows "rows (ao_slice ao b 0 mid) @ rows (ao_slice ao b mid (ao_num_rows ao b - mid)) = rows b"
    and "ao_num_rows ao (ao_slice ao b 0 mid) < ao_num_rows ao b"
    and "ao_num_rows ao (ao_slice ao b mid (ao_num_rows ao b - mid)) < ao_num_rows ao b"
proof -
  have n: "ao_num_rows ao x = length (rows x)" for x using assms(1) by (simp add: slice_ok_def)
  have l: "rows (ao_slice ao b 0 mid) = take mid (rows b)"
    using assms(1) unfolding slice_ok_def mid_def by (simp add: n)
  have r: "rows (ao_slice ao b mid (ao_num_rows ao b - mid)) = drop mid (rows b)"
    using assms(1) unfolding slice_ok_def mid_def by (simp add: n)
  show "rows (ao_slice ao b 0 mid) @ rows (ao_slice ao b mid (ao_num_rows ao b - mid)) = rows b"
    unfolding l r by simp
  show "ao_num_rows ao (ao_slice ao b 0 mid) < ao_num_rows ao b"
    and "ao_num_rows ao (ao_slice ao b mid (ao_num_rows ao b - mid)) < ao_num_rows ao b"
    using assms(2) n [of "ao_slice ao b 0 mid"] n [of "ao_slice ao b mid (ao_num_rows ao b - mid)"] l r
    by (auto simp: n mid_def)
qed

lemma split_total:
  assumes "slice_ok ao rows"
  shows "ao_num_rows ao b < fuel \<Longrightarrow> split_and_encode_recursive fuel ao sg b max_len out \<noteq> None"
proof (induction fuel arbitrary: b out)
  case (Suc fuel)
  let ?mid = "ao_num_rows ao b div 2"
  let ?l = "ao_slice ao b 0 ?mid" and ?r = "ao_slice ao b ?mid (ao_num_rows ao b - ?mid)"
  show ?case
  proof (cases "1 < ao_num_rows ao b")
    case True
    have l: "split_and_encode_recursive fuel ao sg ?l max_len o' \<noteq> None" for o'
      using Suc.prems slice_halves(2) [OF assms True] by (intro Suc.IH) simp
    have r: "split_and_encode_recursive fuel ao sg ?r max_len o' \<noteq> None" for o'
      using Suc.prems slice_halves(3) [OF assms True] by (intro Suc.IH) simp
    from l [of out] r True show ?thesis by (auto simp: Let_def split: sum.splits option.splits)
  next
    case False
    then show ?thesis by (auto simp: Let_def split: sum.splits)
  qed
qed simp

lemma split_sound:
  assumes "slice_ok ao rows"
  shows "split_and_encode_recursive fuel ao sg b max_len out = Some (Inr fs) \<Longrightarrow>
    \<exists>new. fs = out @ new \<and> new \<noteq> [] \<and> list_all (frame_ok ao sg max_len) new \<and>
      concat (map (rows \<circ> pf_batch) new) = rows b"
proof (induction fuel arbitrary: b out fs)
  case (Suc fuel)
  let ?mid = "ao_num_rows ao b div 2"
  let ?l = "ao_slice ao b 0 ?mid" and ?r = "ao_slice ao b ?mid (ao_num_rows ao b - ?mid)"
  obtain h bs where enc: "encode_frame ao sg 0 b [] = Inr (h, bs)"
    using Suc.prems by (auto split: sum.splits)
  show ?case
  proof (cases "fh_payload_len h \<le> max_len")
    case True
    then show ?thesis using Suc.prems enc by (auto simp: frame_ok_def)
  next
    case False
    then have many: "1 < ao_num_rows ao b" using Suc.prems enc by (auto simp: Let_def split: if_splits)
    with Suc.prems enc False obtain mids where
      l: "split_and_encode_recursive fuel ao sg ?l max_len out = Some (Inr mids)" and
      r: "split_and_encode_recursive fuel ao sg ?r max_len mids = Some (Inr fs)"
      by (auto simp: Let_def split: sum.splits option.splits)
    from Suc.IH [OF l] Suc.IH [OF r] obtain n1 n2 where
      "mids = out @ n1" "n1 \<noteq> []" "list_all (frame_ok ao sg max_len) n1"
      "concat (map (rows \<circ> pf_batch) n1) = rows ?l"
      "fs = mids @ n2" "list_all (frame_ok ao sg max_len) n2"
      "concat (map (rows \<circ> pf_batch) n2) = rows ?r" by blast
    then show ?thesis
      using slice_halves(1) [OF assms many] by (intro exI [of _ "n1 @ n2"]) (simp add: comp_def)
  qed
qed simp

text \<open>Splitting fails only on a range of the rows that cannot be encoded, or is one row too large.\<close>

definition unencodable ::
  "('b, 's) arrow_ops \<Rightarrow> ('b \<Rightarrow> 'r list) \<Rightarrow> SignalKind \<Rightarrow> nat \<Rightarrow> 'b \<Rightarrow> PipelineError \<Rightarrow> bool" where
  "unencodable ao rows sg max_len b e \<longleftrightarrow>
     (\<exists>x i n. rows x = take n (drop i (rows b)) \<and>
        (encode_frame ao sg 0 x [] = Inl e \<or>
         length (rows x) \<le> 1 \<and> (\<exists>h bs. encode_frame ao sg 0 x [] = Inr (h, bs) \<and> max_len < fh_payload_len h)))"

lemma unencodable_part:
  assumes "unencodable ao rows sg max_len y e" and "rows y = take m (drop j (rows b))"
  shows "unencodable ao rows sg max_len b e"
proof -
  from assms(1) obtain x i n where x: "rows x = take n (drop i (rows y))"
    and "encode_frame ao sg 0 x [] = Inl e \<or> length (rows x) \<le> 1 \<and>
      (\<exists>h bs. encode_frame ao sg 0 x [] = Inr (h, bs) \<and> max_len < fh_payload_len h)"
    unfolding unencodable_def by blast
  moreover have "rows x = take (min n (m - i)) (drop (i + j) (rows b))"
    unfolding x assms(2) by (simp add: drop_take)
  ultimately show ?thesis unfolding unencodable_def by blast
qed

lemma split_error:
  assumes "slice_ok ao rows"
  shows "split_and_encode_recursive fuel ao sg b max_len out = Some (Inl e) \<Longrightarrow> unencodable ao rows sg max_len b e"
proof (induction fuel arbitrary: b out)
  case (Suc fuel)
  let ?mid = "ao_num_rows ao b div 2"
  let ?l = "ao_slice ao b 0 ?mid" and ?r = "ao_slice ao b ?mid (ao_num_rows ao b - ?mid)"
  have n: "ao_num_rows ao b = length (rows b)" using assms by (simp add: slice_ok_def)
  have self: "rows b = take (length (rows b)) (drop 0 (rows b))" by simp
  show ?case
  proof (cases "encode_frame ao sg 0 b []")
    case (Inl e')
    then show ?thesis using Suc.prems self unfolding unencodable_def by fastforce
  next
    case (Inr hb)
    obtain h bs where hb: "hb = (h, bs)" by (cases hb)
    have big: "max_len < fh_payload_len h"
      using Suc.prems Inr hb by (auto split: if_splits)
    show ?thesis
    proof (cases "1 < ao_num_rows ao b")
      case True
      then consider (l) "split_and_encode_recursive fuel ao sg ?l max_len out = Some (Inl e)"
        | (r) mids where "split_and_encode_recursive fuel ao sg ?r max_len mids = Some (Inl e)"
        using Suc.prems Inr hb big by (auto simp: Let_def split: sum.splits option.splits)
      then show ?thesis
      proof cases
        case l
        have "rows ?l = take ?mid (drop 0 (rows b))" using assms n by (simp add: slice_ok_def)
        with Suc.IH [OF l] show ?thesis by (rule unencodable_part)
      next
        case r
        have "rows ?r = take (ao_num_rows ao b - ?mid) (drop ?mid (rows b))"
          using assms n by (simp add: slice_ok_def)
        with Suc.IH [OF r] show ?thesis by (rule unencodable_part)
      qed
    next
      case False
      then show ?thesis using Inr hb big n self unfolding unencodable_def by fastforce
    qed
  qed
qed simp

section \<open>Properties\<close>

text \<open>An instance of the third-party operations for the witnesses: a batch is a list of one-byte rows.\<close>

definition byte_ops :: "(byte list, unit) arrow_ops" where
  "byte_ops = \<lparr>ao_num_rows = length, ao_schema = (\<lambda>_. ()), ao_memory_size = length,
     ao_slice = (\<lambda>b i n. take n (drop i b)), ao_concat = (\<lambda>_ bs. Inr (concat bs)),
     ao_ipc_encode = Inr, ao_ipc_decode = (\<lambda>p. Inr (Some p)),
     ao_file_encode = (\<lambda>_ bs. Inr (concat bs)),
     ao_crc32 = (\<lambda>bs. sum_list (map unat bs) mod 4294967296)\<rparr>"

lemma byte_ops_ok: "crc_ok byte_ops" "ipc_ok byte_ops b" "slice_ok byte_ops id"
  by (simp_all add: byte_ops_def crc_ok_def ipc_ok_def slice_ok_def u32_max_def less_Suc_eq_le [symmetric])

lemma byte_ops_encode:
  "length b \<le> 1000 \<Longrightarrow> encode_frame byte_ops sg sq b [] =
     Inr (header_of byte_ops sg sq (length b) b, frame_of byte_ops sg sq (length b) b)"
  by (simp add: encode_frame_Inr) (simp add: byte_ops_def u32_max_def)

text \<open>
  C16. Encoding a batch as a frame and decoding the bytes gives back the header and the batch, for
  every sequence number, whatever follows the frame and however the reads deliver the bytes.
\<close>

theorem frame_roundtrip:
  assumes "crc_ok ao" and "ipc_ok ao b"
    and "encode_frame ao sg sq b [] = Inr (h, bs)" and "sq \<le> u64_max"
    and "fh_payload_len h \<le> max_len" and "benign script"
  shows "decode_frame ao (bs @ rest, script) max_len = Inr (Some (h, b))"
proof -
  obtain p where p: "ao_ipc_encode ao b = Inr p" "ao_num_rows ao b \<le> u32_max" "length p \<le> u32_max"
    "h = header_of ao sg sq (ao_num_rows ao b) p" "bs = frame_of ao sg sq (ao_num_rows ao b) p"
    using assms(3) by (auto simp: encode_frame_Inr)
  moreover have "ao_ipc_decode ao p = Inr (Some b)" using assms(2) p(1) by (simp add: ipc_ok_def)
  ultimately show ?thesis
    using assms(1,4,5) decode_bytes_frame [of ao sq "ao_num_rows ao b" p max_len sg rest]
    by (simp add: decode_frame_bytes [OF assms(6)])
qed

theorem frame_roundtrip_witness:
  "\<exists>h bs. encode_frame byte_ops Metrics 7 [1, 2, 3] [] = Inr (h, bs) \<and> fh_payload_len h = 3 \<and>
     decode_frame byte_ops (bs @ [255], [Chunk 4, Interrupted]) 100 = Inr (Some (h, [1, 2, 3]))"
proof -
  obtain h bs where e: "encode_frame byte_ops Metrics 7 [1, 2, 3] [] = Inr (h, bs)" and l: "fh_payload_len h = 3"
    by (simp add: byte_ops_encode)
  have "decode_frame byte_ops (bs @ [255], [Chunk 4, Interrupted]) 100 = Inr (Some (h, [1, 2, 3]))"
    by (rule frame_roundtrip [OF byte_ops_ok(1) byte_ops_ok(2) e]) (simp_all add: l u64_max_def)
  with e l show ?thesis by blast
qed

text \<open>
  C17. A frame cut anywhere before its end (a torn write) is reported as a torn frame, never as a
  batch and never as a corrupt one.
\<close>

theorem torn_frame_detected:
  assumes "crc_ok ao" and "encode_frame ao sg sq b [] = Inr (h, bs)" and "sq \<le> u64_max"
    and "fh_payload_len h \<le> max_len" and "benign script" and "0 < k" and "k < length bs"
  shows "decode_frame ao (take k bs, script) max_len = Inl TornFrame"
proof -
  obtain p where "ao_num_rows ao b \<le> u32_max" "length p \<le> u32_max"
    "h = header_of ao sg sq (ao_num_rows ao b) p" "bs = frame_of ao sg sq (ao_num_rows ao b) p"
    using assms(2) by (auto simp: encode_frame_Inr)
  then show ?thesis
    using assms decode_bytes_torn [of ao sq "ao_num_rows ao b" p max_len k sg]
    by (simp add: decode_frame_bytes [OF assms(5)])
qed

theorem torn_frame_detected_witness:
  "\<exists>h bs. encode_frame byte_ops Logs 1 [9, 9] [] = Inr (h, bs) \<and> length bs = 30 \<and>
     decode_frame byte_ops (take 29 bs, []) 100 = Inl TornFrame"
proof -
  obtain h bs where e: "encode_frame byte_ops Logs 1 [9, 9] [] = Inr (h, bs)" and l: "fh_payload_len h = 2"
    and n: "length bs = 30"
    by (simp add: byte_ops_encode)
  have "decode_frame byte_ops (take 29 bs, []) 100 = Inl TornFrame"
    by (rule torn_frame_detected [OF byte_ops_ok(1) e]) (simp_all add: l n u64_max_def)
  with e n show ?thesis by blast
qed

text \<open>
  C18. The decoder accepts a frame only if the magic, the version, the signal tag and the length bound
  are right, the recorded checksum is the checksum of header bytes 4 to 24 and the payload, and
  Arrow decodes the payload to the batch returned.
\<close>

theorem decode_frame_sound:
  assumes "benign script" and "decode_frame ao (bs, script) max_len = Inr (Some (h, b))"
  shows "28 + fh_payload_len h \<le> length bs \<and> fh_payload_len h \<le> max_len \<and>
    take 4 bs = FRAME_MAGIC \<and> bs ! 4 = FRAME_VERSION \<and> bs ! 5 = as_u8 (fh_signal h) \<and>
    fh_seq_id h = le_nat (take 8 (drop 8 bs)) \<and> fh_row_count h = le_nat (take 4 (drop 16 bs)) \<and>
    fh_crc32 h = le_nat (take 4 (drop 24 bs)) \<and>
    ao_crc32 ao (take 20 (drop 4 bs) @ take (fh_payload_len h) (drop 28 bs)) = fh_crc32 h \<and>
    ao_ipc_decode ao (take (fh_payload_len h) (drop 28 bs)) = Inr (Some b)"
proof -
  have d: "decode_bytes ao bs max_len = Inr (Some (h, b))"
    using assms by (simp add: decode_frame_bytes)
  then have len: "28 \<le> length bs" by (auto simp: decode_bytes_def FRAME_HEADER_LEN_def split: if_splits)
  from d len obtain h' where
    ph: "parse_header (take 28 bs) max_len = Inr h'" and full: "28 + fh_payload_len h' \<le> length bs"
    and cp: "check_payload ao (take 28 bs) h' (take (fh_payload_len h') (drop 28 bs)) = Inr (Some (h, b))"
    by (auto simp: decode_bytes_def FRAME_HEADER_LEN_def try_bind_Inr split: if_splits)
  have h: "h' = h"
    and "ao_crc32 ao (take 20 (drop 4 bs) @ take (fh_payload_len h) (drop 28 bs)) = fh_crc32 h"
    and "ao_ipc_decode ao (take (fh_payload_len h) (drop 28 bs)) = Inr (Some b)"
    using cp by (auto simp: check_payload_def Let_def drop_take min_def split: if_splits sum.splits option.splits)
  moreover have "fh_payload_len h \<le> max_len \<and>
    take 4 bs = FRAME_MAGIC \<and> bs ! 4 = FRAME_VERSION \<and> bs ! 5 = as_u8 (fh_signal h) \<and>
    fh_seq_id h = le_nat (take 8 (drop 8 bs)) \<and> fh_row_count h = le_nat (take 4 (drop 16 bs)) \<and>
    fh_crc32 h = le_nat (take 4 (drop 24 bs))"
    using ph len unfolding h
    by (auto simp: parse_header_def Let_def drop_take min_def from_u8_Some_iff split: if_splits option.splits)
  ultimately show ?thesis using full by simp
qed

theorem decode_frame_sound_witness:
  "\<exists>h bs. decode_frame byte_ops (bs, []) 10 = Inr (Some (h, [5])) \<and> bs ! 5 = as_u8 Traces \<and>
     ao_crc32 byte_ops (take 20 (drop 4 bs) @ take 1 (drop 28 bs)) = fh_crc32 h"
proof -
  define bs where "bs = frame_of byte_ops Traces 3 1 [5]"
  define h where "h = header_of byte_ops Traces 3 1 [5]"
  have "decode_bytes byte_ops (bs @ []) 10 = Inr (Some (h, [5]))"
    unfolding bs_def h_def using decode_bytes_frame [OF byte_ops_ok(1), of 3 1 "[5]" 10 Traces "[]"]
    by (simp add: u64_max_def u32_max_def byte_ops_def)
  then have d: "decode_frame byte_ops (bs, []) 10 = Inr (Some (h, [5]))"
    by (simp add: decode_frame_bytes)
  have "fh_payload_len h = 1" "fh_signal h = Traces" by (simp_all add: h_def)
  with d decode_frame_sound [OF _ d] show ?thesis by (intro exI [of _ h] exI [of _ bs]) simp
qed

text \<open>
  C19. Patching a sequence number into an encoded frame gives exactly the frame and header that
  encoding the batch under that sequence number would have given.
\<close>

theorem patch_is_reencode:
  assumes "encode_frame ao sg sq b [] = Inr (h, bs)"
  shows "\<exists>bs' h'. patch_frame_seq_id ao bs h sq' = Inr (bs', h') \<and>
    encode_frame ao sg sq' b [] = Inr (h', bs')"
proof -
  obtain p where p: "ao_ipc_encode ao b = Inr p" "ao_num_rows ao b \<le> u32_max" "length p \<le> u32_max"
    "h = header_of ao sg sq (ao_num_rows ao b) p" "bs = frame_of ao sg sq (ao_num_rows ao b) p"
    using assms by (auto simp: encode_frame_Inr)
  then have "length p + 28 \<le> u64_max" by (simp add: u32_max_def u64_max_def)
  then show ?thesis using p by (auto simp: encode_frame_Inr patch_frame_of)
qed

theorem patch_is_reencode_witness:
  "\<exists>h bs bs' h'. encode_frame byte_ops Logs 0 [4] [] = Inr (h, bs) \<and>
     patch_frame_seq_id byte_ops bs h 12 = Inr (bs', h') \<and> encode_frame byte_ops Logs 12 [4] [] = Inr (h', bs')"
proof -
  obtain h bs where e: "encode_frame byte_ops Logs 0 [4] [] = Inr (h, bs)"
    by (simp add: byte_ops_encode)
  from e patch_is_reencode [OF e, of 12] show ?thesis by blast
qed

text \<open>
  C20. Splitting a batch for disk always ends. It fails only on a range of the rows
  that Arrow cannot encode or a single row above the bound. Otherwise it returns at least one frame; every
  frame is the encoding of its own batch and fits the payload bound, and the batches of the
  frames, in order, hold exactly the rows of the input.
\<close>

theorem split_frames_correct:
  assumes "slice_ok ao rows"
  shows "\<exists>r. split_and_encode_frames_for_disk ao sg b max_len = Some r \<and>
    (case r of
       Inl e \<Rightarrow> unencodable ao rows sg max_len b e
     | Inr fs \<Rightarrow> fs \<noteq> [] \<and> list_all (frame_ok ao sg max_len) fs \<and> concat (map (rows \<circ> pf_batch) fs) = rows b)"
proof -
  obtain r where r: "split_and_encode_frames_for_disk ao sg b max_len = Some r"
    using split_total [OF assms, of b "ao_num_rows ao b + 1" sg max_len "[]"]
    by (auto simp: split_and_encode_frames_for_disk_def simp del: split_and_encode_recursive.simps)
  moreover have "fs \<noteq> [] \<and> list_all (frame_ok ao sg max_len) fs \<and> concat (map (rows \<circ> pf_batch) fs) = rows b"
    if "r = Inr fs" for fs
    using split_sound [OF assms, of "ao_num_rows ao b + 1" sg b max_len "[]" fs] r that
    by (auto simp: split_and_encode_frames_for_disk_def simp del: split_and_encode_recursive.simps)
  moreover have "unencodable ao rows sg max_len b e" if "r = Inl e" for e
    using split_error [OF assms, of "ao_num_rows ao b + 1" sg b max_len "[]" e] r that
    by (simp add: split_and_encode_frames_for_disk_def del: split_and_encode_recursive.simps)
  ultimately show ?thesis by (cases r) auto
qed

theorem split_frames_correct_witness:
  "\<exists>r. split_and_encode_frames_for_disk byte_ops Logs [1, 2, 3, 4, 5] 2 = Some r \<and>
    (case r of
       Inl e \<Rightarrow> unencodable byte_ops id Logs 2 [1, 2, 3, 4, 5] e
     | Inr fs \<Rightarrow> fs \<noteq> [] \<and> list_all (frame_ok byte_ops Logs 2) fs \<and>
                concat (map (id \<circ> pf_batch) fs) = [1, 2, 3, 4, 5])"
  using split_frames_correct [OF byte_ops_ok(3), of Logs "[1, 2, 3, 4, 5]" 2] by (simp only: id_apply)

end
