(* ===== verification/DiskWriter.thy ===== *)
theory DiskWriter
  imports Watermark Frame
begin

text \<open>
  The writer thread of the disk backend (\<open>crates/core/src/buffer/disk.rs\<close>, lines 417 to 477, 554 to
  588 and 1178 to 1440): appending frames to segment files, rolling and sealing segments, the
  group commit of a batch of commands, and reading a frame back.

  The thread owns its state, so a batch of commands is a function from state to state. System calls
  have their outcome as an argument (\<open>write_io\<close>, \<open>batch_io\<close>). A file has a cursor: \<open>write_all\<close>
  writes at the cursor and moves it, also when it fails half way.
\<close>

section \<open>State\<close>

record WrittenFrame =
  wf_segment_id :: nat
  wf_offset :: nat
  wf_len :: nat

record ActiveSegment =
  as_segment_id :: nat
  as_path :: string
  as_cursor :: nat
  as_bytes_written :: nat
  as_max_seq :: "SignalKind \<Rightarrow> nat"
  as_has_frames :: bool

record WriterState =
  ws_active :: "ActiveSegment option"
  ws_sealed :: "SealedSegmentMeta list"
  ws_next_segment_id :: nat
  ws_persisted :: DiskWatermark
  ws_staged :: DiskWatermark
  ws_files :: dir

text \<open>The outcome of the calls one append makes; \<open>wi_write = Some k\<close> fails after \<open>k\<close> bytes.\<close>

record write_io =
  wi_seal_before :: bool
  wi_open :: bool
  wi_write :: "nat option"
  wi_seal_after :: bool
  wi_rm :: "string \<Rightarrow> bool"

section \<open>Appending a frame\<close>

text \<open>The checks of \<open>write_encoded_frame\<close> and the patching of the sequence number.\<close>

definition check_frame ::
  "('b, 's) arrow_ops \<Rightarrow> nat \<Rightarrow> SignalKind \<Rightarrow> nat \<Rightarrow> nat \<Rightarrow> byte list \<Rightarrow> string + byte list" where
  "check_frame ao max_payload_len signal seq_id rows frame_bytes =
     (if length frame_bytes < FRAME_HEADER_LEN then Inl ''encoded OTLB frame shorter than 28-byte header''
      else let payload_len = length frame_bytes - FRAME_HEADER_LEN
      in if payload_len > u32_max then Inl ''frame payload length overflow''
      else if payload_len > max_payload_len then Inl ''OTLB frame payload_len exceeds max_payload_len''
      else let hdr_rows = le_nat (take 4 (drop 16 frame_bytes))
      in if hdr_rows \<noteq> rows then Inl ''OTLB frame header row_count does not match expected rows''
      else let hdr = \<lparr>fh_signal = signal, fh_seq_id = 0, fh_row_count = hdr_rows,
                      fh_payload_len = payload_len, fh_crc32 = 0\<rparr>
      in case patch_frame_seq_id ao frame_bytes hdr seq_id of
           Inl e \<Rightarrow> Inl ''cannot patch OTLB frame seq_id''
         | Inr (bytes, _) \<Rightarrow> if length bytes > u32_max then Inl ''frame length overflow'' else Inr bytes)"

text \<open>Taking the active segment, syncing it and sealing it.\<close>

definition seal_active ::
  "bool \<Rightarrow> (string \<Rightarrow> bool) \<Rightarrow> DiskWatermark \<Rightarrow> WriterState \<Rightarrow> (string + unit) \<times> WriterState" where
  "seal_active sync_ok rm_ok wm st =
     (case ws_active st of
        None \<Rightarrow> (Inr (), st)
      | Some seg \<Rightarrow>
          if \<not> sync_ok then (Inl ''failed to sync sealed segment'', st\<lparr>ws_active := None\<rparr>)
          else case gc_sealed_segments rm_ok
                      (ws_sealed st @ [\<lparr>sg_path = as_path seg, sg_max_seq = as_max_seq seg,
                                        sg_has_frames = as_has_frames seg\<rparr>]) wm (ws_files st) of
                 (sealed, files) \<Rightarrow>
                   (Inr (), st\<lparr>ws_active := None, ws_sealed := sealed, ws_files := files\<rparr>))"

definition needs_roll :: "nat \<Rightarrow> nat \<Rightarrow> WriterState \<Rightarrow> bool" where
  "needs_roll segment_size_bytes frame_len st \<longleftrightarrow>
     (case ws_active st of
        None \<Rightarrow> False
      | Some seg \<Rightarrow> as_bytes_written seg > 0 \<and>
                    sat_add (as_bytes_written seg) frame_len > segment_size_bytes)"

definition open_segment :: "bool \<Rightarrow> WriterState \<Rightarrow> (string + ActiveSegment) \<times> WriterState" where
  "open_segment open_ok st =
     (case ws_active st of
        Some seg \<Rightarrow> (Inr seg, st)
      | None \<Rightarrow>
          let num = ws_next_segment_id st;
              st1 = st\<lparr>ws_next_segment_id := sat_add num 1\<rparr>;
              path = segment_path num;
              seg = \<lparr>as_segment_id = num, as_path = path, as_cursor = 0, as_bytes_written = 0,
                     as_max_seq = (\<lambda>_. 0), as_has_frames = False\<rparr>
          in if \<not> open_ok then (Inl ''failed to create segment'', st1)
             else (Inr seg, st1\<lparr>ws_active := Some seg, ws_files := (ws_files st1)(path \<mapsto> [])\<rparr>))"

definition write_at :: "nat \<Rightarrow> byte list \<Rightarrow> byte list \<Rightarrow> byte list" where
  "write_at cursor bytes content = take cursor content @ bytes @ drop (cursor + length bytes) content"

definition file_write :: "ActiveSegment \<Rightarrow> byte list \<Rightarrow> dir \<Rightarrow> ActiveSegment \<times> dir" where
  "file_write seg bytes files =
     (seg\<lparr>as_cursor := as_cursor seg + length bytes\<rparr>,
      files(as_path seg \<mapsto> write_at (as_cursor seg) bytes
              (case files (as_path seg) of None \<Rightarrow> [] | Some c \<Rightarrow> c)))"

definition write_frame ::
  "nat option \<Rightarrow> SignalKind \<Rightarrow> nat \<Rightarrow> byte list \<Rightarrow> ActiveSegment \<Rightarrow> WriterState \<Rightarrow>
   (string + WrittenFrame) \<times> WriterState" where
  "write_frame outcome signal seq_id bytes seg st =
     (case outcome of
        Some k \<Rightarrow>
          (case file_write seg (take k bytes) (ws_files st) of (seg1, files) \<Rightarrow>
             (Inl ''failed to write to segment'', st\<lparr>ws_active := Some seg1, ws_files := files\<rparr>))
      | None \<Rightarrow>
          (case file_write seg bytes (ws_files st) of (seg1, files) \<Rightarrow>
             (Inr \<lparr>wf_segment_id = as_segment_id seg, wf_offset = as_bytes_written seg,
                   wf_len = length bytes\<rparr>,
              st\<lparr>ws_active := Some (seg1\<lparr>as_bytes_written := sat_add (as_bytes_written seg) (length bytes),
                                        as_max_seq := (as_max_seq seg)(signal := max (as_max_seq seg signal) seq_id),
                                        as_has_frames := True\<rparr>),
                 ws_files := files\<rparr>)))"

definition write_encoded_frame ::
  "('b, 's) arrow_ops \<Rightarrow> write_io \<Rightarrow> nat \<Rightarrow> nat \<Rightarrow> DiskWatermark \<Rightarrow> SignalKind \<Rightarrow> nat \<Rightarrow> nat \<Rightarrow>
   byte list \<Rightarrow> WriterState \<Rightarrow> (string + WrittenFrame) \<times> WriterState" where
  "write_encoded_frame ao io segment_size_bytes max_payload_len current_watermark signal seq_id rows frame_bytes st =
     (case check_frame ao max_payload_len signal seq_id rows frame_bytes of
        Inl e \<Rightarrow> (Inl e, st)
      | Inr bytes \<Rightarrow>
        (case (if needs_roll segment_size_bytes (length bytes) st
               then seal_active (wi_seal_before io) (wi_rm io) current_watermark st
               else (Inr (), st)) of
           (Inl e, st1) \<Rightarrow> (Inl e, st1)
         | (Inr _, st1) \<Rightarrow>
           (case open_segment (wi_open io) st1 of
              (Inl e, st2) \<Rightarrow> (Inl e, st2)
            | (Inr seg, st2) \<Rightarrow>
              (case write_frame (wi_write io) signal seq_id bytes seg st2 of
                 (Inl e, st3) \<Rightarrow> (Inl e, st3)
               | (Inr written, st3) \<Rightarrow>
                   if sat_add (as_bytes_written seg) (length bytes) \<ge> segment_size_bytes
                   then (case seal_active (wi_seal_after io) (wi_rm io) current_watermark st3 of
                           (Inl e, st4) \<Rightarrow> (Inl e, st4)
                         | (Inr _, st4) \<Rightarrow> (Inr written, st4))
                   else (Inr written, st3)))))"

section \<open>Group commit\<close>

text \<open>A command carries \<open>'r\<close>, the reservation and reply channel of an append.\<close>

datatype 'r WriterCommand =
    AppendEncoded SignalKind nat nat "byte list" 'r
  | UpdateWatermark DiskWatermark bool
  | FlushWatermarkAsync DiskWatermark
  | FlushWatermarkSync DiskWatermark
  | Shutdown

record 'r batch_acc =
  ba_state :: WriterState
  ba_append_replies :: "('r \<times> (string + WrittenFrame)) list"
  ba_wm_oneshot_replies :: nat
  ba_wm_blocking_replies :: nat
  ba_watermark_dirty :: bool
  ba_force_sync_segment :: bool
  ba_should_shutdown :: bool

record writer_config =
  wc_segment_size_bytes :: nat
  wc_max_payload_len :: nat
  wc_sync_on_write :: bool

definition stage_watermark :: "DiskWatermark \<Rightarrow> 'r batch_acc \<Rightarrow> 'r batch_acc" where
  "stage_watermark wm acc =
     acc\<lparr>ba_state := (ba_state acc)\<lparr>ws_staged := fst (merge_monotonic (ws_staged (ba_state acc)) wm)\<rparr>\<rparr>"

fun process_command ::
  "('b, 's) arrow_ops \<Rightarrow> writer_config \<Rightarrow> 'r WriterCommand \<times> write_io \<Rightarrow> 'r batch_acc \<Rightarrow> 'r batch_acc" where
  "process_command ao cfg (AppendEncoded signal seq_id rows frame_bytes reply, io) acc =
     (case write_encoded_frame ao io (wc_segment_size_bytes cfg) (wc_max_payload_len cfg)
             (ws_persisted (ba_state acc)) signal seq_id rows frame_bytes (ba_state acc) of
        (res, st) \<Rightarrow> acc\<lparr>ba_state := st, ba_append_replies := ba_append_replies acc @ [(reply, res)]\<rparr>)"
| "process_command ao cfg (UpdateWatermark wm has_reply, io) acc =
     (let acc1 = stage_watermark wm acc;
          acc2 = (if snd (merge_monotonic (ws_staged (ba_state acc)) wm)
                  then acc1\<lparr>ba_watermark_dirty := True\<rparr> else acc1)
      in if has_reply then acc2\<lparr>ba_wm_oneshot_replies := ba_wm_oneshot_replies acc2 + 1\<rparr> else acc2)"
| "process_command ao cfg (FlushWatermarkAsync wm, io) acc =
     (stage_watermark wm acc)\<lparr>ba_watermark_dirty := True, ba_force_sync_segment := True,
        ba_wm_oneshot_replies := ba_wm_oneshot_replies acc + 1\<rparr>"
| "process_command ao cfg (FlushWatermarkSync wm, io) acc =
     (stage_watermark wm acc)\<lparr>ba_watermark_dirty := True, ba_force_sync_segment := True,
        ba_wm_blocking_replies := ba_wm_blocking_replies acc + 1\<rparr>"
| "process_command ao cfg (Shutdown, io) acc = acc\<lparr>ba_should_shutdown := True\<rparr>"

record batch_io =
  bi_sync :: bool
  bi_watermark :: replace_fault
  bi_rm :: "string \<Rightarrow> bool"

text \<open>
  One round of \<open>writer_loop\<close>: the state, the replies of the appends (each also finishes its
  reservation), the replies of the watermark commands and whether to stop.
\<close>

definition writer_batch ::
  "('b, 's) arrow_ops \<Rightarrow> (DiskWatermark \<Rightarrow> byte list) \<Rightarrow> writer_config \<Rightarrow> batch_io \<Rightarrow>
   ('r WriterCommand \<times> write_io) list \<Rightarrow> WriterState \<Rightarrow>
   WriterState \<times> ('r \<times> (string + WrittenFrame)) list \<times> (string + unit) list \<times> bool" where
  "writer_batch ao to_json cfg io cmds st =
     (let acc = fold (process_command ao cfg) cmds
                  \<lparr>ba_state = st, ba_append_replies = [], ba_wm_oneshot_replies = 0,
                   ba_wm_blocking_replies = 0, ba_watermark_dirty = False,
                   ba_force_sync_segment = False, ba_should_shutdown = False\<rparr>;
          st1 = ba_state acc;
          sync_err = (if ((ba_append_replies acc \<noteq> [] \<and> wc_sync_on_write cfg) \<or> ba_force_sync_segment acc)
                         \<and> ws_active st1 \<noteq> None \<and> \<not> bi_sync io
                      then Some ''failed to sync active segment'' else None);
          append_replies = map (\<lambda>(reply, res). (reply, case sync_err of Some e \<Rightarrow> Inl e | None \<Rightarrow> res))
                             (ba_append_replies acc);
          stop = ba_should_shutdown acc
      in if ba_watermark_dirty acc
         then (case (case sync_err of
                       Some e \<Rightarrow> (Inl e, [])
                     | None \<Rightarrow> write_watermark_atomic to_json (bi_watermark io) (ws_staged st1) (ws_files st1)) of
                 (wm_res, ds) \<Rightarrow>
                   let files = after (ws_files st1) ds;
                       st2 = (case wm_res of
                                Inr _ \<Rightarrow>
                                  (case gc_sealed_segments (bi_rm io) (ws_sealed st1) (ws_staged st1) files of
                                     (sealed, files') \<Rightarrow>
                                       st1\<lparr>ws_persisted := ws_staged st1, ws_sealed := sealed, ws_files := files'\<rparr>)
                              | Inl _ \<Rightarrow> st1\<lparr>ws_staged := ws_persisted st1, ws_files := files\<rparr>)
                   in (st2, append_replies,
                       replicate (ba_wm_oneshot_replies acc + ba_wm_blocking_replies acc) wm_res, stop))
         else (st1, append_replies, replicate (ba_wm_oneshot_replies acc) (Inr ()), stop))"

text \<open>
  \<open>writer_loop\<close> on the rounds the channel delivers: a round is what \<open>recv\<close> and up to 63
  \<open>try_recv\<close> calls return. The loop ends at a shutdown command or when the channel closes.
\<close>

fun writer_loop ::
  "('b, 's) arrow_ops \<Rightarrow> (DiskWatermark \<Rightarrow> byte list) \<Rightarrow> writer_config \<Rightarrow>
   (batch_io \<times> ('r WriterCommand \<times> write_io) list) list \<Rightarrow> WriterState \<Rightarrow>
   WriterState \<times> ('r \<times> (string + WrittenFrame)) list" where
  "writer_loop ao to_json cfg [] st = (st\<lparr>ws_active := None\<rparr>, [])"
| "writer_loop ao to_json cfg ((io, cmds) # rounds) st =
     (case writer_batch ao to_json cfg io cmds st of
        (st1, replies, _, stop) \<Rightarrow>
          if stop then (st1\<lparr>ws_active := None\<rparr>, replies)
          else (case writer_loop ao to_json cfg rounds st1 of (st2, rest) \<Rightarrow> (st2, replies @ rest)))"

section \<open>Reading a frame back\<close>

definition read_frame_at ::
  "('b, 's) arrow_ops \<Rightarrow> bool \<Rightarrow> read_event list \<Rightarrow> dir \<Rightarrow> nat \<Rightarrow> nat \<Rightarrow> nat \<Rightarrow> nat \<Rightarrow> 'b result" where
  "read_frame_at ao seek_ok script files segment_id offset len max_payload_len =
     (case files (segment_path segment_id) of
        None \<Rightarrow> Inl (Storage ''failed to open segment for lease prepare'')
      | Some content \<Rightarrow>
          if \<not> seek_ok then Inl (Storage ''failed to seek segment'')
          else let limited = take len (drop offset content);
                   effective = max max_payload_len (len - FRAME_HEADER_LEN)
               in case decode_frame ao (limited, script) effective of
                    Inr (Some (_, batch)) \<Rightarrow> Inr batch
                  | Inr None \<Rightarrow> Inl (Storage ''unexpected EOF reading frame'')
                  | Inl e \<Rightarrow> Inl (Storage ''failed to decode frame''))"

section \<open>Invariant\<close>

text \<open>
  A frame whose append was reported as written: where it is and what its bytes are. The invariant
  says that every such frame is on disk, at the place reported, unless the persisted watermark
  covers it, and that the writer's bookkeeping is right about which frames a segment holds.
\<close>

record StoredFrame =
  sf_signal :: SignalKind
  sf_seq :: nat
  sf_segment :: nat
  sf_offset :: nat
  sf_bytes :: "byte list"

definition frame_at :: "dir \<Rightarrow> StoredFrame \<Rightarrow> bool" where
  "frame_at files f \<longleftrightarrow>
     (\<exists>c. files (segment_path (sf_segment f)) = Some c \<and> sf_offset f + length (sf_bytes f) \<le> length c \<and>
          take (length (sf_bytes f)) (drop (sf_offset f) c) = sf_bytes f)"

definition covers :: "(SignalKind \<Rightarrow> nat) \<Rightarrow> nat \<Rightarrow> StoredFrame set \<Rightarrow> bool" where
  "covers max_seq seg W \<longleftrightarrow> (\<forall>f \<in> W. sf_segment f = seg \<longrightarrow> sf_seq f \<le> max_seq (sf_signal f))"

definition active_ok :: "WriterState \<Rightarrow> StoredFrame set \<Rightarrow> ActiveSegment \<Rightarrow> bool" where
  "active_ok st W a \<longleftrightarrow>
     as_segment_id a < ws_next_segment_id st \<and> as_path a = segment_path (as_segment_id a) \<and>
     (\<exists>c. ws_files st (as_path a) = Some c \<and> length c = as_bytes_written a) \<and>
     as_cursor a = as_bytes_written a \<and> covers (as_max_seq a) (as_segment_id a) W"

definition sealed_ok :: "WriterState \<Rightarrow> StoredFrame set \<Rightarrow> SealedSegmentMeta \<Rightarrow> bool" where
  "sealed_ok st W m \<longleftrightarrow>
     (\<exists>n < ws_next_segment_id st. sg_path m = segment_path n \<and>
        (\<forall>a. ws_active st = Some a \<longrightarrow> as_segment_id a \<noteq> n) \<and> covers (sg_max_seq m) n W)"

definition writer_inv :: "WriterState \<Rightarrow> StoredFrame set \<Rightarrow> bool" where
  "writer_inv st W \<longleftrightarrow>
     ws_next_segment_id st \<le> u64_max \<and>
     (\<forall>s. for_signal (ws_persisted st) s \<le> for_signal (ws_staged st) s) \<and>
     (\<forall>f \<in> W. sf_segment f < ws_next_segment_id st \<and>
        (sf_seq f \<le> for_signal (ws_persisted st) (sf_signal f) \<or> frame_at (ws_files st) f)) \<and>
     (\<forall>a. ws_active st = Some a \<longrightarrow> active_ok st W a) \<and>
     (\<forall>m \<in> set (ws_sealed st). sealed_ok st W m)"

lemma segment_path_inj:
  "a \<le> u64_max \<Longrightarrow> b \<le> u64_max \<Longrightarrow> segment_path a = segment_path b \<longleftrightarrow> a = b"
  by (simp add: segment_path_def segment_file_name_inj)

lemma writer_invI:
  assumes "ws_next_segment_id st \<le> u64_max"
    and "\<And>s. for_signal (ws_persisted st) s \<le> for_signal (ws_staged st) s"
    and "\<And>f. f \<in> W \<Longrightarrow> sf_segment f < ws_next_segment_id st"
    and "\<And>f. f \<in> W \<Longrightarrow> for_signal (ws_persisted st) (sf_signal f) < sf_seq f \<Longrightarrow> frame_at (ws_files st) f"
    and "\<And>a. ws_active st = Some a \<Longrightarrow> active_ok st W a"
    and "\<And>m. m \<in> set (ws_sealed st) \<Longrightarrow> sealed_ok st W m"
  shows "writer_inv st W"
  using assms unfolding writer_inv_def by (meson not_le_imp_less)

lemma writer_invD:
  assumes "writer_inv st W"
  shows "ws_next_segment_id st \<le> u64_max"
    and "\<And>s. for_signal (ws_persisted st) s \<le> for_signal (ws_staged st) s"
    and "\<And>f. f \<in> W \<Longrightarrow> sf_segment f < ws_next_segment_id st"
    and "\<And>f. f \<in> W \<Longrightarrow> for_signal (ws_persisted st) (sf_signal f) < sf_seq f \<Longrightarrow> frame_at (ws_files st) f"
    and "\<And>a. ws_active st = Some a \<Longrightarrow> active_ok st W a"
    and "\<And>m. m \<in> set (ws_sealed st) \<Longrightarrow> sealed_ok st W m"
  using assms unfolding writer_inv_def by (meson linorder_not_less)+

text \<open>Removing fully acknowledged segments removes no frame above the watermark.\<close>

lemma gc_inv:
  assumes inv: "writer_inv st W" and wm: "\<And>s. for_signal wm s \<le> for_signal (ws_persisted st) s"
    and gc: "gc_sealed_segments rm (ws_sealed st) wm (ws_files st) = (sealed, files)"
  shows "writer_inv (st\<lparr>ws_sealed := sealed, ws_files := files\<rparr>) W"
proof -
  note D = writer_invD [OF inv]
  let ?st = "st\<lparr>ws_sealed := sealed, ws_files := files\<rparr>"
  have sealed: "sealed = filter (\<lambda>m. \<not> is_fully_acked m wm) (ws_sealed st)"
    and files: "files = snd (gc_sealed_segments rm (ws_sealed st) wm (ws_files st))"
    using gc by (auto simp: gc_sealed_segments_def)
  have keep: "files (segment_path n) = ws_files st (segment_path n)"
    if n: "n < ws_next_segment_id st"
      and live: "\<And>m n'. m \<in> set (ws_sealed st) \<Longrightarrow> is_fully_acked m wm \<Longrightarrow> sg_path m = segment_path n' \<Longrightarrow>
        n' < ws_next_segment_id st \<Longrightarrow> covers (sg_max_seq m) n' W \<Longrightarrow>
        (\<forall>a. ws_active st = Some a \<longrightarrow> as_segment_id a \<noteq> n') \<Longrightarrow> n' \<noteq> n" for n
    unfolding files
  proof (rule gc_keeps_file)
    fix m assume m: "m \<in> set (ws_sealed st)" "is_fully_acked m wm"
    then obtain n' where n': "n' < ws_next_segment_id st" "sg_path m = segment_path n'"
      "\<forall>a. ws_active st = Some a \<longrightarrow> as_segment_id a \<noteq> n'" "covers (sg_max_seq m) n' W"
      using D(6) unfolding sealed_ok_def by blast
    then have "n' \<noteq> n" using live [OF m] by blast
    then show "sg_path m \<noteq> segment_path n" using n' n D(1) segment_path_inj [of n' n] by simp
  qed
  show ?thesis
  proof (rule writer_invI)
    fix f assume f: "f \<in> W" and "for_signal (ws_persisted ?st) (sf_signal f) < sf_seq f"
    then have above: "for_signal (ws_persisted st) (sf_signal f) < sf_seq f" by simp
    have "files (segment_path (sf_segment f)) = ws_files st (segment_path (sf_segment f))"
    proof (rule keep [OF D(3) [OF f]])
      fix m n' assume "is_fully_acked m wm" and cov: "covers (sg_max_seq m) n' W"
      then have "sg_max_seq m (sf_signal f) \<le> for_signal wm (sf_signal f)"
        by (simp add: is_fully_acked_iff)
      then have "sg_max_seq m (sf_signal f) < sf_seq f" using wm [of "sf_signal f"] above by simp
      moreover have "n' = sf_segment f \<Longrightarrow> sf_seq f \<le> sg_max_seq m (sf_signal f)"
        using cov f by (simp add: covers_def)
      ultimately show "n' \<noteq> sf_segment f" by (metis leD)
    qed
    then show "frame_at (ws_files ?st) f" using D(4) [OF f above] by (simp add: frame_at_def)
  next
    fix a assume a: "ws_active ?st = Some a"
    then have ok: "active_ok st W a" using D(5) by simp
    have "files (segment_path (as_segment_id a)) = ws_files st (segment_path (as_segment_id a))"
      by (rule keep) (use ok a in \<open>auto simp: active_ok_def\<close>)
    then show "active_ok ?st W a" using ok by (auto simp: active_ok_def)
  next
    fix m assume "m \<in> set (ws_sealed ?st)"
    then have "m \<in> set (ws_sealed st)" by (simp add: sealed)
    then show "sealed_ok ?st W m" using D(6) by (simp add: sealed_ok_def)
  qed (use D in simp_all)
qed

lemma seal_active_inv:
  assumes inv: "writer_inv st W" and "seal_active sync_ok rm (ws_persisted st) st = (res, st')"
  shows "writer_inv st' W" and "ws_persisted st' = ws_persisted st" and "ws_active st' = None"
    and "ws_next_segment_id st' = ws_next_segment_id st" and "ws_staged st' = ws_staged st"
proof -
  note D = writer_invD [OF inv]
  let ?goal = "writer_inv st' W \<and> ws_persisted st' = ws_persisted st \<and> ws_active st' = None \<and>
    ws_next_segment_id st' = ws_next_segment_id st \<and> ws_staged st' = ws_staged st"
  have ?goal
  proof (cases "ws_active st")
    case None
    then show ?thesis using assms by (simp add: seal_active_def)
  next
    case (Some a)
    have off: "sealed_ok (st\<lparr>ws_active := None, ws_sealed := x\<rparr>) W m" if "m \<in> set (ws_sealed st)" for m x
      using D(6) [OF that] by (auto simp: sealed_ok_def)
    have drop: "writer_inv (st\<lparr>ws_active := None\<rparr>) W"
      using off [of _ "ws_sealed st"] D by (intro writer_invI) simp_all
    show ?thesis
    proof (cases sync_ok)
      case False
      then show ?thesis using assms(2) Some drop by (auto simp: seal_active_def)
    next
      case True
      let ?m = "\<lparr>sg_path = as_path a, sg_max_seq = as_max_seq a, sg_has_frames = as_has_frames a\<rparr>"
      let ?st = "st\<lparr>ws_active := None, ws_sealed := ws_sealed st @ [?m]\<rparr>"
      have "sealed_ok ?st W ?m"
        using D(5) [OF Some] by (auto simp: sealed_ok_def active_ok_def)
      then have inv1: "writer_inv ?st W"
        using off [of _ "ws_sealed st @ [?m]"] D by (intro writer_invI) auto
      obtain sealed files where gc: "gc_sealed_segments rm (ws_sealed st @ [?m]) (ws_persisted st) (ws_files st)
          = (sealed, files)" by fastforce
      have "writer_inv (?st\<lparr>ws_sealed := sealed, ws_files := files\<rparr>) W"
        by (rule gc_inv [OF inv1]) (use gc in simp_all)
      then show ?thesis using assms(2) Some True gc by (auto simp: seal_active_def)
    qed
  qed
  then show "writer_inv st' W" and "ws_persisted st' = ws_persisted st" and "ws_active st' = None"
    and "ws_next_segment_id st' = ws_next_segment_id st" and "ws_staged st' = ws_staged st" by blast+
qed

lemma open_segment_inv:
  assumes inv: "writer_inv st W" and room: "ws_next_segment_id st < u64_max"
    and op: "open_segment open_ok st = (res, st')"
  shows "writer_inv st' W" and "ws_persisted st' = ws_persisted st"
    and "ws_next_segment_id st' \<le> Suc (ws_next_segment_id st)" and "ws_staged st' = ws_staged st"
    and "\<And>seg. res = Inr seg \<Longrightarrow> ws_active st' = Some seg"
proof -
  note D = writer_invD [OF inv]
  let ?n = "ws_next_segment_id st"
  have nx: "sat_add ?n 1 = Suc ?n" using room by (simp add: sat_simps)
  let ?goal = "writer_inv st' W \<and> ws_persisted st' = ws_persisted st \<and> ws_staged st' = ws_staged st \<and>
    ws_next_segment_id st' \<le> Suc ?n \<and> (\<forall>seg. res = Inr seg \<longrightarrow> ws_active st' = Some seg)"
  have ?goal
  proof (cases "ws_active st")
    case (Some seg)
    then show ?thesis using op inv by (auto simp: open_segment_def)
  next
    case None
    let ?seg = "\<lparr>as_segment_id = ?n, as_path = segment_path ?n, as_cursor = 0, as_bytes_written = 0,
                 as_max_seq = (\<lambda>_. 0), as_has_frames = False\<rparr>"
    let ?st1 = "st\<lparr>ws_next_segment_id := Suc ?n\<rparr>"
    let ?st2 = "?st1\<lparr>ws_active := Some ?seg, ws_files := (ws_files st)(segment_path ?n \<mapsto> [])\<rparr>"
    have sl: "\<exists>k < ?n. sg_path m = segment_path k \<and> covers (sg_max_seq m) k W" if "m \<in> set (ws_sealed st)" for m
      using D(6) [OF that] by (auto simp: sealed_ok_def)
    have lt: "f \<in> W \<Longrightarrow> sf_segment f < Suc ?n" for f using D(3) less_SucI by blast
    have inv1: "writer_inv ?st1 W"
    proof (rule writer_invI)
      show "sealed_ok ?st1 W m" if "m \<in> set (ws_sealed ?st1)" for m
        using sl [of m] that None by (auto simp: sealed_ok_def intro: less_SucI)
    qed (use D lt room None in simp_all)
    have other: "segment_path (sf_segment f) \<noteq> segment_path ?n" if "f \<in> W" for f
      using D(3) [OF that] D(1) segment_path_inj [of "sf_segment f" ?n] by simp
    have inv2: "writer_inv ?st2 W"
    proof (rule writer_invI)
      show "frame_at (ws_files ?st2) f"
        if "f \<in> W" "for_signal (ws_persisted ?st2) (sf_signal f) < sf_seq f" for f
        using that D(4) [OF that(1)] other [OF that(1)] by (simp add: frame_at_def)
      show "active_ok ?st2 W a" if "ws_active ?st2 = Some a" for a
      proof -
        have a: "a = ?seg" using that by simp
        have "covers (\<lambda>_. 0) ?n W" using D(3) by (fastforce simp: covers_def)
        then show ?thesis unfolding a by (simp add: active_ok_def)
      qed
      show "sealed_ok ?st2 W m" if m: "m \<in> set (ws_sealed ?st2)" for m
      proof -
        obtain k where "k < ?n" "sg_path m = segment_path k" "covers (sg_max_seq m) k W"
          using sl [of m] m by auto
        then show ?thesis unfolding sealed_ok_def by (intro exI [of _ k]) simp
      qed
    qed (use D lt room in simp_all)
    show ?thesis using op None nx inv1 inv2
      by (cases open_ok) (auto simp: open_segment_def Let_def)
  qed
  then show "writer_inv st' W" and "ws_persisted st' = ws_persisted st"
    and "ws_next_segment_id st' \<le> Suc (ws_next_segment_id st)" and "ws_staged st' = ws_staged st"
    and "\<And>seg. res = Inr seg \<Longrightarrow> ws_active st' = Some seg" by blast+
qed

text \<open>The frame an append reports as written.\<close>

definition stored_frame :: "SignalKind \<Rightarrow> nat \<Rightarrow> WrittenFrame \<Rightarrow> byte list \<Rightarrow> StoredFrame" where
  "stored_frame signal seq_id w bytes = \<lparr>sf_signal = signal, sf_seq = seq_id, sf_segment = wf_segment_id w,
     sf_offset = wf_offset w, sf_bytes = bytes\<rparr>"

lemma write_at_end: "cursor = length c \<Longrightarrow> write_at cursor bytes c = c @ bytes"
  by (simp add: write_at_def)

lemma write_frame_inv:
  assumes inv: "writer_inv st W" and act: "ws_active st = Some seg"
    and whole: "wi = None \<or> wi = Some 0" and fit: "as_bytes_written seg + length bytes \<le> u64_max"
    and wr: "write_frame wi signal seq_id bytes seg st = (res, st')"
  shows "writer_inv st' W" and "ws_persisted st' = ws_persisted st"
    and "ws_next_segment_id st' = ws_next_segment_id st" and "ws_staged st' = ws_staged st"
    and "\<And>w. res = Inr w \<Longrightarrow> writer_inv st' (insert (stored_frame signal seq_id w bytes) W) \<and> wf_len w = length bytes"
    and "\<And>w. res = Inr w \<Longrightarrow> (\<exists>a. ws_active st' = Some a)"
proof -
  note D = writer_invD [OF inv]
  obtain c where ok: "active_ok st W seg" and c: "ws_files st (as_path seg) = Some c"
    and len: "length c = as_bytes_written seg" "as_cursor seg = as_bytes_written seg"
    and path: "as_path seg = segment_path (as_segment_id seg)"
    and lt: "as_segment_id seg < ws_next_segment_id st"
    and cov: "covers (as_max_seq seg) (as_segment_id seg) W"
    using D(5) [OF act] by (auto simp: active_ok_def)
  let ?goal = "writer_inv st' W \<and> ws_persisted st' = ws_persisted st \<and>
    ws_next_segment_id st' = ws_next_segment_id st \<and> ws_staged st' = ws_staged st \<and>
    (\<forall>w. res = Inr w \<longrightarrow> writer_inv st' (insert (stored_frame signal seq_id w bytes) W) \<and>
      wf_len w = length bytes \<and> (\<exists>a. ws_active st' = Some a))"
  have ?goal
  proof (cases wi)
    case (Some k)
    with whole have "file_write seg (take k bytes) (ws_files st) = (seg, ws_files st)"
      using c len by (auto simp: file_write_def write_at_def map_upd_triv)
    then have "st' = st" and "res = Inl ''failed to write to segment''"
      using wr Some act by (auto simp: write_frame_def)
    then show ?thesis using inv by simp
  next
    case None
    let ?files = "(ws_files st)(as_path seg \<mapsto> c @ bytes)"
    let ?seg = "seg\<lparr>as_cursor := as_cursor seg + length bytes,
      as_bytes_written := as_bytes_written seg + length bytes,
      as_max_seq := (as_max_seq seg)(signal := max (as_max_seq seg signal) seq_id), as_has_frames := True\<rparr>"
    let ?st = "st\<lparr>ws_active := Some ?seg, ws_files := ?files\<rparr>"
    let ?w = "\<lparr>wf_segment_id = as_segment_id seg, wf_offset = as_bytes_written seg, wf_len = length bytes\<rparr>"
    let ?f = "stored_frame signal seq_id ?w bytes" and ?W = "insert (stored_frame signal seq_id ?w bytes) W"
    have st': "st' = ?st" and res: "res = Inr ?w"
      using wr None c len fit by (auto simp: write_frame_def file_write_def write_at_end sat_simps)
    have keep: "frame_at ?files f" if old: "frame_at (ws_files st) f" for f
    proof -
      obtain cf where cf: "ws_files st (segment_path (sf_segment f)) = Some cf"
        "sf_offset f + length (sf_bytes f) \<le> length cf"
        "take (length (sf_bytes f)) (drop (sf_offset f) cf) = sf_bytes f"
        using old unfolding frame_at_def by blast
      then show ?thesis using c by (cases "segment_path (sf_segment f) = as_path seg") (auto simp: frame_at_def)
    qed
    have new: "frame_at ?files ?f" using len by (simp add: frame_at_def stored_frame_def path)
    have inv': "writer_inv ?st ?W"
    proof (rule writer_invI)
      show "sf_segment f < ws_next_segment_id ?st" if "f \<in> ?W" for f
        using that D(3) lt by (auto simp: stored_frame_def)
      show "frame_at (ws_files ?st) f"
        if "f \<in> ?W" "for_signal (ws_persisted ?st) (sf_signal f) < sf_seq f" for f
        using that D(4) [of f] keep new by auto
      have "covers (as_max_seq ?seg) (as_segment_id seg) ?W"
        using cov by (auto simp: covers_def stored_frame_def le_max_iff_disj)
      then show "active_ok ?st ?W a" if "ws_active ?st = Some a" for a
        using that lt path len by (auto simp: active_ok_def)
      show "sealed_ok ?st ?W m" if m: "m \<in> set (ws_sealed ?st)" for m
      proof -
        obtain n where "n < ws_next_segment_id st" "sg_path m = segment_path n"
          and n: "as_segment_id seg \<noteq> n" "covers (sg_max_seq m) n W"
          using D(6) [of m] m act by (auto simp: sealed_ok_def)
        moreover have "covers (sg_max_seq m) n ?W"
          using n by (auto simp: covers_def stored_frame_def)
        ultimately show ?thesis unfolding sealed_ok_def by (intro exI [of _ n]) simp
      qed
    qed (use D in simp_all)
    have sub: "writer_inv ?st W"
      using inv' unfolding writer_inv_def active_ok_def sealed_ok_def covers_def by blast
    show ?thesis unfolding st' res using inv' sub by simp
  qed
  then show "writer_inv st' W" and "ws_persisted st' = ws_persisted st"
    and "ws_next_segment_id st' = ws_next_segment_id st" and "ws_staged st' = ws_staged st"
    and "\<And>w. res = Inr w \<Longrightarrow> writer_inv st' (insert (stored_frame signal seq_id w bytes) W) \<and> wf_len w = length bytes"
    and "\<And>w. res = Inr w \<Longrightarrow> (\<exists>a. ws_active st' = Some a)"
    by blast+
qed

text \<open>
  Appending one frame. No call of it may fail half way through a write; every other failure is
  allowed. The next segment number and the segment size stay clear of the top of their range.
\<close>

definition write_io_ok :: "write_io \<Rightarrow> bool" where
  "write_io_ok io \<longleftrightarrow> wi_write io = None \<or> wi_write io = Some 0"

lemma write_encoded_frame_inv:
  assumes inv: "writer_inv st W" and io: "write_io_ok io"
    and room: "ws_next_segment_id st < u64_max" and size: "segment_size < u64_max"
    and run: "write_encoded_frame ao io segment_size max_len (ws_persisted st) signal seq_id rows frame_bytes st
      = (res, st')"
  shows "writer_inv st' W" and "ws_persisted st' = ws_persisted st" and "ws_staged st' = ws_staged st"
    and "ws_next_segment_id st' \<le> Suc (ws_next_segment_id st)"
    and "\<And>w. res = Inr w \<Longrightarrow> \<exists>bytes. check_frame ao max_len signal seq_id rows frame_bytes = Inr bytes \<and>
          writer_inv st' (insert (stored_frame signal seq_id w bytes) W) \<and> wf_len w = length bytes"
proof -
  let ?goal = "writer_inv st' W \<and> ws_persisted st' = ws_persisted st \<and> ws_staged st' = ws_staged st \<and>
    ws_next_segment_id st' \<le> Suc (ws_next_segment_id st) \<and>
    (\<forall>w. res = Inr w \<longrightarrow> (\<exists>bytes. check_frame ao max_len signal seq_id rows frame_bytes = Inr bytes \<and>
          writer_inv st' (insert (stored_frame signal seq_id w bytes) W) \<and> wf_len w = length bytes))"
  have ?goal
  proof (cases "check_frame ao max_len signal seq_id rows frame_bytes")
    case (Inl e)
    then show ?thesis using run inv by (auto simp: write_encoded_frame_def)
  next
    case chk: (Inr bytes)
    then have small: "length bytes \<le> u32_max"
      by (auto simp: check_frame_def Let_def split: if_splits sum.splits)
    obtain r1 st1 where roll: "(if needs_roll segment_size (length bytes) st
        then seal_active (wi_seal_before io) (wi_rm io) (ws_persisted st) st else (Inr (), st)) = (r1, st1)"
      by fastforce
    have i1: "writer_inv st1 W" "ws_persisted st1 = ws_persisted st" "ws_staged st1 = ws_staged st"
      "ws_next_segment_id st1 = ws_next_segment_id st"
      using roll inv seal_active_inv [OF inv] by (auto split: if_splits)
    have fits: "as_bytes_written a + length bytes \<le> u64_max" if "ws_active st1 = Some a" for a
    proof (cases "needs_roll segment_size (length bytes) st")
      case True
      then show ?thesis using roll seal_active_inv(3) [OF inv] that by auto
    next
      case False
      then have "as_bytes_written a = 0 \<or> sat_add (as_bytes_written a) (length bytes) \<le> segment_size"
        using roll that by (auto simp: needs_roll_def)
      then show ?thesis using small size sat_add_leD by (fastforce simp: u32_max_def u64_max_def)
    qed
    show ?thesis
    proof (cases r1)
      case (Inl e)
      then show ?thesis using run chk roll i1 by (auto simp: write_encoded_frame_def)
    next
      case (Inr u)
      obtain r2 st2 where op: "open_segment (wi_open io) st1 = (r2, st2)" by fastforce
      note i2 = open_segment_inv [OF i1(1) _ op, unfolded i1, OF room]
      show ?thesis
      proof (cases r2)
        case (Inl e)
        then show ?thesis using run chk roll Inr op i2 by (auto simp: write_encoded_frame_def)
      next
        case seg: (Inr seg)
        have fit: "as_bytes_written seg + length bytes \<le> u64_max"
          using op seg fits small by (auto simp: open_segment_def Let_def u32_max_def u64_max_def split: option.splits if_splits)
        obtain r3 st3 where wr: "write_frame (wi_write io) signal seq_id bytes seg st2 = (r3, st3)" by fastforce
        note i3 = write_frame_inv [OF i2(1) i2(5) [OF seg] _ fit wr, OF io [unfolded write_io_ok_def]]
        show ?thesis
        proof (cases r3)
          case (Inl e)
          then show ?thesis using run chk roll Inr op seg wr i2 i3 by (auto simp: write_encoded_frame_def)
        next
          case w: (Inr w)
          let ?W = "insert (stored_frame signal seq_id w bytes) W"
          have inv3: "writer_inv st3 ?W" and len: "wf_len w = length bytes" using i3(5) [OF w] by auto
          have p3: "ws_persisted st3 = ws_persisted st" using i3(2) i2(2) by simp
          obtain r4 st4 where sl: "seal_active (wi_seal_after io) (wi_rm io) (ws_persisted st) st3 = (r4, st4)"
            by fastforce
          note i4 = seal_active_inv [OF inv3 sl [folded p3]] and j4 = seal_active_inv [OF i3(1) sl [folded p3]]
          have "(res, st') = (if sat_add (as_bytes_written seg) (length bytes) \<ge> segment_size
              then (case r4 of Inl e \<Rightarrow> (Inl e, st4) | Inr _ \<Rightarrow> (Inr w, st4)) else (Inr w, st3))"
            using run chk roll Inr op seg wr w sl
            by (auto simp: write_encoded_frame_def split: sum.splits)
          then show ?thesis using chk len inv3 i2 i3 i4 j4 p3
            by (auto split: if_splits sum.splits)
        qed
      qed
    qed
  qed
  then show "writer_inv st' W" and "ws_persisted st' = ws_persisted st" and "ws_staged st' = ws_staged st"
    and "ws_next_segment_id st' \<le> Suc (ws_next_segment_id st)"
    and "\<And>w. res = Inr w \<Longrightarrow> \<exists>bytes. check_frame ao max_len signal seq_id rows frame_bytes = Inr bytes \<and>
          writer_inv st' (insert (stored_frame signal seq_id w bytes) W) \<and> wf_len w = length bytes"
    by blast+
qed

section \<open>A round of the writer keeps the invariant\<close>

text \<open>The appends among commands, in order, and what a reply to one says about the frames stored.\<close>

type_synonym 'r append = "SignalKind \<times> nat \<times> nat \<times> byte list \<times> 'r"

fun append_of :: "'r WriterCommand \<times> write_io \<Rightarrow> 'r append list" where
  "append_of (AppendEncoded signal seq_id rows frame_bytes r, io) = [(signal, seq_id, rows, frame_bytes, r)]"
| "append_of _ = []"

definition appends :: "('r WriterCommand \<times> write_io) list \<Rightarrow> 'r append list" where
  "appends cmds = concat (map append_of cmds)"

definition reply_ok ::
  "('b, 's) arrow_ops \<Rightarrow> nat \<Rightarrow> StoredFrame set \<Rightarrow> 'r append \<Rightarrow> 'r \<times> (string + WrittenFrame) \<Rightarrow> bool" where
  "reply_ok ao max_len W a reply =
     (case a of (signal, seq_id, rows, frame_bytes, r) \<Rightarrow>
        fst reply = r \<and>
        (\<forall>w. snd reply = Inr w \<longrightarrow>
           (\<exists>bytes. check_frame ao max_len signal seq_id rows frame_bytes = Inr bytes \<and>
                    stored_frame signal seq_id w bytes \<in> W \<and> wf_len w = length bytes)))"

lemma reply_ok_mono: "reply_ok ao m W a r \<Longrightarrow> W \<subseteq> W' \<Longrightarrow> reply_ok ao m W' a r"
  by (cases a) (simp add: reply_ok_def, blast)

lemma replies_mono:
  "list_all2 (reply_ok ao m W) as rs \<Longrightarrow> W \<subseteq> W' \<Longrightarrow> list_all2 (reply_ok ao m W') as rs"
  by (erule list_all2_mono) (rule reply_ok_mono)

lemma stage_inv:
  assumes "writer_inv st W"
  shows "writer_inv (st\<lparr>ws_staged := fst (merge_monotonic (ws_staged st) wm)\<rparr>) W"
  using writer_invD [OF assms]
  by (intro writer_invI) (auto simp: active_ok_def sealed_ok_def le_max_iff_disj)

text \<open>What one command does to the accumulated round.\<close>

lemma process_command_inv:
  assumes inv: "writer_inv (ba_state acc) W" and io: "write_io_ok (snd cmd)"
    and room: "ws_next_segment_id (ba_state acc) < u64_max" and size: "wc_segment_size_bytes cfg < u64_max"
  shows "\<exists>W' new. W \<subseteq> W' \<and> writer_inv (ba_state (process_command ao cfg cmd acc)) W' \<and>
    ws_persisted (ba_state (process_command ao cfg cmd acc)) = ws_persisted (ba_state acc) \<and>
    ws_next_segment_id (ba_state (process_command ao cfg cmd acc)) \<le> Suc (ws_next_segment_id (ba_state acc)) \<and>
    ba_append_replies (process_command ao cfg cmd acc) = ba_append_replies acc @ new \<and>
    list_all2 (reply_ok ao (wc_max_payload_len cfg) W') (append_of cmd) new"
proof -
  obtain c w where cmd: "cmd = (c, w)" by (cases cmd)
  note stage = stage_inv [OF inv]
  show ?thesis
  proof (cases c)
    case (AppendEncoded sg sq rows fb r)
    let ?st = "ba_state acc"
    obtain res st' where run: "write_encoded_frame ao w (wc_segment_size_bytes cfg) (wc_max_payload_len cfg)
        (ws_persisted ?st) sg sq rows fb ?st = (res, st')" by fastforce
    note i = write_encoded_frame_inv [OF inv io [unfolded cmd snd_conv] room size run]
    have acc': "process_command ao cfg cmd acc =
        acc\<lparr>ba_state := st', ba_append_replies := ba_append_replies acc @ [(r, res)]\<rparr>"
      using run by (simp add: cmd AppendEncoded)
    show ?thesis
    proof (cases res)
      case (Inl e)
      then show ?thesis unfolding acc' using i
        by (intro exI [of _ W] exI [of _ "[(r, res)]"]) (simp add: reply_ok_def cmd AppendEncoded)
    next
      case (Inr wf)
      then obtain bytes where b: "check_frame ao (wc_max_payload_len cfg) sg sq rows fb = Inr bytes"
        "writer_inv st' (insert (stored_frame sg sq wf bytes) W)" "wf_len wf = length bytes"
        using i(5) by blast
      then show ?thesis unfolding acc' using i Inr
        by (intro exI [of _ "insert (stored_frame sg sq wf bytes) W"] exI [of _ "[(r, res)]"])
          (auto simp: reply_ok_def cmd AppendEncoded)
    qed
  qed (use inv stage in \<open>auto simp: cmd stage_watermark_def Let_def intro!: exI [of _ W]\<close>)
qed

lemma process_commands_inv:
  assumes "writer_inv (ba_state acc) W" and "list_all (\<lambda>c. write_io_ok (snd c)) cmds"
    and "ws_next_segment_id (ba_state acc) + length cmds < u64_max" and "wc_segment_size_bytes cfg < u64_max"
  shows "\<exists>W' new. W \<subseteq> W' \<and> writer_inv (ba_state (fold (process_command ao cfg) cmds acc)) W' \<and>
    ws_persisted (ba_state (fold (process_command ao cfg) cmds acc)) = ws_persisted (ba_state acc) \<and>
    ws_next_segment_id (ba_state (fold (process_command ao cfg) cmds acc)) \<le>
      ws_next_segment_id (ba_state acc) + length cmds \<and>
    ba_append_replies (fold (process_command ao cfg) cmds acc) = ba_append_replies acc @ new \<and>
    list_all2 (reply_ok ao (wc_max_payload_len cfg) W') (appends cmds) new"
  using assms
proof (induction cmds arbitrary: acc W)
  case Nil
  then show ?case by (intro exI [of _ W] exI [of _ "[]"]) (simp add: appends_def)
next
  case (Cons cmd cmds)
  have io: "write_io_ok (snd cmd)" "ws_next_segment_id (ba_state acc) < u64_max" using Cons.prems by auto
  let ?acc = "process_command ao cfg cmd acc"
  obtain W1 n1 where 1: "W \<subseteq> W1" "writer_inv (ba_state ?acc) W1"
    "ws_persisted (ba_state ?acc) = ws_persisted (ba_state acc)"
    "ws_next_segment_id (ba_state ?acc) \<le> Suc (ws_next_segment_id (ba_state acc))"
    "ba_append_replies ?acc = ba_append_replies acc @ n1"
    "list_all2 (reply_ok ao (wc_max_payload_len cfg) W1) (append_of cmd) n1"
    using process_command_inv [OF Cons.prems(1) io Cons.prems(4)] by blast
  have "ws_next_segment_id (ba_state ?acc) + length cmds < u64_max" using 1(4) Cons.prems(3) by simp
  moreover have "list_all (\<lambda>c. write_io_ok (snd c)) cmds" using Cons.prems(2) by simp
  ultimately obtain W2 n2 where 2: "W1 \<subseteq> W2" "writer_inv (ba_state (fold (process_command ao cfg) cmds ?acc)) W2"
    "ws_persisted (ba_state (fold (process_command ao cfg) cmds ?acc)) = ws_persisted (ba_state ?acc)"
    "ws_next_segment_id (ba_state (fold (process_command ao cfg) cmds ?acc)) \<le>
      ws_next_segment_id (ba_state ?acc) + length cmds"
    "ba_append_replies (fold (process_command ao cfg) cmds ?acc) = ba_append_replies ?acc @ n2"
    "list_all2 (reply_ok ao (wc_max_payload_len cfg) W2) (appends cmds) n2"
    using Cons.IH [OF 1(2) _ _ Cons.prems(4)] by blast
  have "list_all2 (reply_ok ao (wc_max_payload_len cfg) W2) (appends (cmd # cmds)) (n1 @ n2)"
    using replies_mono [OF 1(6) 2(1)] 2(6) by (simp add: appends_def list_all2_appendI)
  then show ?case using 1 2 by (intro exI [of _ W2] exI [of _ "n1 @ n2"]) auto
qed

text \<open>Persisting the staged watermark, then removing what it covers.\<close>

lemma persist_inv:
  assumes inv: "writer_inv st W" and files: "\<And>n. files (segment_path n) = ws_files st (segment_path n)"
  shows "writer_inv (st\<lparr>ws_persisted := ws_staged st, ws_files := files\<rparr>) W"
    and "writer_inv (st\<lparr>ws_staged := ws_persisted st, ws_files := files\<rparr>) W"
proof -
  note D = writer_invD [OF inv]
  have at: "frame_at files f = frame_at (ws_files st) f" for f by (simp add: frame_at_def files)
  have act: "active_ok st W a \<Longrightarrow> active_ok (st\<lparr>ws_persisted := p, ws_files := files\<rparr>) W a"
    "active_ok st W a \<Longrightarrow> active_ok (st\<lparr>ws_staged := p, ws_files := files\<rparr>) W a" for a p
    by (auto simp: active_ok_def files)
  have sl: "sealed_ok (st\<lparr>ws_persisted := p, ws_files := files\<rparr>) W m = sealed_ok st W m"
    "sealed_ok (st\<lparr>ws_staged := p, ws_files := files\<rparr>) W m = sealed_ok st W m" for m p
    by (simp_all add: sealed_ok_def)
  show "writer_inv (st\<lparr>ws_persisted := ws_staged st, ws_files := files\<rparr>) W"
    by (rule writer_invI) (use D at act sl in \<open>auto intro: le_less_trans\<close>)
  show "writer_inv (st\<lparr>ws_staged := ws_persisted st, ws_files := files\<rparr>) W"
    by (rule writer_invI) (use D at act sl in auto)
qed

lemma watermark_write_segments:
  assumes "write_watermark_atomic to_json fault wm d = (res, ds)"
  shows "after d ds (segment_path n) = d (segment_path n)"
  using assms segment_file_name_other [of n]
  by (cases fault) (auto simp: write_watermark_atomic_def Let_def after_def segment_path_def)

lemma writer_batch_inv:
  assumes inv: "writer_inv st W" and io: "list_all (\<lambda>c. write_io_ok (snd c)) cmds"
    and room: "ws_next_segment_id st + length cmds < u64_max" and size: "wc_segment_size_bytes cfg < u64_max"
    and run: "writer_batch ao to_json cfg bio cmds st = (st', replies, wmr, stop)"
  shows "\<exists>W'. W \<subseteq> W' \<and> writer_inv st' W' \<and>
    list_all2 (reply_ok ao (wc_max_payload_len cfg) W') (appends cmds) replies"
    and "for_signal (ws_persisted st) s \<le> for_signal (ws_persisted st') s"
    and "ws_next_segment_id st' \<le> ws_next_segment_id st + length cmds"
proof -
  let ?acc0 = "\<lparr>ba_state = st, ba_append_replies = [], ba_wm_oneshot_replies = 0,
                   ba_wm_blocking_replies = 0, ba_watermark_dirty = False,
                   ba_force_sync_segment = False, ba_should_shutdown = False\<rparr>"
  define acc where "acc = fold (process_command ao cfg) cmds ?acc0"
  let ?st1 = "ba_state acc"
  obtain W' where W: "W \<subseteq> W'" "writer_inv ?st1 W'" "ws_persisted ?st1 = ws_persisted st"
    "ws_next_segment_id ?st1 \<le> ws_next_segment_id st + length cmds"
    "list_all2 (reply_ok ao (wc_max_payload_len cfg) W') (appends cmds) (ba_append_replies acc)"
    using process_commands_inv [of ?acc0 W cmds cfg ao] inv io room size unfolding acc_def by auto
  define serr :: "string option" where
    "serr = (if ((ba_append_replies acc \<noteq> [] \<and> wc_sync_on_write cfg) \<or> ba_force_sync_segment acc)
                         \<and> ws_active ?st1 \<noteq> None \<and> \<not> bi_sync bio
                      then Some ''failed to sync active segment'' else None)"
  have rep: "list_all2 (reply_ok ao (wc_max_payload_len cfg) W') (appends cmds)
      (map (\<lambda>(reply, res). (reply, case serr of Some e \<Rightarrow> Inl e | None \<Rightarrow> res)) (ba_append_replies acc))"
  proof (cases serr)
    case None
    then show ?thesis using W(5) by (simp add: case_prod_eta)
  next
    case (Some e)
    have "list_all2 (\<lambda>a r. reply_ok ao (wc_max_payload_len cfg) W' a (case r of (reply, res) \<Rightarrow> (reply, Inl e)))
        (appends cmds) (ba_append_replies acc)"
      by (rule list_all2_mono [OF W(5)]) (auto simp: reply_ok_def)
    then show ?thesis using Some by (simp add: list_all2_map2)
  qed
  obtain wm_res ds where wr: "(case serr of Some e \<Rightarrow> (Inl e, [])
      | None \<Rightarrow> write_watermark_atomic to_json (bi_watermark bio) (ws_staged ?st1) (ws_files ?st1)) = (wm_res, ds)"
    by fastforce
  let ?files = "after (ws_files ?st1) ds"
  have seg: "?files (segment_path n) = ws_files ?st1 (segment_path n)" for n
  proof (cases serr)
    case None
    then show ?thesis using wr watermark_write_segments by simp
  next
    case (Some e)
    then show ?thesis using wr by (simp add: after_def)
  qed
  obtain sealed files' where gc: "gc_sealed_segments (bi_rm bio) (ws_sealed ?st1) (ws_staged ?st1) ?files = (sealed, files')"
    by fastforce
  have st': "st' = (if ba_watermark_dirty acc
      then (case wm_res of
              Inr _ \<Rightarrow> ?st1\<lparr>ws_persisted := ws_staged ?st1, ws_sealed := sealed, ws_files := files'\<rparr>
            | Inl _ \<Rightarrow> ?st1\<lparr>ws_staged := ws_persisted ?st1, ws_files := ?files\<rparr>)
      else ?st1)"
    and replies: "replies = map (\<lambda>(reply, res). (reply, case serr of Some e \<Rightarrow> Inl e | None \<Rightarrow> res)) (ba_append_replies acc)"
    using run wr gc unfolding writer_batch_def Let_def acc_def [symmetric] serr_def [symmetric]
    by (auto split: if_splits sum.splits)
  have inv_p: "writer_inv (?st1\<lparr>ws_persisted := ws_staged ?st1, ws_sealed := sealed, ws_files := files'\<rparr>) W'"
    using gc_inv [OF persist_inv(1) [OF W(2) seg], of "ws_staged ?st1" "bi_rm bio" sealed files'] gc by simp
  have "writer_inv st' W'"
    unfolding st' using inv_p persist_inv(2) [OF W(2) seg] W(2) by (auto split: sum.splits)
  then show "\<exists>W'. W \<subseteq> W' \<and> writer_inv st' W' \<and>
      list_all2 (reply_ok ao (wc_max_payload_len cfg) W') (appends cmds) replies"
    using W(1) rep unfolding replies by blast
  show "for_signal (ws_persisted st) s \<le> for_signal (ws_persisted st') s"
    unfolding st' using writer_invD(2) [OF W(2), of s] W(3) by (auto split: sum.splits)
  show "ws_next_segment_id st' \<le> ws_next_segment_id st + length cmds"
    unfolding st' using W(4) by (auto split: sum.splits)
qed

section \<open>The whole run\<close>

lemma drop_active_inv:
  assumes "writer_inv st W"
  shows "writer_inv (st\<lparr>ws_active := None\<rparr>) W"
proof (rule writer_invI)
  note D = writer_invD [OF assms]
  show "sealed_ok (st\<lparr>ws_active := None\<rparr>) W m" if "m \<in> set (ws_sealed (st\<lparr>ws_active := None\<rparr>))" for m
    using D(6) [of m] that by (auto simp: sealed_ok_def)
qed (use writer_invD [OF assms] in simp_all)

definition rounds_ok :: "writer_config \<Rightarrow> (batch_io \<times> ('r WriterCommand \<times> write_io) list) list \<Rightarrow> WriterState \<Rightarrow> bool" where
  "rounds_ok cfg rounds st \<longleftrightarrow>
     list_all (\<lambda>(_, cmds). list_all (\<lambda>c. write_io_ok (snd c)) cmds) rounds \<and>
     ws_next_segment_id st + sum_list (map (\<lambda>(_, cmds). length cmds) rounds) < u64_max \<and>
     wc_segment_size_bytes cfg < u64_max"

definition all_appends :: "(batch_io \<times> ('r WriterCommand \<times> write_io) list) list \<Rightarrow> 'r append list" where
  "all_appends rounds = concat (map (appends \<circ> snd) rounds)"

lemma writer_loop_inv:
  assumes "writer_inv st W" and "rounds_ok cfg rounds st"
    and "writer_loop ao to_json cfg rounds st = (st', replies)"
  shows "\<exists>W'. W \<subseteq> W' \<and> writer_inv st' W' \<and>
    list_all2 (reply_ok ao (wc_max_payload_len cfg) W') (take (length replies) (all_appends rounds)) replies"
  using assms
proof (induction rounds arbitrary: st W st' replies)
  case Nil
  then show ?case using drop_active_inv by (auto simp: all_appends_def)
next
  case (Cons rd rounds)
  obtain bio cmds where rd: "rd = (bio, cmds)" by (cases rd)
  obtain st1 rep1 wmr stop where b: "writer_batch ao to_json cfg bio cmds st = (st1, rep1, wmr, stop)"
    by (metis prod_cases4)
  have ok: "list_all (\<lambda>c. write_io_ok (snd c)) cmds" "ws_next_segment_id st + length cmds < u64_max"
    "wc_segment_size_bytes cfg < u64_max"
    using Cons.prems(2) by (auto simp: rounds_ok_def rd)
  note i = writer_batch_inv [OF Cons.prems(1) ok b]
  obtain W1 where W1: "W \<subseteq> W1" "writer_inv st1 W1"
    "list_all2 (reply_ok ao (wc_max_payload_len cfg) W1) (appends cmds) rep1" using i(1) by blast
  have len: "length rep1 = length (appends cmds)" using W1(3) list_all2_lengthD by metis
  show ?case
  proof (cases stop)
    case True
    then have "st' = st1\<lparr>ws_active := None\<rparr>" "replies = rep1" using Cons.prems(3) rd b by auto
    then show ?thesis using W1 drop_active_inv [OF W1(2)] len by (auto simp: all_appends_def rd)
  next
    case False
    then obtain rep2 where run: "writer_loop ao to_json cfg rounds st1 = (st', rep2)" "replies = rep1 @ rep2"
      using Cons.prems(3) rd b by (auto split: prod.splits)
    have "rounds_ok cfg rounds st1"
      using Cons.prems(2) i(3) by (auto simp: rounds_ok_def rd)
    from Cons.IH [OF W1(2) this run(1)] obtain W2 where W2: "W1 \<subseteq> W2" "writer_inv st' W2"
      "list_all2 (reply_ok ao (wc_max_payload_len cfg) W2) (take (length rep2) (all_appends rounds)) rep2" by blast
    have "list_all2 (reply_ok ao (wc_max_payload_len cfg) W2) (appends cmds @ take (length rep2) (all_appends rounds)) (rep1 @ rep2)"
      by (rule list_all2_appendI [OF replies_mono [OF W1(3) W2(1)] W2(3)])
    moreover have "take (length replies) (all_appends (rd # rounds)) = appends cmds @ take (length rep2) (all_appends rounds)"
      by (simp add: all_appends_def rd run len)
    ultimately show ?thesis using W1(1) W2 run(2) by auto
  qed
qed

text \<open>A frame that passes the writer's checks is stored under its sequence number.\<close>

lemma patch_header_irrelevant:
  assumes "fh_payload_len h = fh_payload_len h'"
    and "patch_frame_seq_id ao bs h sq = Inr (bs', x)"
  shows "\<exists>x'. patch_frame_seq_id ao bs h' sq = Inr (bs', x')"
  using assms by (auto simp: patch_frame_seq_id_def Let_def split: if_splits)

lemma check_frame_encoded:
  assumes "encode_frame ao sg 0 b [] = Inr (h, fb)"
    and "check_frame ao max_len sg sq (ao_num_rows ao b) fb = Inr bytes"
  shows "\<exists>p. ao_ipc_encode ao b = Inr p \<and> ao_num_rows ao b \<le> u32_max \<and> length p \<le> u32_max \<and>
    bytes = frame_of ao sg sq (ao_num_rows ao b) p"
proof -
  obtain p where p: "ao_ipc_encode ao b = Inr p" "ao_num_rows ao b \<le> u32_max" "length p \<le> u32_max"
    "h = header_of ao sg 0 (ao_num_rows ao b) p" "fb = frame_of ao sg 0 (ao_num_rows ao b) p"
    using assms(1) by (auto simp: encode_frame_Inr)
  have "\<exists>hdr x. fh_payload_len hdr = length p \<and> patch_frame_seq_id ao fb hdr sq = Inr (bytes, x)"
    using assms(2) p(5)
    by (auto simp: check_frame_def Let_def FRAME_HEADER_LEN_def split: if_splits sum.splits)
      (metis FrameHeader.select_convs(4))
  then obtain hdr x where hdr: "fh_payload_len hdr = length p"
    and pt: "patch_frame_seq_id ao fb hdr sq = Inr (bytes, x)" by blast
  have "length p + 28 \<le> u64_max" using p(3) by (simp add: u32_max_def u64_max_def)
  then have "patch_frame_seq_id ao fb h sq = Inr (frame_of ao sg sq (ao_num_rows ao b) p, header_of ao sg sq (ao_num_rows ao b) p)"
    unfolding p(4,5) by (rule patch_frame_of)
  moreover have "\<exists>x'. patch_frame_seq_id ao fb h sq = Inr (bytes, x')"
    by (rule patch_header_irrelevant [OF _ pt]) (simp add: hdr p(4))
  ultimately show ?thesis using p by auto
qed

lemma check_frame_frame_of:
  assumes "n \<le> u32_max" and "length p \<le> max_len" and "length p + 28 \<le> u32_max"
  shows "check_frame ao max_len sg sq n (frame_of ao sg 0 n p) = Inr (frame_of ao sg sq n p)"
proof -
  have rows: "le_nat (take 4 (drop 16 (frame_of ao sg 0 n p))) = n"
    using assms(1) le_nat_le_bytes_4 by (simp add: frame_of_def header_prefix_def FRAME_MAGIC_def)
  let ?h = "\<lparr>fh_signal = sg, fh_seq_id = 0, fh_row_count = n, fh_payload_len = length p, fh_crc32 = 0\<rparr>"
  have "length p + 28 \<le> u64_max" using assms(3) by (simp add: u32_max_def u64_max_def)
  then have "\<exists>x. patch_frame_seq_id ao (frame_of ao sg 0 n p) ?h sq = Inr (frame_of ao sg sq n p, x)"
    by (intro patch_header_irrelevant [OF _ patch_frame_of]) simp_all
  then show ?thesis using assms rows
    by (auto simp: check_frame_def Let_def FRAME_HEADER_LEN_def)
qed

lemma read_stored_frame:
  assumes "frame_at files f" and "sf_bytes f = frame_of ao sg sq n p"
    and "crc_ok ao" and "sq \<le> u64_max" and "n \<le> u32_max" and "length p \<le> u32_max"
    and "ao_ipc_decode ao p = Inr (Some b)" and "benign script"
  shows "read_frame_at ao True script files (sf_segment f) (sf_offset f) (length (sf_bytes f)) m = Inr b"
proof -
  obtain c where c: "files (segment_path (sf_segment f)) = Some c"
    "take (length (sf_bytes f)) (drop (sf_offset f) c) = sf_bytes f"
    using assms(1) unfolding frame_at_def by blast
  have "decode_frame ao (sf_bytes f, script) (max m (length p)) = Inr (Some (header_of ao sg sq n p, b))"
    using decode_bytes_frame [OF assms(3-6), of "max m (length p)" sg "[]"] assms(2,7)
    by (simp add: decode_frame_bytes [OF assms(8)])
  then show ?thesis using c assms(2) by (simp add: read_frame_at_def Let_def FRAME_HEADER_LEN_def)
qed

section \<open>Properties\<close>

text \<open>
  C4. What the writer thread acknowledges stays readable. Run the writer on any rounds of commands,
  with opening, syncing, sealing, removing files and persisting the watermark failing at will but no
  write failing half way: an append of an encoded batch that was answered with a location can be
  read back from that location at the end of the run, unless the persisted watermark covers its
  sequence number by then.
\<close>

theorem append_durable:
  assumes "crc_ok ao" and "ipc_ok ao b" and "encode_frame ao sg 0 b [] = Inr (h, fb)"
    and "writer_inv st W" and "rounds_ok cfg rounds st"
    and "writer_loop ao to_json cfg rounds st = (st', replies)"
    and "i < length replies" and "all_appends rounds ! i = (sg, sq, ao_num_rows ao b, fb, r)"
    and "snd (replies ! i) = Inr w"
    and "sq \<le> u64_max" and "for_signal (ws_persisted st') sg < sq" and "benign script"
  shows "read_frame_at ao True script (ws_files st') (wf_segment_id w) (wf_offset w) (wf_len w) m = Inr b"
proof -
  obtain W' where W': "writer_inv st' W'"
    and rep: "list_all2 (reply_ok ao (wc_max_payload_len cfg) W') (take (length replies) (all_appends rounds)) replies"
    using writer_loop_inv [OF assms(4-6)] by blast
  have "reply_ok ao (wc_max_payload_len cfg) W' (sg, sq, ao_num_rows ao b, fb, r) (replies ! i)"
    using list_all2_nthD2 [OF rep assms(7)] assms(7,8) by simp
  then obtain bytes where chk: "check_frame ao (wc_max_payload_len cfg) sg sq (ao_num_rows ao b) fb = Inr bytes"
    and f: "stored_frame sg sq w bytes \<in> W'" and len: "wf_len w = length bytes"
    using assms(9) by (auto simp: reply_ok_def)
  obtain p where p: "ao_ipc_encode ao b = Inr p" "ao_num_rows ao b \<le> u32_max" "length p \<le> u32_max"
    "bytes = frame_of ao sg sq (ao_num_rows ao b) p"
    using check_frame_encoded [OF assms(3) chk] by blast
  have "frame_at (ws_files st') (stored_frame sg sq w bytes)"
    by (rule writer_invD(4) [OF W' f]) (simp add: stored_frame_def assms(11))
  moreover have "ao_ipc_decode ao p = Inr (Some b)" using assms(2) p(1) by (simp add: ipc_ok_def)
  ultimately show ?thesis
    using read_stored_frame [of "ws_files st'" "stored_frame sg sq w bytes" ao sg sq "ao_num_rows ao b" p b script m]
      assms(1,10,12) p len by (simp add: stored_frame_def)
qed

definition empty_writer :: WriterState where
  "empty_writer = \<lparr>ws_active = None, ws_sealed = [], ws_next_segment_id = 1,
     ws_persisted = default_watermark, ws_staged = default_watermark, ws_files = (\<lambda>_. None)\<rparr>"

definition good_io :: write_io where
  "good_io = \<lparr>wi_seal_before = True, wi_open = True, wi_write = None, wi_seal_after = True, wi_rm = (\<lambda>_. True)\<rparr>"

definition good_batch :: batch_io where
  "good_batch = \<lparr>bi_sync = True, bi_watermark = NoFault, bi_rm = (\<lambda>_. True)\<rparr>"

definition demo_config :: writer_config where
  "demo_config = \<lparr>wc_segment_size_bytes = 64, wc_max_payload_len = 100, wc_sync_on_write = True\<rparr>"

lemma empty_writer_inv: "writer_inv empty_writer {}"
  by (simp add: writer_inv_def empty_writer_def u64_max_def)

definition demo_rounds :: "(batch_io \<times> (unit WriterCommand \<times> write_io) list) list" where
  "demo_rounds = [(good_batch, [(AppendEncoded Logs 1 1 (frame_of byte_ops Logs 0 1 [42]) (), good_io)])]"

lemma demo_replies:
  "snd (writer_loop byte_ops (\<lambda>_. []) demo_config demo_rounds empty_writer) =
     [((), Inr \<lparr>wf_segment_id = 1, wf_offset = 0, wf_len = 29\<rparr>)]"
  by (simp add: demo_rounds_def writer_batch_def good_batch_def write_encoded_frame_def demo_config_def
      check_frame_frame_of u32_max_def needs_roll_def empty_writer_def open_segment_def good_io_def
      write_frame_def file_write_def sat_add_def u64_max_def Let_def)

theorem append_durable_witness:
  "\<exists>st'. writer_loop byte_ops (\<lambda>_. []) demo_config demo_rounds empty_writer =
       (st', [((), Inr \<lparr>wf_segment_id = 1, wf_offset = 0, wf_len = 29\<rparr>)]) \<and>
     read_frame_at byte_ops True [Chunk 3] (ws_files st') 1 0 29 100 = Inr [42]"
proof -
  obtain st' where run: "writer_loop byte_ops (\<lambda>_. []) demo_config demo_rounds empty_writer =
      (st', [((), Inr \<lparr>wf_segment_id = 1, wf_offset = 0, wf_len = 29\<rparr>)])"
    using demo_replies by (metis prod.collapse)
  have "ws_persisted st' = default_watermark"
    using run by (auto simp: demo_rounds_def writer_batch_def good_batch_def write_encoded_frame_def demo_config_def
      check_frame_frame_of u32_max_def needs_roll_def empty_writer_def open_segment_def good_io_def
      write_frame_def file_write_def sat_add_def u64_max_def Let_def)
  then have wm: "for_signal (ws_persisted st') Logs < 1" by (simp add: default_watermark_def)
  have ok: "rounds_ok demo_config demo_rounds empty_writer"
    by (simp add: rounds_ok_def demo_config_def demo_rounds_def empty_writer_def good_io_def write_io_ok_def u64_max_def)
  have app: "all_appends demo_rounds ! 0 = (Logs, 1, ao_num_rows byte_ops [42], frame_of byte_ops Logs 0 1 [42], ())"
    by (simp add: all_appends_def appends_def demo_rounds_def byte_ops_def)
  have enc: "encode_frame byte_ops Logs 0 [42] [] = Inr (header_of byte_ops Logs 0 1 [42], frame_of byte_ops Logs 0 1 [42])"
    by (simp add: byte_ops_encode)
  have "read_frame_at byte_ops True [Chunk 3] (ws_files st')
      (wf_segment_id \<lparr>wf_segment_id = 1, wf_offset = 0, wf_len = 29\<rparr>)
      (wf_offset \<lparr>wf_segment_id = 1, wf_offset = 0, wf_len = 29\<rparr>)
      (wf_len \<lparr>wf_segment_id = 1, wf_offset = 0, wf_len = 29\<rparr>) 100 = Inr [42]"
    by (rule append_durable [OF byte_ops_ok(1) byte_ops_ok(2) enc empty_writer_inv ok run _ app])
      (use wm in \<open>simp_all add: u64_max_def\<close>)
  with run show ?thesis by simp
qed

definition torn_io :: write_io where
  "torn_io = good_io\<lparr>wi_write := Some 5\<rparr>"

definition torn_rounds :: "(batch_io \<times> (unit WriterCommand \<times> write_io) list) list" where
  "torn_rounds = [(good_batch, [(AppendEncoded Logs 1 1 (frame_of byte_ops Logs 0 1 [42]) (), torn_io),
                                (AppendEncoded Logs 2 1 (frame_of byte_ops Logs 0 1 [43]) (), good_io)])]"

lemmas writer_eval = writer_batch_def good_batch_def write_encoded_frame_def demo_config_def
  check_frame_frame_of u32_max_def needs_roll_def empty_writer_def open_segment_def good_io_def
  write_frame_def file_write_def sat_add_def u64_max_def Let_def


end
