(* ===== verification/Ledger.thy ===== *)
theory Ledger
  imports SignalRing
begin

text \<open>
  The abstract specification of a signal ring: a ledger. Every sequence number that is still
  active has exactly one owner (the queue, a lease or a disk append in progress), the slot table
  says which, and the ring's byte and row counters are the sum of what the owners hold.

  An entry is \<open>(seq, kind, bytes, rows)\<close>. An owner can outlive its slots: a shutdown that discards the
  ring clears the slot table while leases and appends are still held. Such entries are stale and
  weigh nothing. \<open>ring_inv\<close> ties a ring to the leases and reservations outstanding on it; the
  lemmas show what each operation of \<open>SignalRing\<close> does to it.
\<close>

section \<open>Ownership\<close>

type_synonym entry = "nat \<times> LeaseSlotState \<times> nat \<times> nat"
type_synonym slot_view = "nat \<Rightarrow> LeaseSlotState option"

abbreviation e_seq :: "entry \<Rightarrow> nat" where
  "e_seq \<equiv> fst"

abbreviation e_kind :: "entry \<Rightarrow> LeaseSlotState" where
  "e_kind e \<equiv> fst (snd e)"

abbreviation e_bytes :: "entry \<Rightarrow> nat" where
  "e_bytes e \<equiv> fst (snd (snd e))"

abbreviation e_rows :: "entry \<Rightarrow> nat" where
  "e_rows e \<equiv> snd (snd (snd e))"

definition owner_inv :: "slot_view \<Rightarrow> entry list \<Rightarrow> bool" where
  "owner_inv \<sigma> E \<longleftrightarrow>
     distinct (map e_seq E) \<and>
     (\<forall>s k. \<sigma> s = Some k \<longrightarrow> (\<exists>e \<in> set E. e_seq e = s \<and> e_kind e = k)) \<and>
     (\<forall>e \<in> set E. \<sigma> (e_seq e) = Some (e_kind e) \<or> \<sigma> (e_seq e) = None)"

definition charge :: "(entry \<Rightarrow> nat) \<Rightarrow> slot_view \<Rightarrow> entry list \<Rightarrow> nat" where
  "charge w \<sigma> E = sum_list (map (\<lambda>e. if \<sigma> (e_seq e) = None then 0 else w e) E)"

lemma charge_simps [simp]:
  "charge w \<sigma> [] = 0"
  "charge w \<sigma> (e # E) = (if \<sigma> (e_seq e) = None then 0 else w e) + charge w \<sigma> E"
  "charge w \<sigma> (E @ F) = charge w \<sigma> E + charge w \<sigma> F"
  by (simp_all add: charge_def)

lemma charge_cong:
  "(\<And>e. e \<in> set E \<Longrightarrow> \<sigma> (e_seq e) = None \<longleftrightarrow> \<tau> (e_seq e) = None) \<Longrightarrow> charge w \<sigma> E = charge w \<tau> E"
  unfolding charge_def by (rule arg_cong [where f = sum_list], rule map_cong) auto

lemma charge_upd_other [simp]:
  "s \<notin> e_seq ` set E \<Longrightarrow> charge w (\<sigma>(s := x)) E = charge w \<sigma> E"
  by (rule charge_cong) auto

lemma charge_perm: "mset E = mset F \<Longrightarrow> charge w \<sigma> E = charge w \<sigma> F"
proof -
  assume "mset E = mset F"
  then have "mset (map f E) = mset (map f F)" for f :: "entry \<Rightarrow> nat" by simp
  then have "sum_list (map f E) = sum_list (map f F)" for f :: "entry \<Rightarrow> nat"
    by (metis sum_mset_sum_list)
  then show ?thesis by (simp add: charge_def)
qed

lemma owner_invI:
  assumes "distinct (map e_seq E)"
    and "\<And>s k. \<sigma> s = Some k \<Longrightarrow> \<exists>e \<in> set E. e_seq e = s \<and> e_kind e = k"
    and "\<And>e. e \<in> set E \<Longrightarrow> \<sigma> (e_seq e) = Some (e_kind e) \<or> \<sigma> (e_seq e) = None"
  shows "owner_inv \<sigma> E"
  using assms by (simp add: owner_inv_def)

lemma owner_inv_distinct: "owner_inv \<sigma> E \<Longrightarrow> distinct (map e_seq E)"
  by (simp add: owner_inv_def)

lemma owner_inv_slot: "owner_inv \<sigma> E \<Longrightarrow> \<sigma> s = Some k \<Longrightarrow> \<exists>e \<in> set E. e_seq e = s \<and> e_kind e = k"
  by (simp add: owner_inv_def)

lemma owner_inv_entry:
  "owner_inv \<sigma> E \<Longrightarrow> e \<in> set E \<Longrightarrow> \<sigma> (e_seq e) = Some (e_kind e) \<or> \<sigma> (e_seq e) = None"
  by (simp add: owner_inv_def)

lemma owner_inv_perm:
  assumes "mset E = mset F" and "owner_inv \<sigma> E"
  shows "owner_inv \<sigma> F"
proof (rule owner_invI)
  have "mset (map e_seq E) = mset (map e_seq F)" using assms(1) by simp
  then show "distinct (map e_seq F)"
    using mset_eq_imp_distinct_iff owner_inv_distinct [OF assms(2)] by blast
  have F: "set F = set E" using assms(1) mset_eq_setD by metis
  show "\<exists>e \<in> set F. e_seq e = s \<and> e_kind e = k" if "\<sigma> s = Some k" for s k
    unfolding F by (rule owner_inv_slot [OF assms(2) that])
  show "\<sigma> (e_seq e) = Some (e_kind e) \<or> \<sigma> (e_seq e) = None" if "e \<in> set F" for e
    using that unfolding F by (rule owner_inv_entry [OF assms(2)])
qed

lemma owner_inv_admit:
  assumes "owner_inv \<sigma> E" and "s \<notin> e_seq ` set E"
  shows "owner_inv (\<sigma>(s \<mapsto> k)) ((s, k, b, n) # E)"
proof (rule owner_invI)
  show "distinct (map e_seq ((s, k, b, n) # E))"
    using owner_inv_distinct [OF assms(1)] assms(2) by simp
  show "\<exists>e \<in> set ((s, k, b, n) # E). e_seq e = s' \<and> e_kind e = k'"
    if "(\<sigma>(s \<mapsto> k)) s' = Some k'" for s' k'
    using that owner_inv_slot [OF assms(1), of s' k'] by (cases "s' = s") auto
  show "(\<sigma>(s \<mapsto> k)) (e_seq e) = Some (e_kind e) \<or> (\<sigma>(s \<mapsto> k)) (e_seq e) = None"
    if "e \<in> set ((s, k, b, n) # E)" for e
    using that owner_inv_entry [OF assms(1), of e] assms(2) by (cases "e = (s, k, b, n)") auto
qed

lemma owner_inv_fresh:
  assumes "owner_inv \<sigma> E" and "s \<notin> e_seq ` set E"
  shows "\<sigma> s = None"
proof (cases "\<sigma> s")
  case (Some k)
  then show ?thesis using owner_inv_slot [OF assms(1)] assms(2) by force
qed

lemma owner_inv_Cons_notin: "owner_inv \<sigma> (e # E) \<Longrightarrow> e_seq e \<notin> e_seq ` set E"
  by (drule owner_inv_distinct) simp

lemma owner_inv_remove:
  assumes "owner_inv \<sigma> (e # E)"
  shows "owner_inv (\<sigma>(e_seq e := None)) E"
proof (rule owner_invI)
  show "distinct (map e_seq E)" using owner_inv_distinct [OF assms] by simp
  show "\<exists>e \<in> set E. e_seq e = s \<and> e_kind e = k" if "(\<sigma>(e_seq e := None)) s = Some k" for s k
    using that owner_inv_slot [OF assms, of s k] by (cases "s = e_seq e") auto
  show "(\<sigma>(e_seq e := None)) (e_seq e') = Some (e_kind e') \<or> (\<sigma>(e_seq e := None)) (e_seq e') = None"
    if "e' \<in> set E" for e'
    using owner_inv_entry [OF assms, of e'] that by (cases "e_seq e' = e_seq e") auto
qed

lemma owner_inv_stale:
  assumes "owner_inv \<sigma> (e # E)" and "\<sigma> (e_seq e) = None"
  shows "owner_inv \<sigma> E"
  using owner_inv_remove [OF assms(1)] assms(2) by (metis fun_upd_triv)

lemma owner_inv_kind:
  assumes "owner_inv \<sigma> (e # E)"
  shows "owner_inv (\<sigma>(e_seq e \<mapsto> k')) ((e_seq e, k', b', n') # E)"
  using owner_inv_admit [OF owner_inv_remove [OF assms], of "e_seq e" k' b' n']
    owner_inv_Cons_notin [OF assms] by simp

lemma owner_inv_empty: "distinct (map e_seq E) \<Longrightarrow> owner_inv (\<lambda>_. None) E"
  by (simp add: owner_inv_def)

lemma charge_empty [simp]: "charge w (\<lambda>_. None) E = 0"
  by (induction E) auto

section \<open>The ring and its owners\<close>

definition q_entries :: "('b, 's) QueuedBatch list \<Rightarrow> entry list" where
  "q_entries q = map (\<lambda>b. (qb_seq_id b, Queued, qb_byte_size b, qb_row_count b)) q"

definition m_entries :: "LeasedBatchMeta list \<Rightarrow> entry list" where
  "m_entries ms = map (\<lambda>m. (lm_seq_id m, InFlight, lm_byte_size m, lm_row_count m)) ms"

text \<open>A reservation is seen as \<open>(seq, bytes, rows)\<close>.\<close>

type_synonym reservation = "nat \<times> nat \<times> nat"

definition r_entries :: "reservation list \<Rightarrow> entry list" where
  "r_entries rs = map (\<lambda>(s, b, n). (s, Reserved, b, n)) rs"

lemma entries_simps [simp]:
  "q_entries [] = []" "q_entries (b # q) = (qb_seq_id b, Queued, qb_byte_size b, qb_row_count b) # q_entries q"
  "q_entries (q @ q') = q_entries q @ q_entries q'"
  "m_entries [] = []" "m_entries (m # ms) = (lm_seq_id m, InFlight, lm_byte_size m, lm_row_count m) # m_entries ms"
  "m_entries (ms @ ms') = m_entries ms @ m_entries ms'"
  "r_entries [] = []" "r_entries ((s, nb, nr) # rs) = (s, Reserved, nb, nr) # r_entries rs"
  "r_entries (rs @ rs') = r_entries rs @ r_entries rs'"
  by (simp_all add: q_entries_def m_entries_def r_entries_def)

lemma seqs_entries [simp]:
  "e_seq ` set (q_entries q) = qb_seq_id ` set q"
  "e_seq ` set (m_entries ms) = lm_seq_id ` set ms"
  "e_seq ` set (r_entries rs) = fst ` set rs"
  by (force simp: q_entries_def m_entries_def r_entries_def)+

lemma map_seq_entries [simp]:
  "map e_seq (q_entries q) = map qb_seq_id q"
  "map e_seq (m_entries ms) = map lm_seq_id ms"
  "map e_seq (r_entries rs) = map fst rs"
  by (auto simp: q_entries_def m_entries_def r_entries_def)

definition outstanding :: "LeasedBatchMeta list list \<Rightarrow> reservation list \<Rightarrow> entry list" where
  "outstanding ls rs = m_entries (concat ls) @ r_entries rs"

definition entries :: "('b, 's) SignalRing \<Rightarrow> LeasedBatchMeta list list \<Rightarrow> reservation list \<Rightarrow> entry list" where
  "entries r ls rs = q_entries (queue r) @ outstanding ls rs"

abbreviation view :: "('b, 's) SignalRing \<Rightarrow> slot_view" where
  "view r \<equiv> bt_get (slots r)"

text \<open>A lease is live while its slots are in flight; it is stale after a discard.\<close>

definition lease_live :: "slot_view \<Rightarrow> LeasedBatchMeta list \<Rightarrow> bool" where
  "lease_live \<sigma> ms \<longleftrightarrow> (\<exists>m \<in> set ms. \<sigma> (lm_seq_id m) \<noteq> None)"

definition lease_uniform :: "slot_view \<Rightarrow> LeasedBatchMeta list \<Rightarrow> bool" where
  "lease_uniform \<sigma> ms \<longleftrightarrow>
     ms \<noteq> [] \<and>
     ((\<forall>m \<in> set ms. \<sigma> (lm_seq_id m) \<noteq> None) \<or> (\<forall>m \<in> set ms. \<sigma> (lm_seq_id m) = None))"

definition count_live :: "slot_view \<Rightarrow> LeasedBatchMeta list list \<Rightarrow> nat" where
  "count_live \<sigma> ls = length (filter (lease_live \<sigma>) ls)"

lemma count_live_simps [simp]:
  "count_live \<sigma> [] = 0"
  "count_live \<sigma> (ms # ls) = (if lease_live \<sigma> ms then 1 else 0) + count_live \<sigma> ls"
  "count_live \<sigma> (ls @ ls') = count_live \<sigma> ls + count_live \<sigma> ls'"
  by (simp_all add: count_live_def)

lemma lease_cong:
  assumes "\<And>m. m \<in> set ms \<Longrightarrow> \<sigma> (lm_seq_id m) = None \<longleftrightarrow> \<tau> (lm_seq_id m) = None"
  shows "lease_live \<sigma> ms = lease_live \<tau> ms" and "lease_uniform \<sigma> ms = lease_uniform \<tau> ms"
  using assms by (auto simp: lease_live_def lease_uniform_def)

lemma count_live_cong:
  assumes "\<And>m. m \<in> set (concat ls) \<Longrightarrow> \<sigma> (lm_seq_id m) = None \<longleftrightarrow> \<tau> (lm_seq_id m) = None"
  shows "count_live \<sigma> ls = count_live \<tau> ls"
proof -
  have "filter (lease_live \<sigma>) ls = filter (lease_live \<tau>) ls"
    by (rule filter_cong) (use assms in \<open>auto intro!: lease_cong\<close>)
  then show ?thesis by (simp add: count_live_def)
qed

text \<open>
  The invariant of a ring with watermark \<open>c\<close>, leases \<open>ls\<close> and reservations \<open>rs\<close> outstanding.
\<close>

definition ring_inv ::
  "('b, 's) SignalRing \<Rightarrow> nat \<Rightarrow> LeasedBatchMeta list list \<Rightarrow> reservation list \<Rightarrow> bool" where
  "ring_inv r c ls rs \<longleftrightarrow>
     bt_inv (slots r) \<and>
     bt_inv (inflight_enqueued_at r) \<and>
     sorted_wrt (<) (map qb_seq_id (queue r)) \<and>
     owner_inv (view r) (entries r ls rs) \<and>
     (\<forall>b \<in> set (queue r). view r (qb_seq_id b) = Some Queued) \<and>
     (\<forall>ms \<in> set ls. lease_uniform (view r) ms) \<and>
     inflight_leases r = count_live (view r) ls \<and>
     bytes_in_flight r = charge e_bytes (view r) (entries r ls rs) \<and>
     rows_in_flight r = charge e_rows (view r) (entries r ls rs) \<and>
     (\<forall>s \<in> e_seq ` set (entries r ls rs). 1 \<le> s \<and> s < next_seq r) \<and>
     1 \<le> next_seq r \<and>
     c = watermark_candidate r \<and>
     evicted_unreclaimed_bytes r = [] \<and> unreclaimed_disk_bytes r = 0 \<and>
     bytes_in_flight r \<le> u64_max \<and> rows_in_flight r \<le> u64_max"

lemma ring_inv_new: "ring_inv ring_new 0 [] []"
  by (simp add: ring_inv_def ring_new_def entries_def outstanding_def owner_inv_def bt_inv_def
      bt_get_def watermark_candidate_def bt_first_def)

lemma view_entry:
  "ring_inv r c ls rs \<Longrightarrow> view r s = Some k \<Longrightarrow>
   \<exists>e \<in> set (entries r ls rs). e_seq e = s \<and> e_kind e = k"
  unfolding ring_inv_def owner_inv_def by blast

lemma view_range:
  assumes "ring_inv r c ls rs" and "view r s = Some k"
  shows "1 \<le> s" and "s < next_seq r"
proof -
  have "s \<in> e_seq ` set (entries r ls rs)" using view_entry [OF assms] by force
  then show "1 \<le> s" and "s < next_seq r" using assms(1) unfolding ring_inv_def by blast+
qed

text \<open>The watermark is exactly the end of the contiguous inactive prefix.\<close>

lemma candidate_below_active:
  assumes "bt_inv (slots r)" and "\<And>s k. view r s = Some k \<Longrightarrow> 1 \<le> s" and "view r s = Some k"
  shows "watermark_candidate r < s"
proof (cases "bt_first (slots r)")
  case None
  then have "view r = Map.empty" using assms(1) bt.first_None by blast
  with assms(3) show ?thesis by simp
next
  case (Some p)
  obtain a w where p: "p = (a, w)" by (cases p)
  have aw: "view r a = Some w" by (rule bt.first_get [OF assms(1)]) (simp add: Some p)
  have "a \<le> s" by (rule bt.first_least [OF assms(1) _ assms(3)]) (simp add: Some p)
  with assms(2) [OF aw] Some p show ?thesis by (simp add: watermark_candidate_def)
qed

lemma candidate_least:
  assumes inv: "bt_inv (slots r)" and above: "\<And>s k. view r s = Some k \<Longrightarrow> n < s" and "n < next_seq r"
  shows "n \<le> watermark_candidate r"
proof (cases "bt_first (slots r)")
  case None
  with assms(3) show ?thesis by (simp add: watermark_candidate_def)
next
  case (Some p)
  obtain a w where p: "p = (a, w)" by (cases p)
  have "view r a = Some w" by (rule bt.first_get [OF inv]) (simp add: Some p)
  then have "n < a" by (rule above)
  then show ?thesis using Some p by (simp add: watermark_candidate_def)
qed

lemma ring_inv_watermark_below:
  assumes "ring_inv r c ls rs" and "view r s = Some k"
  shows "c < s"
proof -
  have "bt_inv (slots r)" and c: "c = watermark_candidate r" using assms(1) by (auto simp: ring_inv_def)
  moreover have "1 \<le> s'" if "view r s' = Some k'" for s' k'
    using view_range [OF assms(1) that] by blast
  ultimately show ?thesis using candidate_below_active assms(2) by blast
qed

lemma ring_inv_watermark_next:
  assumes "ring_inv r c ls rs"
  shows "c < next_seq r"
proof (cases "bt_first (slots r)")
  case None
  then show ?thesis using assms by (simp add: ring_inv_def watermark_candidate_def)
next
  case (Some p)
  obtain a w where p: "p = (a, w)" by (cases p)
  have "view r a = Some w" using Some p assms bt.first_get by (auto simp: ring_inv_def)
  then have "a < next_seq r" using view_range assms by blast
  then show ?thesis using Some p assms by (simp add: ring_inv_def watermark_candidate_def)
qed

end
