(* ===== verification/RingSteps.thy ===== *)
theory RingSteps
  imports Ledger
begin

text \<open>
  What each operation of a signal ring does to the ledger: acknowledging or requeueing a lease,
  recording an eviction and discarding the ring keep \<open>ring_inv\<close> and never move the watermark
  backwards.
\<close>

section \<open>Frame\<close>

lemma ring_invI:
  assumes "bt_inv (slots r)" and "bt_inv (inflight_enqueued_at r)"
    and "sorted_wrt (<) (map qb_seq_id (queue r))"
    and "owner_inv (view r) (entries r ls rs)"
    and "\<And>b. b \<in> set (queue r) \<Longrightarrow> view r (qb_seq_id b) = Some Queued"
    and "\<And>ms. ms \<in> set ls \<Longrightarrow> lease_uniform (view r) ms"
    and "inflight_leases r = count_live (view r) ls"
    and "bytes_in_flight r = charge e_bytes (view r) (entries r ls rs)"
    and "rows_in_flight r = charge e_rows (view r) (entries r ls rs)"
    and "\<And>s. s \<in> e_seq ` set (entries r ls rs) \<Longrightarrow> 1 \<le> s \<and> s < next_seq r"
    and "1 \<le> next_seq r" and "c = watermark_candidate r"
    and "evicted_unreclaimed_bytes r = []" and "unreclaimed_disk_bytes r = 0"
    and "bytes_in_flight r \<le> u64_max" and "rows_in_flight r \<le> u64_max"
  shows "ring_inv r c ls rs"
  using assms unfolding ring_inv_def by blast

lemma ring_invD:
  assumes "ring_inv r c ls rs"
  shows "bt_inv (slots r)" and "bt_inv (inflight_enqueued_at r)"
    and "sorted_wrt (<) (map qb_seq_id (queue r))"
    and "owner_inv (view r) (entries r ls rs)"
    and "\<And>b. b \<in> set (queue r) \<Longrightarrow> view r (qb_seq_id b) = Some Queued"
    and "\<And>ms. ms \<in> set ls \<Longrightarrow> lease_uniform (view r) ms"
    and "inflight_leases r = count_live (view r) ls"
    and "bytes_in_flight r = charge e_bytes (view r) (entries r ls rs)"
    and "rows_in_flight r = charge e_rows (view r) (entries r ls rs)"
    and "\<And>s. s \<in> e_seq ` set (entries r ls rs) \<Longrightarrow> 1 \<le> s \<and> s < next_seq r"
    and "1 \<le> next_seq r" and "c = watermark_candidate r"
    and "evicted_unreclaimed_bytes r = []" and "unreclaimed_disk_bytes r = 0"
    and "bytes_in_flight r \<le> u64_max" and "rows_in_flight r \<le> u64_max"
  using assms unfolding ring_inv_def by blast+

text \<open>Only the slot table, the queue, the counters and the sequence counter matter.\<close>

lemma ring_inv_cong:
  assumes "ring_inv r c ls rs"
    and "queue r' = queue r" and "slots r' = slots r" and "next_seq r' = next_seq r"
    and "bt_inv (inflight_enqueued_at r')"
    and "inflight_leases r' = inflight_leases r" and "bytes_in_flight r' = bytes_in_flight r"
    and "rows_in_flight r' = rows_in_flight r"
    and "evicted_unreclaimed_bytes r' = evicted_unreclaimed_bytes r"
    and "unreclaimed_disk_bytes r' = unreclaimed_disk_bytes r"
  shows "ring_inv r' c ls rs"
proof -
  have "entries r' ls rs = entries r ls rs" by (simp add: entries_def assms(2))
  moreover have "watermark_candidate r' = watermark_candidate r"
    by (rule watermark_candidate_cong) (simp_all add: assms)
  ultimately show ?thesis using assms unfolding ring_inv_def by simp
qed

text \<open>The watermark after slots were removed is the new candidate, and it never moves back.\<close>

lemma candidate_mono:
  assumes "ring_inv r c ls rs" and "bt_inv (slots r')" and "next_seq r \<le> next_seq r'"
    and "\<And>s k. view r' s = Some k \<Longrightarrow> (\<exists>k'. view r s = Some k') \<or> next_seq r \<le> s"
  shows "c \<le> watermark_candidate r'"
proof (rule candidate_least [OF assms(2)])
  show "c < s" if "view r' s = Some k" for s k
    using assms(4) [OF that] ring_inv_watermark_below [OF assms(1)] ring_inv_watermark_next [OF assms(1)]
    by (meson order_less_le_trans)
  show "c < next_seq r'"
    using ring_inv_watermark_next [OF assms(1)] assms(3) by simp
qed

lemma advance_watermark_inv:
  assumes "c \<le> watermark_candidate r" and "ring_inv r (watermark_candidate r) ls rs"
  shows "ring_inv (fst (advance_watermark r c)) (snd (advance_watermark r c)) ls rs"
    and "c \<le> snd (advance_watermark r c)"
proof -
  have e: "fst (advance_watermark r c) = r"
    by (rule advance_watermark_none_evicted) (rule ring_invD(13) [OF assms(2)])
  have s: "snd (advance_watermark r c) = watermark_candidate r"
    using assms(1) by (simp add: snd_advance_watermark)
  show "ring_inv (fst (advance_watermark r c)) (snd (advance_watermark r c)) ls rs"
    unfolding e s by (rule assms(2))
  show "c \<le> snd (advance_watermark r c)" unfolding s by (rule assms(1))
qed

lemma entries_lease_split:
  "mset (entries r (xs @ ms # ys) rs) = mset (m_entries ms @ entries r (xs @ ys) rs)"
  by (simp add: entries_def outstanding_def)

section \<open>Acknowledging a lease\<close>

lemma lease_live_Cons [simp]:
  "lease_live \<sigma> (m # ms) \<longleftrightarrow> \<sigma> (lm_seq_id m) \<noteq> None \<or> lease_live \<sigma> ms"
  by (auto simp: lease_live_def)

lemma lease_live_Nil [simp]: "\<not> lease_live \<sigma> []"
  by (simp add: lease_live_def)

lemma ack_loop_spec:
  assumes "bt_inv (slots r)" and "bt_inv (inflight_enqueued_at r)"
    and "owner_inv (view r) (m_entries ms @ E)"
    and "ab + charge e_bytes (view r) (m_entries ms) \<le> u64_max"
    and "ar + charge e_rows (view r) (m_entries ms) \<le> u64_max"
  shows "\<exists>sl inf. ack_loop ms (r, ab, ar, any) =
      (r\<lparr>slots := sl, inflight_enqueued_at := inf\<rparr>,
       ab + charge e_bytes (view r) (m_entries ms), ar + charge e_rows (view r) (m_entries ms),
       any \<or> lease_live (view r) ms) \<and>
    bt_inv sl \<and> bt_inv inf \<and> owner_inv (bt_get sl) E \<and>
    bt_get sl = (\<lambda>s. if s \<in> lm_seq_id ` set ms then None else view r s)"
  using assms
proof (induction ms arbitrary: r ab ar any)
  case Nil
  then show ?case by (intro exI [of _ "slots r"] exI [of _ "inflight_enqueued_at r"]) simp
next
  case (Cons m ms)
  let ?s = "lm_seq_id m"
  let ?r = "r\<lparr>inflight_enqueued_at := bt_remove ?s (inflight_enqueued_at r),
              slots := bt_remove ?s (slots r)\<rparr>"
  let ?live = "view r ?s \<noteq> None"
  let ?ab = "if ?live then ab + lm_byte_size m else ab"
  let ?ar = "if ?live then ar + lm_row_count m else ar"
  have own: "owner_inv (view r) ((?s, InFlight, lm_byte_size m, lm_row_count m) # m_entries ms @ E)"
    using Cons.prems(3) by simp
  have rm: "bt_get (bt_remove ?s (slots r)) = (view r)(?s := None)"
    using Cons.prems(1) by (simp add: bt_get_bt_remove)
  then have v: "view ?r = (view r)(?s := None)" by simp
  have notin: "?s \<notin> lm_seq_id ` set ms"
    using owner_inv_Cons_notin [OF own] by (simp add: image_Un)
  have ch: "charge w (view ?r) (m_entries ms) = charge w (view r) (m_entries ms)" for w
    unfolding v using notin by simp
  have step: "ack_loop (m # ms) (r, ab, ar, any) = ack_loop ms (?r, ?ab, ?ar, any \<or> ?live)"
    using owner_inv_entry [OF own, of "(?s, InFlight, lm_byte_size m, lm_row_count m)"] Cons.prems(4,5)
    by (auto simp: Let_def sat_simps)
  have "lease_live (view ?r) ms = lease_live (view r) ms"
    by (rule lease_cong) (use notin v in \<open>auto simp: image_iff\<close>)
  moreover have "\<exists>sl inf. ack_loop ms (?r, ?ab, ?ar, any \<or> ?live) =
      (?r\<lparr>slots := sl, inflight_enqueued_at := inf\<rparr>,
       ?ab + charge e_bytes (view ?r) (m_entries ms), ?ar + charge e_rows (view ?r) (m_entries ms),
       (any \<or> ?live) \<or> lease_live (view ?r) ms) \<and>
    bt_inv sl \<and> bt_inv inf \<and> owner_inv (bt_get sl) E \<and>
    bt_get sl = (\<lambda>s. if s \<in> lm_seq_id ` set ms then None else view ?r s)"
  proof (rule Cons.IH)
    show "bt_inv (slots ?r)" and "bt_inv (inflight_enqueued_at ?r)"
      using Cons.prems(1,2) by (simp_all add: bt_inv_bt_remove)
    show "owner_inv (view ?r) (m_entries ms @ E)"
      unfolding v using owner_inv_remove [OF own] by simp
    show "?ab + charge e_bytes (view ?r) (m_entries ms) \<le> u64_max"
      and "?ar + charge e_rows (view ?r) (m_entries ms) \<le> u64_max"
      unfolding ch using Cons.prems(4,5) by (auto split: if_splits)
  qed
  then obtain sl inf where
    "ack_loop ms (?r, ?ab, ?ar, any \<or> ?live) =
      (?r\<lparr>slots := sl, inflight_enqueued_at := inf\<rparr>,
       ?ab + charge e_bytes (view ?r) (m_entries ms), ?ar + charge e_rows (view ?r) (m_entries ms),
       (any \<or> ?live) \<or> lease_live (view ?r) ms)"
    and "bt_inv sl" "bt_inv inf" "owner_inv (bt_get sl) E"
    and "bt_get sl = (\<lambda>s. if s \<in> lm_seq_id ` set ms then None else view ?r s)" by blast
  ultimately show ?case
    unfolding step ch
    by (intro exI [of _ sl] exI [of _ inf]) (auto simp: rm fun_eq_iff)
qed


text \<open>Removing the slots of one lease: what stays of the ledger.\<close>

lemma lease_removed:
  assumes "ring_inv r c (xs @ ms # ys) rs"
    and "\<And>s. \<tau> s = (if s \<in> lm_seq_id ` set ms then None else view r s)"
  shows "charge w \<tau> (entries r (xs @ ys) rs) = charge w (view r) (entries r (xs @ ys) rs)"
    and "charge w (view r) (entries r (xs @ ms # ys) rs) =
         charge w (view r) (m_entries ms) + charge w (view r) (entries r (xs @ ys) rs)"
    and "count_live \<tau> (xs @ ys) = count_live (view r) (xs @ ys)"
    and "l \<in> set (xs @ ys) \<Longrightarrow> lease_uniform \<tau> l = lease_uniform (view r) l"
    and "b \<in> set (queue r) \<Longrightarrow> \<tau> (qb_seq_id b) = view r (qb_seq_id b)"
proof -
  have "distinct (map e_seq (m_entries ms @ entries r (xs @ ys) rs))"
    using owner_inv_distinct [OF owner_inv_perm [OF entries_lease_split ring_invD(4) [OF assms(1)]]] .
  then have disj: "lm_seq_id ` set ms \<inter> e_seq ` set (entries r (xs @ ys) rs) = {}" by simp
  have ent: "e_seq ` set (entries r (xs @ ys) rs) =
      qb_seq_id ` set (queue r) \<union> lm_seq_id ` set (concat (xs @ ys)) \<union> fst ` set rs"
    by (simp add: entries_def outstanding_def image_Un Un_assoc)
  show "charge w \<tau> (entries r (xs @ ys) rs) = charge w (view r) (entries r (xs @ ys) rs)"
    by (rule charge_cong) (use disj assms(2) in auto)
  show "charge w (view r) (entries r (xs @ ms # ys) rs) =
         charge w (view r) (m_entries ms) + charge w (view r) (entries r (xs @ ys) rs)"
    using charge_perm [OF entries_lease_split, of w "view r" r xs ms ys rs] by simp
  have m: "\<tau> (lm_seq_id m) = view r (lm_seq_id m)" if "m \<in> set (concat (xs @ ys))" for m
  proof -
    have "lm_seq_id m \<in> e_seq ` set (entries r (xs @ ys) rs)" unfolding ent using that by blast
    then have "lm_seq_id m \<notin> lm_seq_id ` set ms" using disj by blast
    then show ?thesis by (simp add: assms(2))
  qed
  show "count_live \<tau> (xs @ ys) = count_live (view r) (xs @ ys)"
    by (rule count_live_cong) (simp only: m)
  show "lease_uniform \<tau> l = lease_uniform (view r) l" if "l \<in> set (xs @ ys)"
  proof (rule lease_cong)
    fix x assume "x \<in> set l"
    then have "x \<in> set (concat (xs @ ys))" using that by auto
    then show "\<tau> (lm_seq_id x) = None \<longleftrightarrow> view r (lm_seq_id x) = None" by (simp only: m)
  qed
  show "\<tau> (qb_seq_id b) = view r (qb_seq_id b)" if "b \<in> set (queue r)"
    using that disj unfolding assms(2) ent by auto
qed

lemma ack_entries_inv:
  assumes inv: "ring_inv r c (xs @ ms # ys) rs"
    and ack: "ack_entries ms r c = (r', c', rows)"
  shows "ring_inv r' c' (xs @ ys) rs" and "c \<le> c'"
    and "rows = charge e_rows (view r) (m_entries ms)"
    and "view r' = (\<lambda>s. if s \<in> lm_seq_id ` set ms then None else view r s)"
    and "queue r' = queue r" and "next_seq r' = next_seq r"
proof -
  note D = ring_invD [OF inv]
  let ?E = "entries r (xs @ ys) rs"
  have own: "owner_inv (view r) (m_entries ms @ ?E)"
    by (rule owner_inv_perm [OF entries_lease_split D(4)])
  note split = lease_removed(2) [OF inv refl]
  have fit: "0 + charge e_bytes (view r) (m_entries ms) \<le> u64_max"
    "0 + charge e_rows (view r) (m_entries ms) \<le> u64_max"
    using D(8,9,15,16) split by simp_all
  obtain sl inf where loop: "ack_loop ms (r, 0, 0, False) =
      (r\<lparr>slots := sl, inflight_enqueued_at := inf\<rparr>,
       charge e_bytes (view r) (m_entries ms), charge e_rows (view r) (m_entries ms),
       lease_live (view r) ms)"
    and sl: "bt_inv sl" and inf: "bt_inv inf" and ow: "owner_inv (bt_get sl) ?E"
    and vw: "bt_get sl = (\<lambda>s. if s \<in> lm_seq_id ` set ms then None else view r s)"
    using ack_loop_spec [OF D(1,2) own fit, of False] by auto
  note vw' = fun_cong [OF vw]
  let ?r = "r\<lparr>slots := sl, inflight_enqueued_at := inf\<rparr>"
  let ?r2 = "?r\<lparr>bytes_in_flight := bytes_in_flight r - charge e_bytes (view r) (m_entries ms),
                rows_in_flight := rows_in_flight r - charge e_rows (view r) (m_entries ms),
                inflight_leases := inflight_leases r - (if lease_live (view r) ms then 1 else 0)\<rparr>"
  have E: "entries ?r2 (xs @ ys) rs = ?E" by (simp add: entries_def)
  have inv2: "ring_inv ?r2 (watermark_candidate ?r2) (xs @ ys) rs"
  proof (rule ring_invI)
    show "owner_inv (view ?r2) (entries ?r2 (xs @ ys) rs)" unfolding E using ow by simp
    show "view ?r2 (qb_seq_id b) = Some Queued" if "b \<in> set (queue ?r2)" for b
      using that lease_removed(5) [OF inv vw'] D(5) by simp
    show "lease_uniform (view ?r2) l" if "l \<in> set (xs @ ys)" for l
      using that lease_removed(4) [OF inv vw' that] D(6) by auto
    show "inflight_leases ?r2 = count_live (view ?r2) (xs @ ys)"
      using D(7) lease_removed(3) [OF inv vw'] by simp
    show "bytes_in_flight ?r2 = charge e_bytes (view ?r2) (entries ?r2 (xs @ ys) rs)"
      and "rows_in_flight ?r2 = charge e_rows (view ?r2) (entries ?r2 (xs @ ys) rs)"
      unfolding E using D(8,9) split lease_removed(1) [OF inv vw'] by simp_all
    show "1 \<le> s \<and> s < next_seq ?r2" if "s \<in> e_seq ` set (entries ?r2 (xs @ ys) rs)" for s
    proof -
      have "set ?E \<subseteq> set (entries r (xs @ ms # ys) rs)" by (auto simp: entries_def outstanding_def)
      then show ?thesis using D(10) [of s] that unfolding E by auto
    qed
  qed (use D sl inf in simp_all)
  have mono: "c \<le> watermark_candidate ?r2"
    by (rule candidate_mono [OF inv]) (use sl vw in \<open>auto split: if_splits\<close>)
  have res: "(r', c', rows) = (if lease_live (view r) ms
      then (fst (advance_watermark ?r2 c), snd (advance_watermark ?r2 c), charge e_rows (view r) (m_entries ms))
      else (?r, c, charge e_rows (view r) (m_entries ms)))"
    using ack by (cases "lease_live (view r) ms") (auto simp: ack_entries_def loop case_prod_beta)
  show rows: "rows = charge e_rows (view r) (m_entries ms)" using res by (simp split: if_splits)
  show "view r' = (\<lambda>s. if s \<in> lm_seq_id ` set ms then None else view r s)"
    and "queue r' = queue r" and "next_seq r' = next_seq r"
    using res vw by (simp_all split: if_splits)
  show "ring_inv r' c' (xs @ ys) rs" and "c \<le> c'"
  proof (atomize (full), cases "lease_live (view r) ms")
    case True
    then show "ring_inv r' c' (xs @ ys) rs \<and> c \<le> c'"
      using res advance_watermark_inv [OF mono inv2] by simp
  next
    case False
    then have z: "charge w (view r) (m_entries ms) = 0" for w
      by (induction ms) (auto simp: lease_live_def)
    have "bt_get sl = view r" unfolding vw using False by (auto simp: lease_live_def fun_eq_iff)
    then have "sl = slots r" using bt_ext sl D(1) by blast
    then have "watermark_candidate ?r2 = c" and "?r2 = ?r"
      using D(12) z False by (simp_all add: watermark_candidate_def split: option.split)
    then show "ring_inv r' c' (xs @ ys) rs \<and> c \<le> c'" using inv2 res False by simp
  qed
qed

section \<open>Requeueing a lease\<close>

lemma mset_q_entries_enqueue:
  "mset (q_entries (enqueue_ordered x q)) =
   add_mset (qb_seq_id x, Queued, qb_byte_size x, qb_row_count x) (mset (q_entries q))"
  by (simp add: q_entries_def mset_enqueue_ordered)

lemma candidate_dom_cong:
  assumes "bt_inv (slots r)" and "bt_inv (slots r')" and "next_seq r' = next_seq r"
    and dom: "\<And>s. view r' s = None \<longleftrightarrow> view r s = None"
  shows "watermark_candidate r' = watermark_candidate r"
proof -
  have "set (map fst (slots r')) = set (map fst (slots r))"
    using dom unfolding bt_get_None_iff by auto
  then have keys: "map fst (slots r') = map fst (slots r)"
    using assms(1,2) unfolding bt_inv_def by (rule strict_sorted_equal [rotated 2])
  show ?thesis
  proof (cases "slots r")
    case Nil
    with keys assms(3) show ?thesis by (simp add: watermark_candidate_def bt_first_def)
  next
    case (Cons p m)
    with keys obtain p' m' where "slots r' = p' # m'" "fst p' = fst p" by (cases "slots r'") auto
    with Cons show ?thesis by (simp add: watermark_candidate_def bt_first_def case_prod_beta)
  qed
qed

abbreviation weighs :: "(entry \<Rightarrow> nat) \<Rightarrow> bool" where
  "weighs w \<equiv> (\<forall>s k k' b n. w (s, k, b, n) = w (s, k', b, n))"

text \<open>
  What the requeue loop leaves in the slot table and the queue, for the pairs \<open>zs\<close> of a lease,
  other entries \<open>F\<close>, the slot view \<open>\<sigma>\<close> and the queue \<open>q0\<close> it started from.
\<close>

definition requeue_post ::
  "nat \<Rightarrow> instant option \<Rightarrow> (('b, 's) BatchPayload \<times> LeasedBatchMeta) list \<Rightarrow> entry list \<Rightarrow> slot_view \<Rightarrow>
   ('b, 's) QueuedBatch list \<Rightarrow> LeaseSlotState btree \<Rightarrow> ('b, 's) QueuedBatch list \<Rightarrow> bool" where
  "requeue_post att at zs F \<sigma> q0 sl q \<longleftrightarrow>
     bt_inv sl \<and> owner_inv (bt_get sl) (q_entries q @ F) \<and>
     sorted_wrt (<) (map qb_seq_id q) \<and> (\<forall>b \<in> set q. bt_get sl (qb_seq_id b) = Some Queued) \<and>
     (\<forall>s. bt_get sl s = (if s \<in> lm_seq_id ` snd ` set zs \<and> \<sigma> s \<noteq> None then Some Queued else \<sigma> s)) \<and>
     mset q = mset q0 + mset (map (\<lambda>(p, m). requeue_item att at p m)
                                  (filter (\<lambda>z. \<sigma> (lm_seq_id (snd z)) \<noteq> None) zs)) \<and>
     (\<forall>w. weighs w \<longrightarrow> charge w (bt_get sl) (q_entries q) =
          charge w \<sigma> (m_entries (map snd zs)) + charge w \<sigma> (q_entries q0))"

lemma requeue_post_stale:
  assumes "\<sigma> (lm_seq_id m) = None" and "requeue_post att at zs F \<sigma> q0 sl q"
  shows "requeue_post att at ((p, m) # zs) F \<sigma> q0 sl q"
  using assms unfolding requeue_post_def by auto

lemma requeue_post_live:
  assumes k: "\<sigma> (lm_seq_id m) = Some k" and notin: "lm_seq_id m \<notin> lm_seq_id ` snd ` set zs"
    "lm_seq_id m \<notin> qb_seq_id ` set q0"
    and x: "x = requeue_item att at p m"
    and post: "requeue_post att at zs F (\<sigma>(lm_seq_id m \<mapsto> Queued)) (enqueue_ordered x q0) sl q"
  shows "requeue_post att at ((p, m) # zs) F \<sigma> q0 sl q"
proof -
  let ?s = "lm_seq_id m" and ?\<tau> = "\<sigma>(lm_seq_id m \<mapsto> Queued)"
  have same: "?\<tau> (lm_seq_id (snd y)) = \<sigma> (lm_seq_id (snd y))" if "y \<in> set zs" for y
  proof -
    have "lm_seq_id (snd y) \<noteq> ?s" using notin(1) that by (metis imageI)
    then show ?thesis by simp
  qed
  have filt: "filter (\<lambda>z. ?\<tau> (lm_seq_id (snd z)) \<noteq> None) zs =
      filter (\<lambda>z. \<sigma> (lm_seq_id (snd z)) \<noteq> None) zs"
    by (rule filter_cong) (use same in auto)
  have ch: "charge w ?\<tau> (m_entries (map snd zs)) = charge w \<sigma> (m_entries (map snd zs))" for w
    using notin(1) by simp
  have chq: "charge w ?\<tau> (q_entries (enqueue_ordered x q0)) =
      w (?s, InFlight, lm_byte_size m, lm_row_count m) + charge w \<sigma> (q_entries q0)"
    if "weighs w" for w
  proof -
    have "charge w ?\<tau> (q_entries (enqueue_ordered x q0)) =
        charge w ?\<tau> ((?s, Queued, lm_byte_size m, lm_row_count m) # q_entries q0)"
      by (rule charge_perm) (simp add: mset_q_entries_enqueue x requeue_item_def)
    also have "\<dots> = w (?s, InFlight, lm_byte_size m, lm_row_count m) + charge w \<sigma> (q_entries q0)"
      using notin(2) that by simp
    finally show ?thesis .
  qed
  note P = post [unfolded requeue_post_def filt ch]
  show ?thesis unfolding requeue_post_def
  proof (intro conjI allI impI)
    show "bt_get sl s = (if s \<in> lm_seq_id ` snd ` set ((p, m) # zs) \<and> \<sigma> s \<noteq> None
      then Some Queued else \<sigma> s)" for s
      using P k by (cases "s = ?s") auto
    show "mset q = mset q0 + mset (map (\<lambda>(p, m). requeue_item att at p m)
        (filter (\<lambda>z. \<sigma> (lm_seq_id (snd z)) \<noteq> None) ((p, m) # zs)))"
      using P k by (simp add: mset_enqueue_ordered x)
    show "charge w (bt_get sl) (q_entries q) =
        charge w \<sigma> (m_entries (map snd ((p, m) # zs))) + charge w \<sigma> (q_entries q0)"
      if w: "weighs w" for w
    proof -
      have "charge w (bt_get sl) (q_entries q) =
          charge w \<sigma> (m_entries (map snd zs)) + charge w ?\<tau> (q_entries (enqueue_ordered x q0))"
        using P w by blast
      then show ?thesis using chq [OF w] k by simp
    qed
  qed (use P in blast)+
qed

lemma requeue_loop_spec:
  assumes "bt_inv (slots r)" and "bt_inv (inflight_enqueued_at r)"
    and "owner_inv (view r) (m_entries (map snd zs) @ q_entries (queue r) @ F)"
    and "sorted_wrt (<) (map qb_seq_id (queue r))"
    and "\<forall>b \<in> set (queue r). view r (qb_seq_id b) = Some Queued"
  shows "\<exists>sl inf q. requeue_loop att at zs (r, any) =
      (r\<lparr>slots := sl, inflight_enqueued_at := inf, queue := q\<rparr>, any \<or> lease_live (view r) (map snd zs)) \<and>
    bt_inv inf \<and> requeue_post att at zs F (view r) (queue r) sl q"
  using assms
proof (induction zs arbitrary: r any)
  case Nil
  then show ?case
    by (intro exI [of _ "slots r"] exI [of _ "inflight_enqueued_at r"] exI [of _ "queue r"])
      (simp add: requeue_post_def)
next
  case (Cons z zs)
  obtain p m where z: "z = (p, m)" by (cases z)
  let ?s = "lm_seq_id m" and ?ms = "map snd zs" and ?x = "requeue_item att at p m"
  let ?r1 = "r\<lparr>inflight_enqueued_at := bt_remove ?s (inflight_enqueued_at r)\<rparr>"
  let ?r2 = "?r1\<lparr>slots := bt_insert ?s Queued (slots r), queue := enqueue_ordered ?x (queue r)\<rparr>"
  let ?e = "(?s, InFlight, lm_byte_size m, lm_row_count m)"
  have inf1: "bt_inv (bt_remove ?s (inflight_enqueued_at r))"
    using Cons.prems(2) by (simp add: bt_inv_bt_remove)
  have own: "owner_inv (view r) (?e # m_entries ?ms @ q_entries (queue r) @ F)"
    using Cons.prems(3) z by simp
  have notin: "?s \<notin> lm_seq_id ` snd ` set zs" "?s \<notin> qb_seq_id ` set (queue r)"
    using owner_inv_Cons_notin [OF own] by (auto simp: image_Un)
  have xs: "qb_seq_id ?x = ?s" "qb_byte_size ?x = lm_byte_size m" "qb_row_count ?x = lm_row_count m"
    by (simp_all add: requeue_item_def)
  show ?case
  proof (cases "view r ?s")
    case None
    have "owner_inv (view r) (m_entries ?ms @ q_entries (queue r) @ F)"
      using owner_inv_stale [OF own] None by simp
    then obtain sl inf q where "requeue_loop att at zs (?r1, any) =
        (?r1\<lparr>slots := sl, inflight_enqueued_at := inf, queue := q\<rparr>, any \<or> lease_live (view r) ?ms)"
      and "bt_inv inf" and "requeue_post att at zs F (view r) (queue r) sl q"
      using Cons.IH [of ?r1 any] Cons.prems inf1 by auto
    moreover from this(3) None have "requeue_post att at (z # zs) F (view r) (queue r) sl q"
      unfolding z by (rule requeue_post_stale [rotated])
    ultimately show ?thesis
      by (intro exI [of _ sl] exI [of _ inf] exI [of _ q]) (simp add: z None)
  next
    case (Some k)
    then have k: "view r ?s = Some InFlight" using owner_inv_entry [OF own, of ?e] by auto
    have v: "bt_get (bt_insert ?s Queued (slots r)) = (view r)(?s \<mapsto> Queued)"
      by (simp add: bt_get_bt_insert)
    have v2: "view ?r2 = (view r)(?s \<mapsto> Queued)" "queue ?r2 = enqueue_ordered ?x (queue r)"
      using v by simp_all
    have kind: "owner_inv ((view r)(?s \<mapsto> Queued))
        ((?s, Queued, lm_byte_size m, lm_row_count m) # m_entries ?ms @ q_entries (queue r) @ F)"
      using owner_inv_kind [OF own, of Queued "lm_byte_size m" "lm_row_count m"] by simp
    have "owner_inv (view ?r2) (m_entries ?ms @ q_entries (queue ?r2) @ F)"
      unfolding v2 by (rule owner_inv_perm [OF _ kind]) (simp add: mset_q_entries_enqueue xs)
    moreover have "sorted_wrt (<) (map qb_seq_id (queue ?r2))"
      using sorted_enqueue_ordered [OF Cons.prems(4), of ?x] notin(2) xs(1) by simp
    moreover have "\<forall>b \<in> set (queue ?r2). view ?r2 (qb_seq_id b) = Some Queued"
      unfolding v2 using Cons.prems(5) by (auto simp: xs)
    moreover have "bt_inv (slots ?r2)" and "bt_inv (inflight_enqueued_at ?r2)"
      using Cons.prems(1) inf1 by (simp_all add: bt_inv_bt_insert)
    ultimately have "\<exists>sl inf q. requeue_loop att at zs (?r2, True) =
        (?r2\<lparr>slots := sl, inflight_enqueued_at := inf, queue := q\<rparr>, True \<or> lease_live (view ?r2) ?ms) \<and>
      bt_inv inf \<and> requeue_post att at zs F (view ?r2) (queue ?r2) sl q"
      by (intro Cons.IH)
    then obtain sl inf q where "requeue_loop att at zs (?r2, True) =
        (?r2\<lparr>slots := sl, inflight_enqueued_at := inf, queue := q\<rparr>, True)"
      and "bt_inv inf"
      and post: "requeue_post att at zs F ((view r)(?s \<mapsto> Queued)) (enqueue_ordered ?x (queue r)) sl q"
      unfolding v2 simp_thms by blast
    moreover have "requeue_post att at (z # zs) F (view r) (queue r) sl q"
      unfolding z by (rule requeue_post_live [OF _ notin _ post]) (simp_all add: k)
    ultimately show ?thesis
      by (intro exI [of _ sl] exI [of _ inf] exI [of _ q]) (simp add: z k Let_def)
  qed
qed

lemma requeue_at_head_inv:
  assumes inv: "ring_inv r c (xs @ ms # ys) rs" and len: "length payloads = length ms"
    and r': "r' = requeue_at_head payloads ms att at r"
  shows "ring_inv r' c (xs @ ys) rs"
    and "\<And>s. view r' s = (if s \<in> lm_seq_id ` set ms \<and> view r s \<noteq> None then Some Queued else view r s)"
    and "mset (queue r') = mset (queue r) + mset (map (\<lambda>(p, m). requeue_item att at p m)
           (filter (\<lambda>z. view r (lm_seq_id (snd z)) \<noteq> None) (zip payloads ms)))"
    and "next_seq r' = next_seq r"
proof -
  note D = ring_invD [OF inv]
  let ?zs = "rev (zip payloads ms)" and ?F = "outstanding (xs @ ys) rs"
  have snd: "map snd ?zs = rev ms" using len by (simp add: rev_map [symmetric])
  have me: "mset (m_entries (rev ms)) = mset (m_entries ms)" by (simp add: m_entries_def)
  have "owner_inv (view r) (m_entries (map snd ?zs) @ q_entries (queue r) @ ?F)"
    unfolding snd by (rule owner_inv_perm [OF _ D(4)])
      (use me in \<open>simp add: entries_def outstanding_def\<close>)
  then obtain sl inf q where loop: "requeue_loop att at ?zs (r, False) =
      (r\<lparr>slots := sl, inflight_enqueued_at := inf, queue := q\<rparr>, lease_live (view r) (rev ms))"
    and inf: "bt_inv inf" and post: "requeue_post att at ?zs ?F (view r) (queue r) sl q"
    using requeue_loop_spec [OF D(1,2) _ D(3), of ?zs ?F att at False] D(5) unfolding snd by auto
  note P = post [unfolded requeue_post_def snd]
  have live: "lease_live (view r) (rev ms) = lease_live (view r) ms" by (simp add: lease_live_def)
  let ?r2 = "r\<lparr>slots := sl, inflight_enqueued_at := inf, queue := q,
                inflight_leases := inflight_leases r - (if lease_live (view r) ms then 1 else 0)\<rparr>"
  have r2: "r' = ?r2" unfolding r' by (simp add: requeue_at_head_def loop live)
  have sl: "bt_get sl s = (if s \<in> lm_seq_id ` set ms \<and> view r s \<noteq> None then Some Queued else view r s)" for s
  proof -
    have "snd ` set ?zs = set ms" using snd by (metis set_map set_rev)
    then show ?thesis using P by simp
  qed
  then have dom: "bt_get sl s = None \<longleftrightarrow> view r s = None" for s by simp
  have E: "entries ?r2 (xs @ ys) rs = q_entries q @ ?F" by (simp add: entries_def)
  have total: "charge w (bt_get sl) (q_entries q @ ?F) = charge w (view r) (entries r (xs @ ms # ys) rs)"
    if "weighs w" for w
  proof -
    have "charge w (bt_get sl) (q_entries q) =
        charge w (view r) (m_entries ms) + charge w (view r) (q_entries (queue r))"
      using P that charge_perm [OF me] by simp
    moreover have "charge w (bt_get sl) ?F = charge w (view r) ?F"
      by (rule charge_cong) (simp add: dom)
    moreover have "charge w (view r) (entries r (xs @ ms # ys) rs) =
        charge w (view r) (m_entries ms @ entries r (xs @ ys) rs)"
      by (rule charge_perm [OF entries_lease_split])
    ultimately show ?thesis by (simp add: entries_def)
  qed
  have cand: "watermark_candidate ?r2 = watermark_candidate r"
    by (rule candidate_dom_cong) (use D(1) P dom in simp_all)
  show "ring_inv r' c (xs @ ys) rs" unfolding r2
  proof (rule ring_invI)
    show "owner_inv (view ?r2) (entries ?r2 (xs @ ys) rs)" unfolding E using P by simp
    show "view ?r2 (qb_seq_id b) = Some Queued" if "b \<in> set (queue ?r2)" for b
    proof -
      have "\<forall>b \<in> set q. bt_get sl (qb_seq_id b) = Some Queued" using P by blast
      with that show ?thesis by simp
    qed
    show "lease_uniform (view ?r2) l" if "l \<in> set (xs @ ys)" for l
      using D(6) [of l] that lease_cong(2) [of l "bt_get sl" "view r"] dom by auto
    show "inflight_leases ?r2 = count_live (view ?r2) (xs @ ys)"
      using D(7) count_live_cong [of "xs @ ys" "bt_get sl" "view r"] dom by simp
    show "bytes_in_flight ?r2 = charge e_bytes (view ?r2) (entries ?r2 (xs @ ys) rs)"
      and "rows_in_flight ?r2 = charge e_rows (view ?r2) (entries ?r2 (xs @ ys) rs)"
      unfolding E using D(8,9) total by simp_all
    show "1 \<le> s \<and> s < next_seq ?r2" if "s \<in> e_seq ` set (entries ?r2 (xs @ ys) rs)" for s
    proof -
      have "mset q = mset (queue r) + mset (map (\<lambda>(p, m). requeue_item att at p m)
           (filter (\<lambda>z. view r (lm_seq_id (snd z)) \<noteq> None) ?zs))" using P by blast
      then have "set q \<subseteq> set (queue r) \<union> (\<lambda>(p, m). requeue_item att at p m) ` set ?zs"
        by (auto dest!: arg_cong [where f = set_mset])
      then have "qb_seq_id ` set q \<subseteq> qb_seq_id ` set (queue r) \<union> lm_seq_id ` snd ` set ?zs"
        by (force simp: requeue_item_def)
      moreover have "snd ` set ?zs = set ms" using snd by (metis set_map set_rev)
      ultimately have "s \<in> e_seq ` set (entries r (xs @ ms # ys) rs)"
        using that unfolding E by (auto simp: entries_def outstanding_def image_Un)
      then show ?thesis using D(10) by simp
    qed
    show "c = watermark_candidate ?r2" using D(12) cand by simp
  qed (use D inf P in simp_all)
  show "view r' s = (if s \<in> lm_seq_id ` set ms \<and> view r s \<noteq> None then Some Queued else view r s)" for s
    unfolding r2 using sl by simp
  show "next_seq r' = next_seq r" unfolding r2 by simp
  have "mset (map f (filter Q (rev l))) = mset (map f (filter Q l))" for f :: "('a, 'b) BatchPayload \<times> LeasedBatchMeta \<Rightarrow> ('a, 'b) QueuedBatch" and Q l
    by (simp add: mset_filter)
  then show "mset (queue r') = mset (queue r) + mset (map (\<lambda>(p, m). requeue_item att at p m)
           (filter (\<lambda>z. view r (lm_seq_id (snd z)) \<noteq> None) (zip payloads ms)))"
    unfolding r2 using P by simp
qed

section \<open>Leasing a prefix of the queue\<close>

definition lease_meta :: "('b, 's) QueuedBatch \<Rightarrow> LeasedBatchMeta" where
  "lease_meta b = \<lparr>lm_seq_id = qb_seq_id b, lm_byte_size = qb_byte_size b, lm_row_count = qb_row_count b,
     lm_enqueued_at = qb_enqueued_at b, lm_first_failed_at = qb_first_failed_at b\<rparr>"

lemma lease_meta_simps [simp]:
  "lm_seq_id (lease_meta b) = qb_seq_id b" "lm_byte_size (lease_meta b) = qb_byte_size b"
  "lm_row_count (lease_meta b) = qb_row_count b" "lm_enqueued_at (lease_meta b) = qb_enqueued_at b"
  "lm_first_failed_at (lease_meta b) = qb_first_failed_at b"
  by (simp_all add: lease_meta_def)

lemma m_entries_lease_meta:
  "m_entries (map lease_meta ps) = map (\<lambda>b. (qb_seq_id b, InFlight, qb_byte_size b, qb_row_count b)) ps"
  by (simp add: m_entries_def)

lemma owner_inv_lease:
  assumes "owner_inv \<sigma> (q_entries ps @ E)"
  shows "owner_inv (\<lambda>s. if s \<in> qb_seq_id ` set ps then Some InFlight else \<sigma> s)
    (m_entries (map lease_meta ps) @ E)"
proof (rule owner_invI)
  have d: "distinct (map e_seq (q_entries ps @ E))" by (rule owner_inv_distinct [OF assms])
  then show "distinct (map e_seq (m_entries (map lease_meta ps) @ E))" by (simp add: comp_def)
  show "\<exists>e \<in> set (m_entries (map lease_meta ps) @ E). e_seq e = s \<and> e_kind e = k"
    if "(if s \<in> qb_seq_id ` set ps then Some InFlight else \<sigma> s) = Some k" for s k
  proof (cases "s \<in> qb_seq_id ` set ps")
    case True
    then show ?thesis using that by (force simp: m_entries_lease_meta)
  next
    case False
    then obtain e where "e \<in> set (q_entries ps @ E)" and e: "e_seq e = s" "e_kind e = k"
      using owner_inv_slot [OF assms, of s k] \<open>(if _ then _ else _) = Some k\<close> by auto
    moreover have "e \<notin> set (q_entries ps)" using False e(1) seqs_entries(1) by blast
    ultimately have "e \<in> set (m_entries (map lease_meta ps) @ E)" by simp
    with e show ?thesis by blast
  qed
  show "(if e_seq e \<in> qb_seq_id ` set ps then Some InFlight else \<sigma> (e_seq e)) = Some (e_kind e) \<or>
      (if e_seq e \<in> qb_seq_id ` set ps then Some InFlight else \<sigma> (e_seq e)) = None"
    if "e \<in> set (m_entries (map lease_meta ps) @ E)" for e
  proof (cases "e \<in> set E")
    case True
    then have "e_seq e \<notin> qb_seq_id ` set ps" using d by auto
    then show ?thesis using owner_inv_entry [OF assms, of e] True by simp
  next
    case False
    then show ?thesis using that by (auto simp: m_entries_lease_meta)
  qed
qed

lemma lease_prefix_inv:
  assumes inv: "ring_inv r c ls rs" and q: "queue r = ps @ queue r'" and ne: "ps \<noteq> []"
    and bt: "bt_inv (slots r')" "bt_inv (inflight_enqueued_at r')"
    and v: "view r' = (\<lambda>s. if s \<in> qb_seq_id ` set ps then Some InFlight else view r s)"
    and same: "inflight_leases r' = Suc (inflight_leases r)" "next_seq r' = next_seq r"
      "bytes_in_flight r' = bytes_in_flight r" "rows_in_flight r' = rows_in_flight r"
      "evicted_unreclaimed_bytes r' = evicted_unreclaimed_bytes r"
      "unreclaimed_disk_bytes r' = unreclaimed_disk_bytes r"
  shows "ring_inv r' c (map lease_meta ps # ls) rs"
proof -
  note D = ring_invD [OF inv]
  let ?F = "q_entries (queue r') @ outstanding ls rs" and ?L = "map lease_meta ps # ls"
  have E: "entries r ls rs = q_entries ps @ ?F" by (simp add: entries_def q)
  have E': "mset (entries r' ?L rs) = mset (m_entries (map lease_meta ps) @ ?F)"
    by (simp add: entries_def outstanding_def)
  have own: "owner_inv (view r) (q_entries ps @ ?F)" using D(4) by (simp only: E)
  have act: "view r (qb_seq_id b) = Some Queued" if "b \<in> set ps" for b
    using D(5) q that by simp
  have dom: "view r' s = None \<longleftrightarrow> view r s = None" for s using act by (auto simp: v)
  have ch: "charge w (view r') (entries r' ?L rs) = charge w (view r) (entries r ls rs)"
    if "weighs w" for w
  proof -
    have "charge w (view r) (m_entries (map lease_meta qs)) = charge w (view r) (q_entries qs)" for qs
      using that by (induction qs) auto
    moreover have "charge w (view r') E = charge w (view r) E" for E by (rule charge_cong) (simp add: dom)
    ultimately show ?thesis using charge_perm [OF E', of w "view r'"] by (simp add: E)
  qed
  have sub: "qb_seq_id ` set (queue r') \<inter> qb_seq_id ` set ps = {}"
    using owner_inv_distinct [OF own] by auto
  show ?thesis
  proof (rule ring_invI)
    show "owner_inv (view r') (entries r' ?L rs)"
      unfolding v by (rule owner_inv_perm [OF E' [symmetric] owner_inv_lease [OF own]])
    show "view r' (qb_seq_id b) = Some Queued" if "b \<in> set (queue r')" for b
      using D(5) [of b] q that sub by (auto simp: v)
    show "lease_uniform (view r') l" if "l \<in> set ?L" for l
    proof (cases "l \<in> set ls")
      case True
      then show ?thesis using D(6) lease_cong(2) [of l "view r'" "view r"] dom by blast
    next
      case False
      then have "l = map lease_meta ps" using that by simp
      then show ?thesis using ne by (simp add: lease_uniform_def v)
    qed
    have "lease_live (view r') (map lease_meta ps)" using ne by (simp add: lease_live_def v ex_in_conv)
    then show "inflight_leases r' = count_live (view r') ?L"
      using D(7) same(1) count_live_cong [of ls "view r'" "view r"] dom by simp
    show "bytes_in_flight r' = charge e_bytes (view r') (entries r' ?L rs)"
      and "rows_in_flight r' = charge e_rows (view r') (entries r' ?L rs)"
      using D(8,9) same ch by simp_all
    have "e_seq ` set (entries r' ?L rs) = e_seq ` set (entries r ls rs)"
      using E' [THEN mset_eq_setD] unfolding E by (simp add: image_Un image_image)
    then show "1 \<le> s \<and> s < next_seq r'" if "s \<in> e_seq ` set (entries r' ?L rs)" for s
      using D(10) that same(2) by simp
    show "c = watermark_candidate r'"
      using D(12) candidate_dom_cong [OF D(1) bt(1) same(2) dom] by simp
    show "sorted_wrt (<) (map qb_seq_id (queue r'))" using D(3) q by (simp add: sorted_wrt_append)
  qed (use D bt same in simp_all)
qed

section \<open>Admitting, completing, dropping\<close>

text \<open>A new sequence number: queued at once (memory) or reserved (disk).\<close>

lemma admit_inv:
  assumes inv: "ring_inv r c ls rs" and s: "s = next_seq r" "next_seq r' = Suc s"
    and E: "mset (entries r' ls rs') = mset ((s, k, b, n) # entries r ls rs)"
    and q: "queue r' = queue r \<and> k = Reserved \<or> (\<exists>x. queue r' = queue r @ [x] \<and> qb_seq_id x = s \<and> k = Queued)"
    and sl: "slots r' = bt_insert s k (slots r)" and inf: "bt_inv (inflight_enqueued_at r')"
    and same: "inflight_leases r' = inflight_leases r"
      "bytes_in_flight r' = bytes_in_flight r + b" "rows_in_flight r' = rows_in_flight r + n"
      "evicted_unreclaimed_bytes r' = evicted_unreclaimed_bytes r"
      "unreclaimed_disk_bytes r' = unreclaimed_disk_bytes r"
    and fit: "bytes_in_flight r + b \<le> u64_max" "rows_in_flight r + n \<le> u64_max"
  shows "ring_inv r' c ls rs'"
proof -
  note D = ring_invD [OF inv]
  have new: "s \<notin> e_seq ` set (entries r ls rs)" using D(10) [of s] s(1) by auto
  have none: "view r s = None" by (rule owner_inv_fresh [OF D(4) new])
  have v: "view r' = (view r)(s \<mapsto> k)" by (simp add: sl bt_get_bt_insert)
  have bt: "bt_inv (slots r')" using D(1) by (simp add: sl bt_inv_bt_insert)
  have qs: "qb_seq_id x < s" if "x \<in> set (queue r)" for x
    using D(10) [of "qb_seq_id x"] that s(1) by (simp add: entries_def image_Un)
  have ms: "lm_seq_id m \<noteq> s" if "m \<in> set (concat ls)" for m
    using new that by (auto simp: entries_def outstanding_def image_Un)
  have ch: "charge w (view r') (entries r' ls rs') = w (s, k, b, n) + charge w (view r) (entries r ls rs)" for w
    using charge_perm [OF E, of w "view r'"] new by (simp add: v)
  show ?thesis
  proof (rule ring_invI)
    show "owner_inv (view r') (entries r' ls rs')"
      unfolding v by (rule owner_inv_perm [OF E [symmetric] owner_inv_admit [OF D(4) new]])
    show "sorted_wrt (<) (map qb_seq_id (queue r'))" using q D(3) qs by (auto simp: sorted_wrt_append)
    show "view r' (qb_seq_id x) = Some Queued" if "x \<in> set (queue r')" for x
      using q that D(5) [of x] qs [of x] by (auto simp: v)
    show "lease_uniform (view r') l" if "l \<in> set ls" for l
    proof -
      have "view r' (lm_seq_id m) = view r (lm_seq_id m)" if "m \<in> set l" for m
        using ms [of m] that \<open>l \<in> set ls\<close> by (auto simp: v)
      then have "lease_uniform (view r') l = lease_uniform (view r) l" by (intro lease_cong) simp
      then show ?thesis using D(6) [OF that] by simp
    qed
    have "count_live (view r') ls = count_live (view r) ls"
      by (rule count_live_cong) (use ms in \<open>simp add: v\<close>)
    then show "inflight_leases r' = count_live (view r') ls" using D(7) same(1) by simp
    show "bytes_in_flight r' = charge e_bytes (view r') (entries r' ls rs')"
      and "rows_in_flight r' = charge e_rows (view r') (entries r' ls rs')"
      using D(8,9) same ch by simp_all
    have "e_seq ` set (entries r' ls rs') = insert s (e_seq ` set (entries r ls rs))"
      using mset_eq_setD [OF E] by simp
    then show "1 \<le> x \<and> x < next_seq r'" if "x \<in> e_seq ` set (entries r' ls rs')" for x
      using D(10) [of x] that D(11) s by (cases "x = s") simp_all
    show "c = watermark_candidate r'"
    proof (rule antisym)
      show "c \<le> watermark_candidate r'"
        by (rule candidate_mono [OF inv bt]) (use s v in \<open>auto split: if_splits\<close>)
      show "watermark_candidate r' \<le> c"
      proof (cases "bt_first (slots r)")
        case None
        then have "view r' s = Some k" and "c = s - 1"
          using D(12) s by (simp_all add: v watermark_candidate_def)
        moreover have "1 \<le> t" if "view r' t = Some k'" for t k'
          using that view_range(1) [OF inv] D(11) s by (auto simp: v split: if_splits)
        ultimately show ?thesis using candidate_below_active [OF bt, of s k] by fastforce
      next
        case (Some p)
        obtain a w where p: "p = (a, w)" by (cases p)
        have aw: "view r a = Some w" by (rule bt.first_get [OF D(1)]) (simp add: Some p)
        then have "view r' a = Some w" using none by (auto simp: v)
        moreover have "1 \<le> t" if "view r' t = Some k'" for t k'
          using that view_range(1) [OF inv] D(11) s by (auto simp: v split: if_splits)
        ultimately have "watermark_candidate r' < a" using candidate_below_active [OF bt, of a w] by blast
        moreover have "c = a - 1" using D(12) Some p by (simp add: watermark_candidate_def)
        ultimately show ?thesis by simp
      qed
    qed
  qed (use D bt inf same fit s in simp_all)
qed

text \<open>Frame of the leases when one slot outside them changes.\<close>

lemma leases_frame:
  assumes inv: "ring_inv r c ls rs" and s: "s \<notin> lm_seq_id ` set (concat ls)"
    and v: "\<And>t. t \<noteq> s \<Longrightarrow> \<tau> t = view r t"
  shows "\<And>l. l \<in> set ls \<Longrightarrow> lease_uniform \<tau> l" and "count_live \<tau> ls = inflight_leases r"
proof -
  have same: "\<tau> (lm_seq_id m) = view r (lm_seq_id m)" if "m \<in> set (concat ls)" for m
    using s that by (intro v) auto
  show "lease_uniform \<tau> l" if "l \<in> set ls" for l
  proof -
    have "\<tau> (lm_seq_id m) = view r (lm_seq_id m)" if "m \<in> set l" for m
      using same [of m] that \<open>l \<in> set ls\<close> by auto
    then have "lease_uniform \<tau> l = lease_uniform (view r) l" by (intro lease_cong) simp
    then show ?thesis using ring_invD(6) [OF inv that] by simp
  qed
  show "count_live \<tau> ls = inflight_leases r"
    unfolding ring_invD(7) [OF inv] by (rule count_live_cong) (simp only: same)
qed

text \<open>An entry leaves the ledger: an evicted batch or an append rolled back.\<close>

lemma resolve_inv:
  assumes inv: "ring_inv r c ls rs"
    and E: "mset (entries r ls rs) = mset (e # entries r' ls rs')"
    and out: "e_seq e \<notin> lm_seq_id ` set (concat ls)" and live: "view r (e_seq e) \<noteq> None"
    and q: "sorted_wrt (<) (map qb_seq_id (queue r'))" "set (queue r') \<subseteq> set (queue r)"
    and sl: "slots r' = bt_remove (e_seq e) (slots r)" and inf: "bt_inv (inflight_enqueued_at r')"
    and same: "inflight_leases r' = inflight_leases r" "next_seq r' = next_seq r"
      "bytes_in_flight r' = bytes_in_flight r - e_bytes e" "rows_in_flight r' = rows_in_flight r - e_rows e"
      "evicted_unreclaimed_bytes r' = []" "unreclaimed_disk_bytes r' = 0"
  shows "ring_inv r' (watermark_candidate r') ls rs'" and "c \<le> watermark_candidate r'"
    and "view r' = (view r)(e_seq e := None)"
proof -
  note D = ring_invD [OF inv]
  show v: "view r' = (view r)(e_seq e := None)" using D(1) by (simp add: sl bt_get_bt_remove)
  have bt: "bt_inv (slots r')" using D(1) by (simp add: sl bt_inv_bt_remove)
  have own: "owner_inv (view r) (e # entries r' ls rs')" by (rule owner_inv_perm [OF E D(4)])
  note notin = owner_inv_Cons_notin [OF own]
  have ch: "charge w (view r) (entries r ls rs) = w e + charge w (view r') (entries r' ls rs')" for w
    using charge_perm [OF E, of w "view r"] notin live by (simp add: v)
  have frame: "view r' t = view r t" if "t \<noteq> e_seq e" for t using that by (simp add: v)
  show "ring_inv r' (watermark_candidate r') ls rs'"
  proof (rule ring_invI)
    show "owner_inv (view r') (entries r' ls rs')" unfolding v by (rule owner_inv_remove [OF own])
    show "view r' (qb_seq_id b) = Some Queued" if "b \<in> set (queue r')" for b
    proof -
      have "qb_seq_id b \<in> e_seq ` set (entries r' ls rs')" using that by (simp add: entries_def image_Un)
      then have "qb_seq_id b \<noteq> e_seq e" using notin by metis
      moreover have "b \<in> set (queue r)" using that q(2) by auto
      ultimately show ?thesis using D(5) frame by simp
    qed
    show "lease_uniform (view r') l" if "l \<in> set ls" for l
      by (rule leases_frame(1) [OF inv out frame that])
    show "inflight_leases r' = count_live (view r') ls"
      using leases_frame(2) [OF inv out frame] same(1) by simp
    show "bytes_in_flight r' = charge e_bytes (view r') (entries r' ls rs')"
      and "rows_in_flight r' = charge e_rows (view r') (entries r' ls rs')"
      using D(8,9) same ch by simp_all
    have "e_seq ` set (entries r' ls rs') \<subseteq> e_seq ` set (entries r ls rs)"
      using mset_eq_setD [OF E] by auto
    then show "1 \<le> x \<and> x < next_seq r'" if "x \<in> e_seq ` set (entries r' ls rs')" for x
      using D(10) [of x] that same(2) by auto
  qed (use D bt inf same q in simp_all)
  show "c \<le> watermark_candidate r'"
    by (rule candidate_mono [OF inv bt]) (use same v in \<open>auto split: if_splits\<close>)
qed

lemma reservation_stale:
  assumes inv: "ring_inv r c ls (xs @ (s, b, n) # ys)" and stale: "view r s = None"
  shows "ring_inv r c ls (xs @ ys)"
proof -
  note D = ring_invD [OF inv]
  have E: "mset (entries r ls (xs @ (s, b, n) # ys)) = mset ((s, Reserved, b, n) # entries r ls (xs @ ys))"
    by (simp add: entries_def outstanding_def)
  have own: "owner_inv (view r) (entries r ls (xs @ ys))"
    using owner_inv_stale [OF owner_inv_perm [OF E D(4)]] stale by simp
  have ch: "charge w (view r) (entries r ls (xs @ (s, b, n) # ys)) =
      charge w (view r) (entries r ls (xs @ ys))" for w
    using charge_perm [OF E, of w "view r"] stale by simp
  have "e_seq ` set (entries r ls (xs @ ys)) \<subseteq> e_seq ` set (entries r ls (xs @ (s, b, n) # ys))"
    using mset_eq_setD [OF E] by auto
  then have "1 \<le> x \<and> x < next_seq r" if "x \<in> e_seq ` set (entries r ls (xs @ ys))" for x
    using D(10) [of x] that by auto
  then show ?thesis by (intro ring_invI) (use D own ch in simp_all)
qed

text \<open>A reserved slot becomes a queued batch of \<open>b'\<close> bytes.\<close>

lemma complete_inv:
  assumes inv: "ring_inv r c ls (xs @ (s, b, n) # ys)" and live: "view r s = Some Reserved"
    and x: "qb_seq_id x = s" "qb_byte_size x = b'" "qb_row_count x = n"
    and q: "queue r' = enqueue_ordered x (queue r)"
    and sl: "slots r' = bt_insert s Queued (slots r)" and inf: "bt_inv (inflight_enqueued_at r')"
    and same: "inflight_leases r' = inflight_leases r" "next_seq r' = next_seq r"
      "bytes_in_flight r' = bytes_in_flight r - b + b'" "rows_in_flight r' = rows_in_flight r"
      "evicted_unreclaimed_bytes r' = []" "unreclaimed_disk_bytes r' = 0"
    and fit: "bytes_in_flight r - b + b' \<le> u64_max"
  shows "ring_inv r' c ls (xs @ ys)" and "view r' = (view r)(s \<mapsto> Queued)"
proof -
  note D = ring_invD [OF inv]
  let ?E = "entries r ls (xs @ ys)"
  have E: "mset (entries r ls (xs @ (s, b, n) # ys)) = mset ((s, Reserved, b, n) # ?E)"
    by (simp add: entries_def outstanding_def)
  have E': "mset (entries r' ls (xs @ ys)) = mset ((s, Queued, b', n) # ?E)"
    by (simp add: entries_def q mset_q_entries_enqueue x)
  show v: "view r' = (view r)(s \<mapsto> Queued)" by (simp add: sl bt_get_bt_insert)
  have bt: "bt_inv (slots r')" using D(1) by (simp add: sl bt_inv_bt_insert)
  have own: "owner_inv (view r) ((s, Reserved, b, n) # ?E)" by (rule owner_inv_perm [OF E D(4)])
  have notin: "s \<notin> e_seq ` set ?E" using owner_inv_Cons_notin [OF own] by simp
  then have out: "s \<notin> lm_seq_id ` set (concat ls)" "s \<notin> qb_seq_id ` set (queue r)"
    by (auto simp: entries_def outstanding_def image_Un)
  have frame: "view r' t = view r t" if "t \<noteq> s" for t using that by (simp add: v)
  have ch: "charge w (view r) (entries r ls (xs @ (s, b, n) # ys)) = w (s, Reserved, b, n) + charge w (view r) ?E" for w
    using charge_perm [OF E, of w "view r"] live by simp
  have ch': "charge w (view r') (entries r' ls (xs @ ys)) = w (s, Queued, b', n) + charge w (view r) ?E" for w
    using charge_perm [OF E', of w "view r'"] notin by (simp add: v)
  show "ring_inv r' c ls (xs @ ys)"
  proof (rule ring_invI)
    have "owner_inv ((view r)(s \<mapsto> Queued)) ((s, Queued, b', n) # ?E)"
      using owner_inv_kind [OF own, of Queued b' n] by simp
    then show "owner_inv (view r') (entries r' ls (xs @ ys))"
      unfolding v by (rule owner_inv_perm [OF E' [symmetric]])
    show "sorted_wrt (<) (map qb_seq_id (queue r'))"
      unfolding q by (rule sorted_enqueue_ordered [OF D(3)]) (simp add: x out)
    show "view r' (qb_seq_id y) = Some Queued" if "y \<in> set (queue r')" for y
      using that D(5) by (auto simp: q v x)
    show "lease_uniform (view r') l" if "l \<in> set ls" for l
      by (rule leases_frame(1) [OF inv out(1) frame that])
    show "inflight_leases r' = count_live (view r') ls"
      using leases_frame(2) [OF inv out(1) frame] same(1) by simp
    show "bytes_in_flight r' = charge e_bytes (view r') (entries r' ls (xs @ ys))"
      and "rows_in_flight r' = charge e_rows (view r') (entries r' ls (xs @ ys))"
      using D(8,9) same ch ch' by simp_all
    have "e_seq ` set (entries r' ls (xs @ ys)) = e_seq ` set (entries r ls (xs @ (s, b, n) # ys))"
      using mset_eq_setD [OF E] mset_eq_setD [OF E'] by simp
    then show "1 \<le> t \<and> t < next_seq r'" if "t \<in> e_seq ` set (entries r' ls (xs @ ys))" for t
      using D(10) [of t] that same(2) by simp
    show "c = watermark_candidate r'"
      using D(12) candidate_dom_cong [OF D(1) bt same(2)] live by (simp add: v)
  qed (use D bt inf same fit in simp_all)
qed

text \<open>Discarding the whole ring: every slot is resolved, what was leased or reserved turns stale.\<close>

lemma discard_inv:
  assumes inv: "ring_inv r c ls rs"
    and r': "queue r' = []" "slots r' = []" "inflight_enqueued_at r' = []" "bytes_in_flight r' = 0"
      "rows_in_flight r' = 0" "inflight_leases r' = 0" "evicted_unreclaimed_bytes r' = []"
      "unreclaimed_disk_bytes r' = 0" "next_seq r' = next_seq r"
  shows "ring_inv r' (next_seq r - 1) ls rs" and "c \<le> next_seq r - 1"
proof -
  note D = ring_invD [OF inv]
  have v: "view r' = (\<lambda>_. None)" by (simp add: r' bt_get_def fun_eq_iff)
  have E: "entries r ls rs = q_entries (queue r) @ entries r' ls rs" by (simp add: entries_def r')
  have "distinct (map e_seq (entries r' ls rs))"
    using owner_inv_distinct [OF D(4)] unfolding E by simp
  then have own: "owner_inv (view r') (entries r' ls rs)" unfolding v by (rule owner_inv_empty)
  have live: "count_live (view r') ls = 0" by (simp add: count_live_def lease_live_def v)
  have cand: "next_seq r - 1 = watermark_candidate r'"
    by (simp add: watermark_candidate_def bt_first_def r')
  show "ring_inv r' (next_seq r - 1) ls rs"
  proof (rule ring_invI)
    show "lease_uniform (view r') l" if "l \<in> set ls" for l
      using D(6) [OF that] by (auto simp: lease_uniform_def v)
    show "1 \<le> t \<and> t < next_seq r'" if "t \<in> e_seq ` set (entries r' ls rs)" for t
      using D(10) [of t] that unfolding E r'(9) by auto
  qed (use D own live cand v r' in \<open>simp_all add: bt_inv_def\<close>)
  show "c \<le> next_seq r - 1" using ring_inv_watermark_next [OF inv] by simp
qed

end
