(* ===== verification/BufferConfiguration.thy ===== *)
theory BufferConfiguration
  imports Signals
begin

text \<open>
  \<open>crates/core/src/buffer/config.rs\<close>: the configuration of a sink buffer, its defaults, the
  resolution of the \<open>buffer\<close> and legacy \<open>batching\<close> tables (rule V4), the start-up validation
  (rules V1 to V5) and the derived limits. A path is a string; the only question the code asks of
  it is whether it is empty.
\<close>

section \<open>The configuration record\<close>

datatype BufferMode = Memory | Disk

datatype OverflowPolicy = Block | DropOldest

datatype DrainTimeoutPolicy = Persist | Discard

record LegacyBatchingConfig =
  lb_max_batch_size_bytes :: nat
  lb_max_batch_records :: "nat option"
  lb_max_batch_interval_sec :: nat

record BufferConfig =
  mode :: BufferMode
  disk_path :: "string option"
  segment_size_bytes :: nat
  sync_on_write :: bool
  max_buffer_bytes :: nat
  overflow_policy :: OverflowPolicy
  max_batch_size_bytes :: nat
  max_batch_records :: "nat option"
  max_batch_interval_sec :: nat
  max_inflight_leases :: nat
  initial_backoff_ms :: nat
  max_backoff_sec :: nat
  max_attempts :: nat
  max_transient_duration_sec :: nat
  dead_letter_path :: "string option"
  max_dead_letter_bytes :: nat
  drain_timeout_sec :: nat
  on_drain_timeout :: "DrainTimeoutPolicy option"
  readiness_stall_sec :: nat

definition default_config :: BufferConfig where
  "default_config = \<lparr>
     mode = Memory,
     disk_path = None,
     segment_size_bytes = 67108864,
     sync_on_write = False,
     max_buffer_bytes = 805306368,
     overflow_policy = Block,
     max_batch_size_bytes = 33554432,
     max_batch_records = None,
     max_batch_interval_sec = 60,
     max_inflight_leases = 1,
     initial_backoff_ms = 500,
     max_backoff_sec = 60,
     max_attempts = 3,
     max_transient_duration_sec = 0,
     dead_letter_path = None,
     max_dead_letter_bytes = 1073741824,
     drain_timeout_sec = 30,
     on_drain_timeout = None,
     readiness_stall_sec = 10\<rparr>"

definition passthrough :: BufferConfig where
  "passthrough = default_config\<lparr>max_batch_records := Some 1, max_batch_interval_sec := 0\<rparr>"

section \<open>Derived limits\<close>

definition per_signal_budget :: "BufferConfig \<Rightarrow> nat" where
  "per_signal_budget c = max_buffer_bytes c div 3"

definition max_disk_frame_payload_bytes :: "BufferConfig \<Rightarrow> nat" where
  "max_disk_frame_payload_bytes c =
     (let doubled = sat_mul (segment_size_bytes c) 2
      in if doubled > u32_max then u32_max else doubled)"

definition effective_drain_policy :: "BufferConfig \<Rightarrow> DrainTimeoutPolicy" where
  "effective_drain_policy c =
     (case on_drain_timeout c of
        Some policy \<Rightarrow> policy
      | None \<Rightarrow> (case mode c of Memory \<Rightarrow> Discard | Disk \<Rightarrow> Persist))"

definition effective_dead_letter_path :: "BufferConfig \<Rightarrow> string" where
  "effective_dead_letter_path c =
     (case dead_letter_path c of
        Some dl_path \<Rightarrow> dl_path
      | None \<Rightarrow>
          (case (mode c, disk_path c) of
             (Disk, Some disk_dir) \<Rightarrow> disk_dir @ ''/dead-letter''
           | _ \<Rightarrow> ''./dlq/buffer''))"

definition ensure_min_buffer_bytes :: "BufferConfig \<Rightarrow> BufferConfig" where
  "ensure_min_buffer_bytes c =
     (let slots = sat_add (max_inflight_leases c) 1;
          min_per_signal = sat_mul (max_batch_size_bytes c) slots;
          min_total = sat_mul min_per_signal 3
      in if max_buffer_bytes c < min_total then c\<lparr>max_buffer_bytes := min_total\<rparr> else c)"

section \<open>Validation and resolution\<close>

definition config_err :: "string \<Rightarrow> PipelineError" where
  "config_err msg = Configuration msg"

definition validate :: "BufferConfig \<Rightarrow> unit result" where
  "validate c =
    (if max_inflight_leases c = 0
     then Inl (config_err ''max_inflight_leases must be >= 1 (V5)'')
     else if max_attempts c = 0
     then Inl (config_err ''max_attempts must be >= 1 (V5)'')
     else if drain_timeout_sec c = 0
     then Inl (config_err ''drain_timeout_sec must be >= 1 (V5)'')
     else if max_batch_size_bytes c = 0
     then Inl (config_err ''max_batch_size_bytes must be >= 1 (V5)'')
     else if max_batch_records c = Some 0
     then Inl (config_err ''max_batch_records must be >= 1 when set (V5)'')
     else (case checked_add (max_inflight_leases c) 1 of
       None \<Rightarrow> Inl (config_err ''max_inflight_leases overflows slot count (V1)'')
     | Some slots_per_signal \<Rightarrow>
     (case checked_mul (max_batch_size_bytes c) slots_per_signal of
       None \<Rightarrow> Inl (config_err ''max_batch_size_bytes * (1 + max_inflight_leases) overflows u64 (V1)'')
     | Some min_per_signal \<Rightarrow>
     if per_signal_budget c < min_per_signal
     then Inl (config_err ''max_buffer_bytes must be >= 3 * max_batch_size_bytes * (1 + max_inflight_leases) (V1)'')
     else (case mode c of
       Disk \<Rightarrow>
         (if \<not> (case disk_path c of None \<Rightarrow> False | Some p \<Rightarrow> p \<noteq> [])
          then Inl (config_err ''mode = disk requires a non-empty disk_path (V3)'')
          else if segment_size_bytes c < sat_mul (max_batch_size_bytes c) 2
          then Inl (config_err ''segment_size_bytes must be >= 2 * max_batch_size_bytes in disk mode (V2)'')
          else if segment_size_bytes c > per_signal_budget c div 2
          then Inl (config_err ''segment_size_bytes must be <= (max_buffer_bytes / 3) / 2 in disk mode (V5)'')
          else Inr ())
     | Memory \<Rightarrow>
         (if on_drain_timeout c = Some Persist
          then Inl (config_err ''on_drain_timeout = persist requires mode = disk (V3)'')
          else Inr ())))))"

definition resolve ::
  "BufferConfig option \<Rightarrow> LegacyBatchingConfig option \<Rightarrow> bool \<Rightarrow> BufferConfig result" where
  "resolve buffer legacy_batching default_passthrough =
     try_bind
       (case (buffer, legacy_batching) of
          (Some _, Some _) \<Rightarrow> Inl (config_err ''cannot specify both buffer and legacy batching (V4)'')
        | (Some cfg, None) \<Rightarrow> Inr cfg
        | (None, Some legacy) \<Rightarrow>
            Inr (ensure_min_buffer_bytes
                  (default_config\<lparr>mode := Memory,
                     max_batch_size_bytes := lb_max_batch_size_bytes legacy,
                     max_batch_records := lb_max_batch_records legacy,
                     max_batch_interval_sec := lb_max_batch_interval_sec legacy\<rparr>))
        | (None, None) \<Rightarrow> Inr (if default_passthrough then passthrough else default_config))
       (\<lambda>resolved. try_bind (validate resolved) (\<lambda>_. Inr resolved))"

section \<open>Properties\<close>

text \<open>The range of the integer fields: a value of the configuration fits its Rust type.\<close>

definition config_in_range :: "BufferConfig \<Rightarrow> bool" where
  "config_in_range c \<longleftrightarrow>
     segment_size_bytes c \<le> u64_max \<and> max_buffer_bytes c \<le> u64_max \<and>
     max_batch_size_bytes c \<le> u64_max \<and> max_inflight_leases c \<le> u64_max"

text \<open>The rules V1, V2, V3 and V5 in exact arithmetic, with no overflow in sight.\<close>

definition limits_ok :: "BufferConfig \<Rightarrow> bool" where
  "limits_ok c \<longleftrightarrow>
     max_inflight_leases c \<ge> 1 \<and> max_attempts c \<ge> 1 \<and> drain_timeout_sec c \<ge> 1 \<and>
     max_batch_size_bytes c \<ge> 1 \<and> max_batch_records c \<noteq> Some 0 \<and>
     3 * (max_batch_size_bytes c * (1 + max_inflight_leases c)) \<le> max_buffer_bytes c \<and>
     (case mode c of
        Disk \<Rightarrow> (\<exists>p. disk_path c = Some p \<and> p \<noteq> []) \<and>
                2 * max_batch_size_bytes c \<le> segment_size_bytes c \<and>
                6 * segment_size_bytes c \<le> max_buffer_bytes c
      | Memory \<Rightarrow> on_drain_timeout c \<noteq> Some Persist)"

lemma le_div3_iff: "m \<le> b div 3 \<longleftrightarrow> 3 * m \<le> (b::nat)"
  by (simp add: less_eq_div_iff_mult_less_eq mult.commute)

lemma le_div6_iff: "m \<le> b div 3 div 2 \<longleftrightarrow> 6 * m \<le> (b::nat)"
  by (simp add: div_mult2_eq [symmetric] less_eq_div_iff_mult_less_eq mult.commute)

lemma validate_V1:
  assumes "max_buffer_bytes c \<le> u64_max" and "max_batch_size_bytes c \<ge> 1"
  shows "(\<exists>s m. checked_add (max_inflight_leases c) 1 = Some s
              \<and> checked_mul (max_batch_size_bytes c) s = Some m \<and> m \<le> per_signal_budget c)
         \<longleftrightarrow> 3 * (max_batch_size_bytes c * (1 + max_inflight_leases c)) \<le> max_buffer_bytes c"
    (is "?L \<longleftrightarrow> ?R")
proof
  assume ?L
  then show ?R
    by (auto simp: checked_add_def checked_mul_def per_signal_budget_def le_div3_iff split: if_splits)
next
  assume R: ?R
  have "1 + max_inflight_leases c \<le> max_batch_size_bytes c * (1 + max_inflight_leases c)"
    using mult_le_mono1 [OF assms(2), of "1 + max_inflight_leases c"] by simp
  with R assms(1) have "1 + max_inflight_leases c \<le> u64_max"
    and "max_batch_size_bytes c * (1 + max_inflight_leases c) \<le> u64_max" by linarith+
  with R show ?L
    by (simp add: checked_add_def checked_mul_def per_signal_budget_def le_div3_iff add.commute)
qed

lemma sat_mul_le_iff: "x \<le> u64_max \<Longrightarrow> b \<le> u64_max \<Longrightarrow> sat_mul b 2 \<le> x \<longleftrightarrow> 2 * b \<le> x \<or> x = u64_max"
  by (auto simp: sat_mul_def min_def)

lemma disk_limits_not_saturated:
  assumes "6 * s \<le> b" and "b \<le> u64_max"
  shows "s \<noteq> u64_max"
  using assms by (auto simp: u64_max_def)

lemma validate_ok_iff:
  assumes "config_in_range c"
  shows "validate c = Inr () \<longleftrightarrow> limits_ok c"
proof -
  note rng = assms [unfolded config_in_range_def]
  show ?thesis
  proof (cases "0 < max_inflight_leases c \<and> 0 < max_attempts c \<and> 0 < drain_timeout_sec c \<and>
     0 < max_batch_size_bytes c \<and> max_batch_records c \<noteq> Some 0")
    case False
    then show ?thesis by (auto simp: validate_def limits_ok_def)
  next
    case True
    then have b1: "max_batch_size_bytes c \<ge> 1" by simp
    have v1: "validate c = Inr () \<longleftrightarrow>
        (\<exists>s m. checked_add (max_inflight_leases c) 1 = Some s
              \<and> checked_mul (max_batch_size_bytes c) s = Some m \<and> m \<le> per_signal_budget c) \<and>
        (case mode c of
          Disk \<Rightarrow> (\<exists>p. disk_path c = Some p \<and> p \<noteq> []) \<and>
            sat_mul (max_batch_size_bytes c) 2 \<le> segment_size_bytes c \<and>
            segment_size_bytes c \<le> per_signal_budget c div 2
        | Memory \<Rightarrow> on_drain_timeout c \<noteq> Some Persist)"
      using True by (auto simp: validate_def split: option.splits BufferMode.splits if_splits)
    have disk: "sat_mul (max_batch_size_bytes c) 2 \<le> segment_size_bytes c \<and>
          segment_size_bytes c \<le> per_signal_budget c div 2 \<longleftrightarrow>
        2 * max_batch_size_bytes c \<le> segment_size_bytes c \<and> 6 * segment_size_bytes c \<le> max_buffer_bytes c"
      using rng sat_mul_le_iff [of "segment_size_bytes c" "max_batch_size_bytes c"]
        disk_limits_not_saturated [of "segment_size_bytes c" "max_buffer_bytes c"]
      by (auto simp: per_signal_budget_def le_div6_iff)
    show ?thesis
      unfolding v1 validate_V1 [OF conjunct1 [OF conjunct2 [OF rng]] b1] limits_ok_def
      using True disk by (auto split: BufferMode.splits)
  qed
qed



lemma validate_persist_needs_disk:
  "validate c = Inr () \<Longrightarrow> effective_drain_policy c = Persist \<Longrightarrow> mode c = Disk"
  by (auto simp: validate_def effective_drain_policy_def
      split: option.splits BufferMode.splits if_splits)

text \<open>
  C15. Whatever \<open>BufferConfig::resolve\<close> returns has passed validation, never comes from both tables
  at once (V4), and a buffer whose effective drain policy is \<open>Persist\<close> is a disk buffer: a
  shutdown that persists always has a disk to persist to.
\<close>

theorem resolve_sound:
  assumes "resolve buffer legacy dp = Inr c"
  shows "validate c = Inr () \<and> (buffer = None \<or> legacy = None) \<and>
    (effective_drain_policy c = Persist \<longrightarrow> mode c = Disk)"
proof -
  have "validate c = Inr () \<and> (buffer = None \<or> legacy = None)"
    using assms by (auto simp: resolve_def try_bind_Inr split: option.splits)
  then show ?thesis using validate_persist_needs_disk by blast
qed

lemma resolve_passthrough: "resolve None None True = Inr passthrough"
  by (simp add: resolve_def validate_def passthrough_def default_config_def checked_add_def
      checked_mul_def u64_max_def per_signal_budget_def)

theorem resolve_sound_witness:
  "resolve None None True = Inr passthrough \<and> validate passthrough = Inr ()"
  using resolve_sound [OF resolve_passthrough] resolve_passthrough by simp

lemma ensure_min_buffer_bytes_exact:
  assumes "3 * (max_batch_size_bytes c * (1 + max_inflight_leases c)) \<le> u64_max"
    and "max_batch_size_bytes c \<ge> 1"
  shows "ensure_min_buffer_bytes c =
    c\<lparr>max_buffer_bytes := max (max_buffer_bytes c)
        (3 * (max_batch_size_bytes c * (1 + max_inflight_leases c)))\<rparr>"
proof -
  have "1 + max_inflight_leases c \<le> max_batch_size_bytes c * (1 + max_inflight_leases c)"
    using mult_le_mono1 [OF assms(2), of "1 + max_inflight_leases c"] by simp
  with assms(1) have "1 + max_inflight_leases c \<le> u64_max"
    and "max_batch_size_bytes c * (1 + max_inflight_leases c) \<le> u64_max" by linarith+
  then have "sat_add (max_inflight_leases c) 1 = 1 + max_inflight_leases c"
    and "sat_mul (max_batch_size_bytes c) (1 + max_inflight_leases c)
        = max_batch_size_bytes c * (1 + max_inflight_leases c)"
    by (simp_all add: sat_add_def sat_mul_def min_def add.commute)
  moreover have "sat_mul (max_batch_size_bytes c * (1 + max_inflight_leases c)) 3
      = 3 * (max_batch_size_bytes c * (1 + max_inflight_leases c))"
    using assms(1) by (simp add: sat_mul_def min_def mult.commute)
  ultimately show ?thesis
    by (cases "max_buffer_bytes c < 3 * (max_batch_size_bytes c * (1 + max_inflight_leases c))")
      (simp_all only: ensure_min_buffer_bytes_def Let_def max_def, auto)
qed

text \<open>
  A legacy \<open>batching\<close> table always resolves: the synthesized memory-mode configuration keeps the
  table's thresholds, its budget is raised to six times the batch size where the default 768 MiB
  is too small, and it passes validation.
\<close>

lemma resolve_legacy_ok:
  assumes "lb_max_batch_size_bytes l \<ge> 1" and "6 * lb_max_batch_size_bytes l \<le> u64_max"
    and "lb_max_batch_records l \<noteq> Some 0"
  shows "resolve None (Some l) dp = Inr (default_config\<lparr>
       max_batch_size_bytes := lb_max_batch_size_bytes l,
       max_batch_records := lb_max_batch_records l,
       max_batch_interval_sec := lb_max_batch_interval_sec l,
       max_buffer_bytes := max 805306368 (6 * lb_max_batch_size_bytes l)\<rparr>)"
proof -
  let ?c = "default_config\<lparr>mode := Memory, max_batch_size_bytes := lb_max_batch_size_bytes l,
       max_batch_records := lb_max_batch_records l,
       max_batch_interval_sec := lb_max_batch_interval_sec l\<rparr>"
  let ?d = "default_config\<lparr>max_batch_size_bytes := lb_max_batch_size_bytes l,
       max_batch_records := lb_max_batch_records l,
       max_batch_interval_sec := lb_max_batch_interval_sec l,
       max_buffer_bytes := max 805306368 (6 * lb_max_batch_size_bytes l)\<rparr>"
  have e: "ensure_min_buffer_bytes ?c = ?d"
    using assms ensure_min_buffer_bytes_exact [of ?c]
    by (simp add: default_config_def mult.commute)
  have "config_in_range ?d" and "limits_ok ?d"
    using assms by (auto simp: config_in_range_def limits_ok_def default_config_def u64_max_def)
  then have "validate ?d = Inr ()" by (simp add: validate_ok_iff)
  with e show ?thesis by (simp add: resolve_def)
qed

end
