(* ===== verification/DiskRecovery.thy ===== *)
theory DiskRecovery
  imports DiskWriter RingSteps BufferConfiguration
begin

text \<open>
  Start-up of the disk backend (\<open>crates/core/src/buffer/disk.rs\<close>, lines 615 to 1017): loading the
  persisted watermark, scanning the segment files, replaying unacknowledged frames into the signal
  rings, skipping corrupt frames and truncating a torn tail. \<open>generate_instance_id\<close> of \<open>mod.rs\<close>
  is here because a fresh directory needs one.

  System calls and JSON parsing have their outcome as an argument. The three rings are a function
  from \<open>SignalKind\<close>. The scan of a segment is bounded by fuel, one unit per frame; the length of the
  file plus one is enough (\<open>scan_segment_total\<close>).
\<close>

section \<open>Instance identifiers\<close>

unbundle bit_operations_syntax

text \<open>
  \<open>hash\<close> is the randomly keyed hasher of the standard library applied to the words written to it;
  the static counter is threaded through.
\<close>

definition generate_instance_id ::
  "(64 word list \<Rightarrow> 64 word) \<Rightarrow> 64 word \<Rightarrow> 64 word \<Rightarrow> 64 word \<Rightarrow> 64 word \<times> 64 word" where
  "generate_instance_id hash nanos pid counter =
     (let seq = counter;
          z0 = hash [nanos, pid, seq] + seq * 0x9E3779B97F4A7C15;
          z1 = (z0 XOR drop_bit 30 z0) * 0xBF58476D1CE4E5B9;
          z2 = (z1 XOR drop_bit 27 z1) * 0x94D049BB133111EB;
          out = z2 XOR drop_bit 31 z2
      in (if out = 0 then 1 else out, counter + 1))"

section \<open>Replaying one frame\<close>

type_synonym ('b, 's) rings = "SignalKind \<Rightarrow> ('b, 's) SignalRingState"

definition record_recovered_frame ::
  "('b, 's) arrow_ops \<Rightarrow> instant \<Rightarrow> nat \<Rightarrow> nat \<Rightarrow> nat \<Rightarrow> FrameHeader \<Rightarrow> 'b \<Rightarrow> DiskWatermark \<Rightarrow>
   ('b, 's) SignalRingState \<Rightarrow> ('b, 's) SignalRingState \<times> bool" where
  "record_recovered_frame ao now segment_num offset frame_len header batch watermark rs =
     (let r = ring rs;
          r1 = r\<lparr>next_seq := max (next_seq r) (sat_add (fh_seq_id header) 1)\<rparr>
      in if fh_seq_id header \<le> for_signal watermark (fh_signal header)
         then (rs\<lparr>ring := r1\<rparr>, False)
         else let byte_size = frame_len; row_count = fh_row_count header;
                  r2 = r1\<lparr>bytes_in_flight := sat_add (bytes_in_flight r1) byte_size,
                          rows_in_flight := sat_add (rows_in_flight r1) row_count,
                          slots := bt_insert (fh_seq_id header) Queued (slots r1),
                          queue := enqueue_ordered
                            \<lparr>qb_seq_id = fh_seq_id header,
                             qb_payload = OnDisk segment_num offset frame_len (fh_row_count header) (ao_schema ao batch),
                             qb_byte_size = byte_size, qb_row_count = row_count, qb_enqueued_at = now,
                             qb_first_failed_at = None, qb_attempt = 0, qb_ready_at = None\<rparr> (queue r1)\<rparr>
              in (rs\<lparr>ring := r2, replayed_records := atomic_add (replayed_records rs) (fh_row_count header)\<rparr>, True))"

definition record_corrupted_frame ::
  "FrameHeader \<Rightarrow> DiskWatermark \<Rightarrow> ('b, 's) SignalRingState \<Rightarrow> ('b, 's) SignalRingState" where
  "record_corrupted_frame header watermark rs =
     (let rs1 = (if fh_seq_id header > for_signal watermark (fh_signal header)
                 then rs\<lparr>corruption_drops := atomic_add (corruption_drops rs) (fh_row_count header)\<rparr> else rs)
      in rs1\<lparr>ring := (ring rs1)\<lparr>next_seq := max (next_seq (ring rs1)) (sat_add (fh_seq_id header) 1)\<rparr>\<rparr>)"

section \<open>Scanning one segment\<close>

record segment_io =
  si_open :: bool
  si_stat :: bool
  si_seek :: "nat \<Rightarrow> bool"
  si_read :: "nat \<Rightarrow> read_event list"
  si_truncate :: bool
  si_sync :: bool

definition truncate_torn_segment :: "segment_io \<Rightarrow> nat \<Rightarrow> byte list \<Rightarrow> byte list result" where
  "truncate_torn_segment io offset content =
     (if \<not> si_truncate io then Inl (Storage ''failed to truncate torn segment'')
      else if \<not> si_sync io then Inl (Storage ''failed to sync truncated segment'')
      else Inr (take offset content))"

text \<open>The bound on the payload length that a scan allows at an offset.\<close>

definition scan_bound :: "nat \<Rightarrow> nat \<Rightarrow> nat \<Rightarrow> nat" where
  "scan_bound max_payload_len file_len offset =
     max max_payload_len (min (file_len - offset - FRAME_HEADER_LEN) u32_max)"

text \<open>The scan returns the largest sequence numbers, the number of unacknowledged frames, the rings
  and the contents of the file.\<close>

fun scan_segment ::
  "nat \<Rightarrow> ('b, 's) arrow_ops \<Rightarrow> instant \<Rightarrow> segment_io \<Rightarrow> nat \<Rightarrow> byte list \<Rightarrow> nat \<Rightarrow> DiskWatermark \<Rightarrow>
   nat \<Rightarrow> (SignalKind \<Rightarrow> nat) \<Rightarrow> nat \<Rightarrow> ('b, 's) rings \<Rightarrow>
   ((SignalKind \<Rightarrow> nat) \<times> nat \<times> ('b, 's) rings \<times> byte list) result option" where
  "scan_segment 0 ao now io segment_num content max_len wm offset max_seq unacked rings = None"
| "scan_segment (Suc fuel) ao now io segment_num content max_len wm offset max_seq unacked rings =
     (if \<not> si_seek io offset then Some (Inl (Storage ''failed to seek segment''))
      else case decode_frame ao (drop offset content, si_read io offset)
                  (scan_bound max_len (length content) offset) of
        Inr None \<Rightarrow> Some (Inr (max_seq, unacked, rings, content))
      | Inr (Some (header, batch)) \<Rightarrow>
          let frame_len = sat_add32 FRAME_HEADER_LEN (fh_payload_len header);
              sig = fh_signal header;
              max_seq' = max_seq(sig := max (max_seq sig) (fh_seq_id header));
              (rs, unacked_frame) =
                record_recovered_frame ao now segment_num offset frame_len header batch wm (rings sig);
              unacked' = (if unacked_frame then sat_add unacked 1 else unacked)
          in scan_segment fuel ao now io segment_num content max_len wm (sat_add offset frame_len)
               max_seq' unacked' (rings(sig := rs))
      | Inl TornFrame \<Rightarrow>
          (case truncate_torn_segment io offset content of
             Inl e \<Rightarrow> Some (Inl e)
           | Inr content' \<Rightarrow> Some (Inr (max_seq, unacked, rings, content')))
      | Inl (CrcMismatch header _) \<Rightarrow>
          let frame_len = sat_add32 FRAME_HEADER_LEN (fh_payload_len header);
              sig = fh_signal header
          in scan_segment fuel ao now io segment_num content max_len wm (sat_add offset frame_len)
               (max_seq(sig := max (max_seq sig) (fh_seq_id header))) unacked
               (rings(sig := record_corrupted_frame header wm (rings sig)))
      | Inl (IpcDecode header _) \<Rightarrow>
          let frame_len = sat_add32 FRAME_HEADER_LEN (fh_payload_len header);
              sig = fh_signal header
          in scan_segment fuel ao now io segment_num content max_len wm (sat_add offset frame_len)
               (max_seq(sig := max (max_seq sig) (fh_seq_id header))) unacked
               (rings(sig := record_corrupted_frame header wm (rings sig)))
      | Inl (InvalidHeader reason) \<Rightarrow>
          Some (Inr (max_seq, unacked,
            rings(Logs := (rings Logs)\<lparr>corruption_drops := atomic_add (corruption_drops (rings Logs)) 1\<rparr>), content))
      | Inl (Io e) \<Rightarrow> Some (Inl (Storage ''I/O error scanning segment'')))"

definition recover_single_segment ::
  "('b, 's) arrow_ops \<Rightarrow> instant \<Rightarrow> segment_io \<Rightarrow> nat \<Rightarrow> string \<Rightarrow> nat \<Rightarrow> DiskWatermark \<Rightarrow>
   dir \<times> ('b, 's) rings \<Rightarrow> (SealedSegmentMeta option \<times> dir \<times> ('b, 's) rings) result option" where
  "recover_single_segment ao now io segment_num seg_path max_len wm state =
     (case state of (files, rings) \<Rightarrow>
      case (if si_open io then files seg_path else None) of
        None \<Rightarrow> Some (Inl (Storage ''failed to open segment for recovery''))
      | Some content \<Rightarrow>
          if \<not> si_stat io then Some (Inl (Storage ''failed to stat segment for recovery''))
          else case scan_segment (length content + 1) ao now io segment_num content max_len wm 0 (\<lambda>_. 0) 0 rings of
            None \<Rightarrow> None
          | Some (Inl e) \<Rightarrow> Some (Inl e)
          | Some (Inr (max_seq, unacked, rings', content')) \<Rightarrow>
              Some (Inr (if unacked > 0
                         then Some \<lparr>sg_path = seg_path, sg_max_seq = max_seq, sg_has_frames = True\<rparr> else None,
                         files(seg_path \<mapsto> content'), rings')))"

section \<open>The whole recovery\<close>

record recover_io =
  ri_create_dir :: bool
  ri_lock_open :: bool
  ri_lock :: bool
  ri_read_watermark :: bool
  ri_watermark_fault :: replace_fault
  ri_read_dir :: bool
  ri_segment :: "nat \<Rightarrow> segment_io"
  ri_merge_fault :: replace_fault
  ri_rm :: "string \<Rightarrow> bool"
  ri_spawn :: bool

definition acquire_advisory_lock :: "recover_io \<Rightarrow> unit result" where
  "acquire_advisory_lock io =
     (if \<not> ri_lock_open io then Inl (Storage ''failed to open buffer lock file'')
      else if \<not> ri_lock io then Inl (Storage ''buffer disk_path lock failed'')
      else Inr ())"

definition init_ring :: "DiskWatermark \<Rightarrow> SignalKind \<Rightarrow> ('b, 's) SignalRingState \<Rightarrow> ('b, 's) SignalRingState" where
  "init_ring wm sig rs =
     rs\<lparr>committed_seq := for_signal wm sig, ring := (ring rs)\<lparr>next_seq := sat_add (for_signal wm sig) 1\<rparr>\<rparr>"

definition load_initial_watermark ::
  "(DiskWatermark \<Rightarrow> byte list) \<Rightarrow> (byte list \<Rightarrow> string + DiskWatermark) \<Rightarrow> nat \<Rightarrow> recover_io \<Rightarrow>
   dir \<times> ('b, 's) rings \<Rightarrow> (DiskWatermark \<times> dir \<times> ('b, 's) rings) result" where
  "load_initial_watermark to_json from_json fresh_id io state =
     (case state of (files, rings) \<Rightarrow>
      let files1 = (if files ''watermark.json.tmp'' \<noteq> None \<and> ri_rm io ''watermark.json.tmp''
                    then files(''watermark.json.tmp'' := None) else files)
      in try_bind (case files1 ''watermark.json'' of
             None \<Rightarrow> Inr default_watermark
           | Some bytes \<Rightarrow>
               if \<not> ri_read_watermark io then Inl (Storage ''failed to read watermark.json'')
               else case from_json bytes of
                      Inl e \<Rightarrow> Inl (Storage ''failed to parse watermark.json'')
                    | Inr wm \<Rightarrow> Inr wm) (\<lambda>watermark.
         try_bind (if wm_instance_id watermark = 0
                   then let wm1 = watermark\<lparr>wm_instance_id := fresh_id\<rparr>
                        in case write_watermark_atomic to_json (ri_watermark_fault io) wm1 files1 of
                             (Inl e, _) \<Rightarrow> Inl (Storage e)
                           | (Inr _, ds) \<Rightarrow> Inr (wm1, after files1 ds)
                   else Inr (watermark, files1)) (\<lambda>(wm2, files2).
           Inr (wm2, files2, \<lambda>sig. init_ring wm2 sig (rings sig)))))"

text \<open>The entries of the directory: a read error, a name that is not text, or a name.\<close>

fun list_segments :: "(unit + string option) list \<Rightarrow> (nat \<times> string) list result" where
  "list_segments [] = Inr []"
| "list_segments (Inl _ # es) = Inl (Storage ''failed to read directory entry'')"
| "list_segments (Inr name # es) =
     try_bind (list_segments es) (\<lambda>segs.
       Inr (case Option.bind name parse_segment_id of
              None \<Rightarrow> segs
            | Some n \<Rightarrow> (n, the name) # segs))"

fun recover_each ::
  "('b, 's) arrow_ops \<Rightarrow> instant \<Rightarrow> recover_io \<Rightarrow> nat \<Rightarrow> DiskWatermark \<Rightarrow> (nat \<times> string) list \<Rightarrow>
   nat \<times> SealedSegmentMeta list \<times> string list \<Rightarrow> dir \<times> ('b, 's) rings \<Rightarrow>
   ((nat \<times> SealedSegmentMeta list \<times> string list) \<times> dir \<times> ('b, 's) rings) result option" where
  "recover_each ao now io max_len wm [] acc state = Some (Inr (acc, state))"
| "recover_each ao now io max_len wm ((num, path) # segs) (max_id, sealed, obsolete) state =
     (case recover_single_segment ao now (ri_segment io num) num path max_len wm state of
        None \<Rightarrow> None
      | Some (Inl e) \<Rightarrow> Some (Inl e)
      | Some (Inr (meta, state')) \<Rightarrow>
          recover_each ao now io max_len wm segs
            (max max_id num,
             (case meta of Some m \<Rightarrow> sealed @ [m] | None \<Rightarrow> sealed),
             (case meta of Some _ \<Rightarrow> obsolete | None \<Rightarrow> obsolete @ [path])) state')"

definition advance_ring_state :: "('b, 's) SignalRingState \<Rightarrow> ('b, 's) SignalRingState" where
  "advance_ring_state rs =
     (case advance_watermark (ring rs) (committed_seq rs) of (r, c) \<Rightarrow> rs\<lparr>ring := r, committed_seq := c\<rparr>)"

definition recover_segments ::
  "('b, 's) arrow_ops \<Rightarrow> (DiskWatermark \<Rightarrow> byte list) \<Rightarrow> instant \<Rightarrow> recover_io \<Rightarrow> BufferConfig \<Rightarrow>
   (unit + string option) list \<Rightarrow> DiskWatermark \<Rightarrow> dir \<times> ('b, 's) rings \<Rightarrow>
   (nat \<times> SealedSegmentMeta list \<times> DiskWatermark \<times> dir \<times> ('b, 's) rings) result option" where
  "recover_segments ao to_json now io config listing wm state =
     (if \<not> ri_read_dir io then Some (Inl (Storage ''failed to read buffer disk_path''))
      else case list_segments listing of
        Inl e \<Rightarrow> Some (Inl e)
      | Inr segs \<Rightarrow>
        (case recover_each ao now io (max_disk_frame_payload_bytes config) wm (sort_key fst segs) (0, [], []) state of
           None \<Rightarrow> None
         | Some (Inl e) \<Rightarrow> Some (Inl e)
         | Some (Inr ((max_id, sealed, obsolete), (files, rings))) \<Rightarrow>
             let rings' = (\<lambda>sig. advance_ring_state (rings sig));
                 (wm', changed) = merge_monotonic wm (from_rings (wm_instance_id wm) rings')
             in Some (try_bind
                  (if changed
                   then case write_watermark_atomic to_json (ri_merge_fault io) wm' files of
                          (Inl e, _) \<Rightarrow> Inl (Storage e)
                        | (Inr _, ds) \<Rightarrow> Inr (after files ds)
                   else Inr files) (\<lambda>files1.
                    Inr (max_id, sealed, wm',
                         foldl (\<lambda>d p. if ri_rm io p then d(p := None) else d) files1 obsolete, rings')))))"

text \<open>\<open>open_and_recover\<close>: the state the writer thread starts from, and the rings.\<close>

definition open_and_recover ::
  "('b, 's) arrow_ops \<Rightarrow> (DiskWatermark \<Rightarrow> byte list) \<Rightarrow> (byte list \<Rightarrow> string + DiskWatermark) \<Rightarrow> nat \<Rightarrow>
   instant \<Rightarrow> recover_io \<Rightarrow> BufferConfig \<Rightarrow> (unit + string option) list \<Rightarrow> dir \<times> ('b, 's) rings \<Rightarrow>
   (nat \<times> writer_config \<times> WriterState \<times> ('b, 's) rings) result option" where
  "open_and_recover ao to_json from_json fresh_id now io config listing state =
     (if disk_path config = None then Some (Inl (Storage ''disk mode requires disk_path''))
      else if \<not> ri_create_dir io then Some (Inl (Storage ''failed to create buffer disk_path''))
      else case acquire_advisory_lock io of
        Inl e \<Rightarrow> Some (Inl e)
      | Inr _ \<Rightarrow>
        (case load_initial_watermark to_json from_json fresh_id io state of
           Inl e \<Rightarrow> Some (Inl e)
         | Inr (wm, state1) \<Rightarrow>
           (case recover_segments ao to_json now io config listing wm state1 of
              None \<Rightarrow> None
            | Some (Inl e) \<Rightarrow> Some (Inl e)
            | Some (Inr (max_id, sealed, wm', files, rings)) \<Rightarrow>
                if \<not> ri_spawn io then Some (Inl (Storage ''failed to spawn disk buffer writer thread''))
                else Some (Inr (wm_instance_id wm,
                       \<lparr>wc_segment_size_bytes = segment_size_bytes config,
                        wc_max_payload_len = max_disk_frame_payload_bytes config,
                        wc_sync_on_write = sync_on_write config\<rparr>,
                       \<lparr>ws_active = None, ws_sealed = sealed, ws_next_segment_id = sat_add max_id 1,
                        ws_persisted = wm', ws_staged = wm', ws_files = files\<rparr>, rings)))))"

section \<open>The scan ends\<close>

lemma fill_Filled: "fill n got bs script = (Filled x, (bs', s')) \<Longrightarrow> n \<le> length x \<and> got @ bs = x @ bs'"
proof (induction script arbitrary: got bs)
  case Nil
  then show ?case by (auto split: if_splits)
next
  case (Cons e rest)
  show ?case
  proof (cases "n \<le> length got")
    case True
    then show ?thesis using Cons.prems by auto
  next
    case False
    show ?thesis
    proof (cases e)
      case (Chunk k)
      let ?c = "take (min (n - length got) (Suc k)) bs"
      have all: "?c @ drop (length ?c) bs = bs" by (simp add: min_def)
      from Cons.prems False Chunk have "fill n (got @ ?c) (drop (length ?c) bs) rest = (Filled x, (bs', s'))"
        by (simp add: Let_def split: if_splits)
      from Cons.IH [OF this] show ?thesis unfolding append_assoc all .
    qed (use Cons False in auto)
  qed
qed

lemma decode_frame_at_end:
  "decode_frame ao ([], script) m = Inr None \<or> decode_frame ao ([], script) m = Inl TornFrame \<or>
   (\<exists>e. decode_frame ao ([], script) m = Inl (Io e))"
proof -
  obtain res bs' s' where f: "fill FRAME_HEADER_LEN [] [] script = (res, (bs', s'))" by (metis surj_pair)
  have "res \<noteq> Filled x" for x
    using fill_Filled [of FRAME_HEADER_LEN "[]" "[]" script x bs' s'] f by (auto simp: FRAME_HEADER_LEN_def)
  then show ?thesis using f by (cases res) (auto simp: decode_frame_def)
qed

lemma scan_advance:
  assumes "offset < len" and "len \<le> u64_max"
  shows "len - sat_add offset (sat_add32 FRAME_HEADER_LEN k) < len - offset"
  using assms by (auto simp: sat_add_def sat_add32_def FRAME_HEADER_LEN_def u32_max_def min_def)

lemma scan_segment_total:
  assumes "length content \<le> u64_max"
  shows "length content - offset < fuel \<Longrightarrow>
    scan_segment fuel ao now io num content m wm offset ms u rings \<noteq> None"
proof (induction fuel arbitrary: offset ms u rings)
  case (Suc fuel)
  show ?case
  proof (cases "offset < length content")
    case True
    have step: "scan_segment fuel ao now io num content m wm (sat_add offset (sat_add32 FRAME_HEADER_LEN k)) ms' u' rings' \<noteq> None"
      for k ms' u' rings'
      using Suc.prems scan_advance [OF True assms, of k] by (intro Suc.IH) simp
    show ?thesis
      using step by (auto simp: Let_def split: sum.splits option.splits FrameDecodeError.splits prod.splits)
  next
    case False
    then show ?thesis
      using decode_frame_at_end [of ao "si_read io offset" "scan_bound m (length content) offset"]
      by (auto split: sum.splits)
  qed
qed simp

section \<open>Scanning what a writer left behind\<close>

text \<open>A frame of a segment: signal, sequence number, rows, payload and the batch it decodes to.\<close>

type_synonym 'b seg_frame = "SignalKind \<times> nat \<times> nat \<times> byte list \<times> 'b"

definition frame_bytes :: "('b, 's) arrow_ops \<Rightarrow> 'b seg_frame \<Rightarrow> byte list" where
  "frame_bytes ao f = (case f of (sg, sq, n, p, b) \<Rightarrow> frame_of ao sg sq n p)"

lemma frame_bytes_simp [simp]: "frame_bytes ao (sg, sq, n, p, b) = frame_of ao sg sq n p"
  by (simp add: frame_bytes_def)

definition frame_fits :: "('b, 's) arrow_ops \<Rightarrow> 'b seg_frame \<Rightarrow> bool" where
  "frame_fits ao f = (case f of (sg, sq, n, p, b) \<Rightarrow>
     sq \<le> u64_max \<and> n \<le> u32_max \<and> length p + 28 \<le> u32_max \<and> ao_ipc_decode ao p = Inr (Some b))"

text \<open>The torn tail of a crashed write: nothing, or a proper prefix of a frame within the bound.\<close>

definition torn_tail :: "('b, 's) arrow_ops \<Rightarrow> nat \<Rightarrow> byte list \<Rightarrow> bool" where
  "torn_tail ao m tail \<longleftrightarrow>
     tail = [] \<or> (\<exists>sg sq n p k. sq \<le> u64_max \<and> n \<le> u32_max \<and> length p \<le> u32_max \<and> length p \<le> m \<and>
        0 < k \<and> k < 28 + length p \<and> tail = take k (frame_of ao sg sq n p))"

definition io_works :: "segment_io \<Rightarrow> bool" where
  "io_works io \<longleftrightarrow> si_open io \<and> si_stat io \<and> (\<forall>i. si_seek io i) \<and> (\<forall>i. benign (si_read io i)) \<and>
     si_truncate io \<and> si_sync io"

fun replay ::
  "('b, 's) arrow_ops \<Rightarrow> instant \<Rightarrow> nat \<Rightarrow> DiskWatermark \<Rightarrow> nat \<Rightarrow> 'b seg_frame list \<Rightarrow>
   (SignalKind \<Rightarrow> nat) \<times> nat \<times> ('b, 's) rings \<Rightarrow> (SignalKind \<Rightarrow> nat) \<times> nat \<times> ('b, 's) rings" where
  "replay ao now num wm off [] acc = acc"
| "replay ao now num wm off ((sg, sq, n, p, b) # fs) (ms, u, rings) =
     (case record_recovered_frame ao now num off (28 + length p) (header_of ao sg sq n p) b wm (rings sg) of
        (rs, fresh) \<Rightarrow>
          replay ao now num wm (off + (28 + length p)) fs
            (ms(sg := max (ms sg) sq), if fresh then sat_add u 1 else u, rings(sg := rs)))"

lemma scan_intact:
  assumes "crc_ok ao" and "io_works io" and "torn_tail ao m tail"
    and "length content \<le> u64_max"
  shows "content = pre @ concat (map (frame_bytes ao) fs) @ tail \<Longrightarrow> list_all (frame_fits ao) fs \<Longrightarrow>
    length fs < fuel \<Longrightarrow>
    scan_segment fuel ao now io num content m wm (length pre) ms u rings =
      Some (Inr (case replay ao now num wm (length pre) fs (ms, u, rings) of (ms', u', rings') \<Rightarrow>
        (ms', u', rings', pre @ concat (map (frame_bytes ao) fs))))"
proof (induction fs arbitrary: pre fuel ms u rings)
  case Nil
  obtain fuel' where fuel: "fuel = Suc fuel'" using Nil.prems(3) by (cases fuel) auto
  have seek: "si_seek io (length pre)" and ben: "benign (si_read io (length pre))"
    using assms(2) by (auto simp: io_works_def)
  have rest: "drop (length pre) content = tail" using Nil.prems(1) by simp
  have cut: "truncate_torn_segment io (length pre) content = Inr pre"
    using assms(2) Nil.prems(1) by (simp add: truncate_torn_segment_def io_works_def)
  show ?case
  proof (cases "tail = []")
    case True
    then have "decode_frame ao (drop (length pre) content, si_read io (length pre)) x = Inr None" for x
      by (simp add: rest decode_frame_bytes [OF ben] decode_bytes_def)
    then show ?thesis using fuel seek Nil.prems(1) True by simp
  next
    case False
    then obtain sg sq n p k where "sq \<le> u64_max" "n \<le> u32_max" "length p \<le> u32_max" and p: "length p \<le> m"
      and "0 < k" "k < 28 + length p" "tail = take k (frame_of ao sg sq n p)"
      using assms(3) by (auto simp: torn_tail_def)
    moreover have "length p \<le> scan_bound m (length content) (length pre)" using p by (simp add: scan_bound_def)
    ultimately have "decode_frame ao (drop (length pre) content, si_read io (length pre))
        (scan_bound m (length content) (length pre)) = Inl TornFrame"
      using decode_bytes_torn [OF assms(1), of sq n p _ k sg] by (simp add: rest decode_frame_bytes [OF ben])
    then show ?thesis using fuel seek cut by simp
  qed
next
  case (Cons f fs)
  obtain sg sq n p b where f: "f = (sg, sq, n, p, b)" by (cases f)
  obtain fuel' where fuel: "fuel = Suc fuel'" using Cons.prems(3) by (cases fuel) auto
  have fit: "sq \<le> u64_max" "n \<le> u32_max" "length p + 28 \<le> u32_max" "ao_ipc_decode ao p = Inr (Some b)"
    using Cons.prems(2) by (simp_all add: f frame_fits_def)
  have seek: "si_seek io (length pre)" and ben: "benign (si_read io (length pre))"
    using assms(2) by (auto simp: io_works_def)
  let ?rest = "concat (map (frame_bytes ao) fs) @ tail" and ?bound = "scan_bound m (length content) (length pre)"
  have drp: "drop (length pre) content = frame_of ao sg sq n p @ ?rest"
    using Cons.prems(1) by (simp add: f)
  have "length content = length pre + (28 + length p) + length ?rest"
    using Cons.prems(1) by (simp add: f)
  then have len: "length pre + (28 + length p) \<le> length content" and "length p \<le> ?bound"
    using fit(3) by (simp_all add: scan_bound_def FRAME_HEADER_LEN_def)
  then have dec: "decode_frame ao (drop (length pre) content, si_read io (length pre)) ?bound =
      Inr (Some (header_of ao sg sq n p, b))"
    using decode_bytes_frame [OF assms(1) fit(1,2), of p ?bound sg ?rest] fit
    by (simp add: drp decode_frame_bytes [OF ben])
  have fl: "sat_add32 FRAME_HEADER_LEN (length p) = 28 + length p"
    using fit(3) by (simp add: sat_add32_def FRAME_HEADER_LEN_def)
  have off: "sat_add (length pre) (28 + length p) = length (pre @ frame_bytes ao f)"
    using len assms(4) by (simp add: sat_add_exact f)
  obtain rs fresh where rec: "record_recovered_frame ao now num (length pre) (28 + length p)
      (header_of ao sg sq n p) b wm (rings sg) = (rs, fresh)" by fastforce
  have "scan_segment fuel' ao now io num content m wm (length (pre @ frame_bytes ao f)) ms' u' rings' =
      Some (Inr (case replay ao now num wm (length (pre @ frame_bytes ao f)) fs (ms', u', rings') of (ms', u', rings') \<Rightarrow>
        (ms', u', rings', (pre @ frame_bytes ao f) @ concat (map (frame_bytes ao) fs))))" for ms' u' rings'
    by (rule Cons.IH) (use Cons.prems fuel in simp_all)
  then show ?case
    unfolding fuel using seek dec rec fl off by (simp add: f Let_def)
qed

end
