(* ===== verification/DeadLetter.thy ===== *)
theory DeadLetter
  imports Watermark Frame
begin

text \<open>
  The dead-letter store (\<open>crates/core/src/buffer/dead_letter.rs\<close>): a directory of quarantined
  batches with a byte quota. Files are a map from paths below the store's directory to contents,
  kept with the store as \<open>ds_files\<close>; the outcome of every system call is an argument. The Arrow file
  writer is a field of \<open>arrow_ops\<close>, the JSON serializer an argument.
\<close>

section \<open>Paths\<close>

datatype component = RootDir | CurDir | ParentDir | Normal string

fun split_slash :: "string \<Rightarrow> string list" where
  "split_slash [] = [[]]"
| "split_slash (c # s) =
     (if c = CHR ''/'' then [] # split_slash s
      else case split_slash s of [] \<Rightarrow> [[c]] | p # ps \<Rightarrow> (c # p) # ps)"

text \<open>\<open>Path::components\<close> on Unix: empty and inner \<open>.\<close> pieces are skipped.\<close>

fun inner_component :: "string \<Rightarrow> component list" where
  "inner_component p =
     (if p = [] \<or> p = ''.'' then [] else if p = ''..'' then [ParentDir] else [Normal p])"

definition path_components :: "string \<Rightarrow> component list" where
  "path_components s =
     (let ps = split_slash s
      in if s \<noteq> [] \<and> hd s = CHR ''/'' then RootDir # concat (map inner_component ps)
         else (if hd ps = ''.'' then [CurDir] else []) @ concat (map inner_component ps))"

definition is_safe_path_component :: "string \<Rightarrow> bool" where
  "is_safe_path_component val =
     (if val = [] \<or> CHR ''/'' \<in> set val \<or> CHR 0x5C \<in> set val \<or> CHR 0x00 \<in> set val then False
      else case path_components val of
             [Normal _] \<Rightarrow> True
           | _ \<Rightarrow> False)"

section \<open>The store\<close>

record DeadLetterMetadata =
  dm_sink :: string
  dm_signal :: SignalKind
  dm_first_seq :: nat
  dm_last_seq :: nat
  dm_row_count :: nat
  dm_attempts :: nat
  dm_reason :: string
  dm_timestamp_unix_ms :: nat

record DeadLetterStore =
  ds_max_bytes :: nat
  ds_current_bytes :: nat
  ds_file_seq :: nat
  ds_files :: dir

text \<open>
  What the scan of an existing directory sees: per entry its name if it is text and the result of
  \<open>metadata\<close>. \<open>'d\<close> is the listing of a subdirectory.
\<close>

datatype 'd stat = StatFile nat | StatDir 'd | StatOther | StatNotFound | StatError

datatype 'd listing = ListNotFound | ListError | Listing "(unit + (string option \<times> 'd stat)) list"

text \<open>\<open>pid\<close> is the identifier of the running process.\<close>

definition is_stale_tmp_file :: "nat \<Rightarrow> string \<Rightarrow> bool" where
  "is_stale_tmp_file pid name =
     (if \<not> starts_with ''.tmp_'' name then False
      else \<not> str_contains (''_'' @ show_nat pid @ ''_'') name)"

definition stale_entry :: "nat \<Rightarrow> string option \<Rightarrow> bool" where
  "stale_entry pid name = (case name of None \<Rightarrow> False | Some n \<Rightarrow> is_stale_tmp_file pid n)"

fun scan_sub_entries :: "nat \<Rightarrow> (unit + (string option \<times> 'd stat)) list \<Rightarrow> nat \<Rightarrow> nat result" where
  "scan_sub_entries pid [] acc = Inr acc"
| "scan_sub_entries pid (Inl _ # es) acc = Inl (Storage ''failed to read sink dead-letter entry'')"
| "scan_sub_entries pid (Inr (name, st) # es) acc =
     (if stale_entry pid name then scan_sub_entries pid es acc
      else case st of
        StatNotFound \<Rightarrow> scan_sub_entries pid es acc
      | StatError \<Rightarrow> Inl (Storage ''failed to stat sink dead-letter entry'')
      | StatFile len \<Rightarrow> scan_sub_entries pid es (sat_add acc len)
      | _ \<Rightarrow> scan_sub_entries pid es acc)"

definition scan_subdir_bytes :: "nat \<Rightarrow> 'd listing \<Rightarrow> nat result" where
  "scan_subdir_bytes pid dir =
     (case dir of
        ListNotFound \<Rightarrow> Inr 0
      | ListError \<Rightarrow> Inl (Storage ''failed to scan sink dead-letter directory'')
      | Listing es \<Rightarrow> scan_sub_entries pid es 0)"

fun scan_entries :: "nat \<Rightarrow> (unit + (string option \<times> ('d listing) stat)) list \<Rightarrow> nat \<Rightarrow> nat result" where
  "scan_entries pid [] acc = Inr acc"
| "scan_entries pid (Inl _ # es) acc = Inl (Storage ''failed to read dead-letter directory entry'')"
| "scan_entries pid (Inr (name, st) # es) acc =
     (if stale_entry pid name then scan_entries pid es acc
      else case st of
        StatNotFound \<Rightarrow> scan_entries pid es acc
      | StatError \<Rightarrow> Inl (Storage ''failed to stat dead-letter entry'')
      | StatFile len \<Rightarrow> scan_entries pid es (sat_add acc len)
      | StatDir sub \<Rightarrow>
          try_bind (scan_subdir_bytes pid sub) (\<lambda>b. scan_entries pid es (sat_add acc b))
      | StatOther \<Rightarrow> scan_entries pid es acc)"

definition scan_existing_bytes :: "nat \<Rightarrow> ('d listing) listing \<Rightarrow> nat result" where
  "scan_existing_bytes pid dir =
     (case dir of
        ListNotFound \<Rightarrow> Inr 0
      | ListError \<Rightarrow> Inl (Storage ''failed to scan dead-letter directory'')
      | Listing es \<Rightarrow> scan_entries pid es 0)"

definition store_with :: "nat \<Rightarrow> nat \<Rightarrow> dir \<Rightarrow> DeadLetterStore" where
  "store_with max_bytes existing files =
     \<lparr>ds_max_bytes = max_bytes, ds_current_bytes = existing, ds_file_seq = 1, ds_files = files\<rparr>"

definition dead_letter_new :: "nat \<Rightarrow> bool \<Rightarrow> ('d listing) listing \<Rightarrow> dir \<Rightarrow> nat \<Rightarrow> DeadLetterStore result" where
  "dead_letter_new pid mkdir_ok lst files max_bytes =
     (if \<not> mkdir_ok then Inl (Storage ''failed to create dead-letter directory'')
      else try_bind (scan_existing_bytes pid lst) (\<lambda>existing. Inr (store_with max_bytes existing files)))"

definition dead_letter_new_default :: "nat \<Rightarrow> bool \<Rightarrow> ('d listing) listing \<Rightarrow> dir \<Rightarrow> nat \<Rightarrow> DeadLetterStore result" where
  "dead_letter_new_default pid dir_exists lst files max_bytes =
     try_bind (if dir_exists then scan_existing_bytes pid lst else Inr 0)
       (\<lambda>existing. Inr (store_with max_bytes existing files))"

definition empty_fallback :: "dir \<Rightarrow> nat \<Rightarrow> DeadLetterStore" where
  "empty_fallback files max_bytes = store_with max_bytes 0 files"

section \<open>Reserving bytes\<close>

text \<open>
  The compare-and-swap loop. The list says what happens just before each attempt: \<open>Inl ()\<close> the weak
  exchange fails for no reason, \<open>Inr v\<close> another thread leaves \<open>v\<close> in the cell; an exhausted list
  means no more interference. The result carries the cell's value afterwards.
\<close>

fun reserve_loop :: "nat \<Rightarrow> nat \<Rightarrow> (unit + nat) list \<Rightarrow> nat \<Rightarrow> nat \<Rightarrow> unit result \<times> nat" where
  "reserve_loop max_bytes added env current cell =
     (let nxt = sat_add current added
      in if nxt > max_bytes then (Inl (Storage ''dead-letter store quota exceeded''), cell)
         else case env of
           [] \<Rightarrow> if cell = current then (Inr (), nxt)
                 else (let nxt' = sat_add cell added
                       in if nxt' > max_bytes then (Inl (Storage ''dead-letter store quota exceeded''), cell)
                          else (Inr (), nxt'))
         | Inl _ # env' \<Rightarrow> reserve_loop max_bytes added env' cell cell
         | Inr v # env' \<Rightarrow> if v = current then (Inr (), nxt) else reserve_loop max_bytes added env' v v)"

declare reserve_loop.simps [simp del]

definition reserve_bytes :: "(unit + nat) list \<Rightarrow> nat \<Rightarrow> DeadLetterStore \<Rightarrow> unit result \<times> DeadLetterStore" where
  "reserve_bytes env added ds =
     (case reserve_loop (ds_max_bytes ds) added env (ds_current_bytes ds) (ds_current_bytes ds) of
        (res, cell) \<Rightarrow> (res, ds\<lparr>ds_current_bytes := cell\<rparr>))"

section \<open>Writing\<close>

definition tmp_path :: "nat \<Rightarrow> string \<Rightarrow> string \<Rightarrow> nat \<Rightarrow> string" where
  "tmp_path pid sink_dir file_name seq =
     sink_dir @ ''/'' @ ''.tmp_'' @ file_name @ ''_'' @ show_nat pid @ ''_'' @ show_nat seq"

text \<open>
  \<open>write_file_atomic\<close>: the result and the files after each call. \<open>rm_ok\<close> says whether removing the
  temporary file succeeds.
\<close>

definition write_file_atomic ::
  "nat \<Rightarrow> (string \<Rightarrow> bool) \<Rightarrow> replace_fault \<Rightarrow> string \<Rightarrow> string \<Rightarrow> byte list \<Rightarrow> nat \<Rightarrow> dir \<Rightarrow> unit result \<times> dir list" where
  "write_file_atomic pid rm_ok fault sink_dir file_name bytes seq d =
     (let tmp = tmp_path pid sink_dir file_name seq; final = sink_dir @ ''/'' @ file_name;
          d1 = d(tmp \<mapsto> []); d2 = d(tmp \<mapsto> bytes);
          remove = (\<lambda>d'. if rm_ok tmp then [d'(tmp := None)] else [])
      in if fault = OpenFails \<or> d tmp \<noteq> None
         then (Inl (Storage ''failed to create temporary dead-letter file''), [])
         else case fault of
           WriteFails part \<Rightarrow>
             (Inl (Storage ''failed to write temporary dead-letter file''),
              [d1, d(tmp \<mapsto> part)] @ remove (d(tmp \<mapsto> part)))
         | SyncFails \<Rightarrow>
             (Inl (Storage ''failed to sync temporary dead-letter file''), [d1, d2] @ remove d2)
         | RenameFails \<Rightarrow>
             (Inl (Storage ''failed to rename temporary dead-letter file''), [d1, d2] @ remove d2)
         | _ \<Rightarrow> (Inr (), [d1, d2, (d2(final \<mapsto> bytes))(tmp := None)]))"

record dead_letter_io =
  di_pid :: nat
  di_env :: "(unit + nat) list"
  di_json_ok :: bool
  di_mkdir :: bool
  di_arrow :: replace_fault
  di_json :: replace_fault
  di_rm :: "string \<Rightarrow> bool"

definition base_stem :: "DeadLetterMetadata \<Rightarrow> string" where
  "base_stem meta = as_str (dm_signal meta) @ ''_'' @ show_nat (dm_first_seq meta) @ ''_'' @
     show_nat (dm_last_seq meta) @ ''_'' @ show_nat (dm_timestamp_unix_ms meta)"

definition choose_stem :: "DeadLetterMetadata \<Rightarrow> nat \<Rightarrow> dir \<Rightarrow> string" where
  "choose_stem meta seq files =
     (if files (dm_sink meta @ ''/'' @ base_stem meta @ ''.arrow'') \<noteq> None
      then base_stem meta @ ''_'' @ show_nat seq else base_stem meta)"

text \<open>\<open>persist_pair\<close>: the path of the Arrow file, and the store.\<close>

definition persist_pair ::
  "dead_letter_io \<Rightarrow> DeadLetterMetadata \<Rightarrow> byte list \<Rightarrow> byte list \<Rightarrow> DeadLetterStore \<Rightarrow> string result \<times> DeadLetterStore" where
  "persist_pair io meta arrow_bytes json_bytes ds =
     (if \<not> di_mkdir io then (Inl (Storage ''failed to create sink dead-letter directory''), ds)
      else let seq = ds_file_seq ds;
               ds1 = ds\<lparr>ds_file_seq := atomic_add seq 1\<rparr>;
               sink_dir = dm_sink meta;
               stem = choose_stem meta seq (ds_files ds);
               arrow_path = sink_dir @ ''/'' @ stem @ ''.arrow''
           in case write_file_atomic (di_pid io) (di_rm io) (di_arrow io) sink_dir (stem @ ''.arrow'') arrow_bytes seq (ds_files ds) of
                (Inl e, tr) \<Rightarrow> (Inl e, ds1\<lparr>ds_files := after (ds_files ds) tr\<rparr>)
              | (Inr _, tr) \<Rightarrow>
                  let files1 = after (ds_files ds) tr
                  in case write_file_atomic (di_pid io) (di_rm io) (di_json io) sink_dir (stem @ ''.json'') json_bytes seq files1 of
                       (Inl e, tr2) \<Rightarrow>
                         let files2 = after files1 tr2
                         in (Inl e, ds1\<lparr>ds_files := (if di_rm io arrow_path then files2(arrow_path := None) else files2)\<rparr>)
                     | (Inr _, tr2) \<Rightarrow> (Inr arrow_path, ds1\<lparr>ds_files := after files1 tr2\<rparr>))"

definition write_quarantine ::
  "('b, 's) arrow_ops \<Rightarrow> (DeadLetterMetadata \<Rightarrow> byte list) \<Rightarrow> dead_letter_io \<Rightarrow> DeadLetterMetadata \<Rightarrow> 'b list \<Rightarrow>
   DeadLetterStore \<Rightarrow> string result \<times> DeadLetterStore" where
  "write_quarantine ao to_json io meta batches ds =
     (if \<not> is_safe_path_component (dm_sink meta)
      then (Inl (Storage ''dead-letter sink name contains unsafe path components''), ds)
      else case batches of
        [] \<Rightarrow> (Inl (Storage ''cannot quarantine empty RecordBatch slice to dead-letter store''), ds)
      | b # _ \<Rightarrow>
        (case ao_file_encode ao (ao_schema ao b) batches of
           Inl e \<Rightarrow> (Inl e, ds)
         | Inr arrow_bytes \<Rightarrow>
             if \<not> di_json_ok io then (Inl (Storage ''failed to serialize dead-letter manifest''), ds)
             else let json_bytes = to_json meta;
                      added = sat_add (length arrow_bytes) (length json_bytes)
                  in case reserve_bytes (di_env io) added ds of
                       (Inl e, ds1) \<Rightarrow> (Inl e, ds1)
                     | (Inr _, ds1) \<Rightarrow>
                       (case persist_pair io meta arrow_bytes json_bytes ds1 of
                          (Inr path, ds2) \<Rightarrow> (Inr path, ds2)
                        | (Inl e, ds2) \<Rightarrow>
                            (Inl e, ds2\<lparr>ds_current_bytes := atomic_sub (ds_current_bytes ds2) added\<rparr>))))"

section \<open>Lemmas\<close>

lemma split_slash_not_Nil [simp]: "split_slash s \<noteq> []"
  by (induction s) (auto split: list.split)

lemma split_slash_single: "CHR ''/'' \<notin> set s \<Longrightarrow> split_slash s = [s]"
  by (induction s) auto

lemma split_slash_append: "split_slash (a @ CHR ''/'' # b) = split_slash a @ split_slash b"
proof (induction a)
  case (Cons c a)
  then show ?case by (cases "split_slash a") auto
qed simp

lemma safe_component_iff:
  "is_safe_path_component val \<longleftrightarrow>
     val \<noteq> [] \<and> val \<noteq> ''.'' \<and> val \<noteq> ''..'' \<and> CHR ''/'' \<notin> set val \<and> CHR 0x5C \<notin> set val \<and> CHR 0x00 \<notin> set val"
proof (cases "val = [] \<or> CHR ''/'' \<in> set val \<or> CHR 0x5C \<in> set val \<or> CHR 0x00 \<in> set val")
  case True
  then show ?thesis by (auto simp: is_safe_path_component_def)
next
  case False
  then have "split_slash val = [val]" by (simp add: split_slash_single)
  moreover have "hd val \<noteq> CHR ''/''" using False hd_in_set by metis
  ultimately have "path_components val = (if val = ''.'' then [CurDir] else []) @ inner_component val"
    by (simp add: path_components_def)
  then show ?thesis using False by (auto simp: is_safe_path_component_def)
qed

lemma path_components_join:
  assumes "is_safe_path_component val" and "d \<noteq> []"
  shows "path_components (d @ ''/'' @ val) = path_components d @ [Normal val]"
proof -
  have v: "split_slash val = [val]" "inner_component val = [Normal val]"
    using assms(1) by (auto simp: safe_component_iff split_slash_single)
  have "split_slash (d @ CHR ''/'' # val) = split_slash d @ [val]"
    by (simp add: split_slash_append v)
  then show ?thesis
    using assms(2) v(2) by (simp add: path_components_def Let_def del: inner_component.simps)
qed

lemma reserve_loop_spec:
  "reserve_loop mx added env current cell = (res, c) \<Longrightarrow>
   (case res of
      Inr _ \<Rightarrow> c \<le> mx \<and> (\<exists>v. c = sat_add v added \<and> (v = current \<or> v = cell \<or> Inr v \<in> set env))
    | Inl _ \<Rightarrow> c = cell \<or> Inr c \<in> set env)"
proof (induction mx added env current cell rule: reserve_loop.induct)
  case (1 mx added env current cell)
  show ?case
  proof (cases "sat_add current added > mx")
    case True
    then show ?thesis using 1(3) by (auto simp: reserve_loop.simps [of mx added env])
  next
    case fits: False
    show ?thesis
    proof (cases env)
      case Nil
      then show ?thesis using 1(3) fits
        by (auto simp: reserve_loop.simps [of mx added "[]"] Let_def split: if_splits)
    next
      case (Cons e env')
      show ?thesis
      proof (cases e)
        case (Inl u)
        then have "reserve_loop mx added env' cell cell = (res, c)"
          using 1(3) fits Cons by (simp add: reserve_loop.simps [of mx added "Inl () # env'"])
        from 1(1) [OF refl fits Cons Inl this] show ?thesis
          using Cons by (auto split: sum.splits)
      next
        case (Inr v)
        show ?thesis
        proof (cases "v = current")
          case True
          then show ?thesis using 1(3) fits Cons Inr by (auto simp: reserve_loop.simps [of mx added "Inr current # env'"])
        next
          case False
          then have "reserve_loop mx added env' v v = (res, c)"
            using 1(3) fits Cons Inr by (simp add: reserve_loop.simps [of mx added "Inr v # env'"])
          from 1(2) [OF refl fits Cons Inr False this] show ?thesis
            using Cons Inr by (auto split: sum.splits)
        qed
      qed
    qed
  qed
qed

lemma reserve_alone:
  "reserve_bytes [] added ds =
   (if sat_add (ds_current_bytes ds) added > ds_max_bytes ds
    then (Inl (Storage ''dead-letter store quota exceeded''), ds)
    else (Inr (), ds\<lparr>ds_current_bytes := sat_add (ds_current_bytes ds) added\<rparr>))"
  by (simp add: reserve_bytes_def reserve_loop.simps [of _ _ "[]"] Let_def)

lemma tmp_path_neq: "tmp_path pid sd f seq \<noteq> sd @ ''/'' @ f"
proof
  assume "tmp_path pid sd f seq = sd @ ''/'' @ f"
  then have "length (tmp_path pid sd f seq) = length (sd @ ''/'' @ f)" by simp
  then show False by (simp add: tmp_path_def)
qed

lemma write_file_atomic_ok:
  assumes "write_file_atomic pid rm fault sd f bytes seq d = (Inr (), tr)"
  shows "after d tr = d(sd @ ''/'' @ f \<mapsto> bytes)" and "d (tmp_path pid sd f seq) = None"
proof -
  have none: "d (tmp_path pid sd f seq) = None" and
    tr: "last tr = ((d(tmp_path pid sd f seq \<mapsto> bytes))(sd @ ''/'' @ f \<mapsto> bytes))(tmp_path pid sd f seq := None)"
    and ne: "tr \<noteq> []"
    using assms by (cases fault; auto simp: write_file_atomic_def Let_def split: if_splits)+
  have "last tr = d(sd @ ''/'' @ f \<mapsto> bytes)"
    unfolding tr using none tmp_path_neq [of pid sd f seq] by (auto simp: fun_eq_iff)
  then show "after d tr = d(sd @ ''/'' @ f \<mapsto> bytes)" using ne by (simp add: after_def)
  show "d (tmp_path pid sd f seq) = None" by (rule none)
qed

lemma write_file_atomic_error:
  assumes "write_file_atomic pid rm fault sd f bytes seq d = (Inl e, tr)" and "rm (tmp_path pid sd f seq)"
  shows "after d tr = d"
proof -
  have bk: "d (tmp_path pid sd f seq) = None \<Longrightarrow> (d(tmp_path pid sd f seq \<mapsto> x))(tmp_path pid sd f seq := None) = d" for x
    by (auto simp: fun_eq_iff)
  show ?thesis
    using assms bk by (cases fault) (auto simp: write_file_atomic_def Let_def after_def split: if_splits)
qed

text \<open>What persisting a pair of files does to the store.\<close>

lemma persist_pair_frame:
  assumes "persist_pair io meta ab jb ds = (res, ds')"
  shows "ds_current_bytes ds' = ds_current_bytes ds" and "ds_max_bytes ds' = ds_max_bytes ds"
  using assms by (auto simp: persist_pair_def Let_def split: if_splits prod.splits sum.splits)

lemma persist_pair_ok:
  assumes "persist_pair io meta ab jb ds = (Inr path, ds')"
  defines "stem \<equiv> choose_stem meta (ds_file_seq ds) (ds_files ds)"
  shows "path = dm_sink meta @ ''/'' @ stem @ ''.arrow'' \<and>
    ds_files ds' = (ds_files ds)(path \<mapsto> ab, dm_sink meta @ ''/'' @ stem @ ''.json'' \<mapsto> jb)"
proof -
  let ?w = "\<lambda>fault ext bytes d. write_file_atomic (di_pid io) (di_rm io) fault (dm_sink meta) (stem @ ext) bytes (ds_file_seq ds) d"
  obtain r1 t1 where w1: "?w (di_arrow io) ''.arrow'' ab (ds_files ds) = (r1, t1)" by fastforce
  obtain r2 t2 where w2: "?w (di_json io) ''.json'' jb (after (ds_files ds) t1) = (r2, t2)" by fastforce
  have ok: "r1 = Inr ()" "r2 = Inr ()" "path = dm_sink meta @ ''/'' @ stem @ ''.arrow''"
    and f: "ds_files ds' = after (after (ds_files ds) t1) t2"
    using assms(1) w1 w2 unfolding stem_def
    by (auto simp: persist_pair_def Let_def split: if_splits sum.splits)
  show ?thesis
    using write_file_atomic_ok(1) [OF w1 [unfolded ok(1)]] write_file_atomic_ok(1) [OF w2 [unfolded ok(2)]] f ok(3)
    by simp
qed

lemma persist_pair_error:
  assumes "persist_pair io meta ab jb ds = (Inl e, ds')" and rm: "\<And>p. di_rm io p"
    and free: "ds_files ds (dm_sink meta @ ''/'' @ choose_stem meta (ds_file_seq ds) (ds_files ds) @ ''.arrow'') = None"
  shows "ds_files ds' = ds_files ds"
proof -
  let ?stem = "choose_stem meta (ds_file_seq ds) (ds_files ds)"
  let ?w = "\<lambda>fault ext bytes d. write_file_atomic (di_pid io) (di_rm io) fault (dm_sink meta) (?stem @ ext) bytes (ds_file_seq ds) d"
  let ?path = "dm_sink meta @ ''/'' @ ?stem @ ''.arrow''"
  obtain r1 t1 where w1: "?w (di_arrow io) ''.arrow'' ab (ds_files ds) = (r1, t1)" by fastforce
  obtain r2 t2 where w2: "?w (di_json io) ''.json'' jb (after (ds_files ds) t1) = (r2, t2)" by fastforce
  consider (dir) "\<not> di_mkdir io" | (arrow) e1 where "di_mkdir io" "r1 = Inl e1"
    | (json) e2 where "di_mkdir io" "r1 = Inr ()" "r2 = Inl e2"
    using assms(1) w1 w2 by (cases r1; cases r2) (auto simp: persist_pair_def Let_def split: if_splits)
  then show ?thesis
  proof cases
    case dir
    then show ?thesis using assms(1) by (simp add: persist_pair_def)
  next
    case arrow
    then have "ds_files ds' = after (ds_files ds) t1"
      using assms(1) w1 by (auto simp: persist_pair_def Let_def)
    then show ?thesis using write_file_atomic_error [OF w1 [unfolded arrow(2)]] rm by simp
  next
    case json
    then have f: "ds_files ds' = (after (after (ds_files ds) t1) t2)(?path := None)"
      using assms(1) w1 w2 rm by (auto simp: persist_pair_def Let_def)
    have "after (after (ds_files ds) t1) t2 = (ds_files ds)(?path \<mapsto> ab)"
      using write_file_atomic_error [OF w2 [unfolded json(3)]] write_file_atomic_ok(1) [OF w1 [unfolded json(2)]] rm
      by simp
    then show ?thesis using f free by (auto simp: fun_eq_iff)
  qed
qed

section \<open>Properties\<close>

text \<open>
  C25. A sink name accepted as a path component is not empty, \<open>.\<close> or \<open>..\<close> and has no separator or NUL;
  joined to the store's directory it names exactly one directory directly below it.
\<close>

theorem safe_component_stays_below:
  assumes "d \<noteq> []"
  shows "(is_safe_path_component val \<longleftrightarrow>
      val \<noteq> [] \<and> val \<noteq> ''.'' \<and> val \<noteq> ''..'' \<and>
      CHR ''/'' \<notin> set val \<and> CHR 0x5C \<notin> set val \<and> CHR 0x00 \<notin> set val) \<and>
    (is_safe_path_component val \<longrightarrow>
      path_components (d @ ''/'' @ val) = path_components d @ [Normal val])"
  using safe_component_iff path_components_join [OF _ assms] by blast

theorem safe_component_stays_below_witness:
  "path_components (''/var/dlq'' @ ''/'' @ ''es'') = path_components ''/var/dlq'' @ [Normal ''es'']"
proof -
  have "is_safe_path_component ''es''" by (simp add: is_safe_path_component_def path_components_def)
  moreover have "''/var/dlq'' \<noteq> []" by simp
  ultimately show ?thesis using safe_component_stays_below by blast
qed

text \<open>
  C23. The quota holds under contention: whatever values other threads leave in the counter between the
  attempts of the compare-and-swap loop, as long as they respect the quota themselves, and whatever
  call fails, a quarantine write leaves the counter within \<open>max_bytes\<close>.
\<close>

theorem quarantine_respects_quota:
  assumes "write_quarantine ao to_json io meta batches ds = (res, ds')"
    and "ds_current_bytes ds \<le> ds_max_bytes ds" and "ds_max_bytes ds < u64_max"
    and "\<And>v. Inr v \<in> set (di_env io) \<Longrightarrow> v \<le> ds_max_bytes ds"
  shows "ds_current_bytes ds' \<le> ds_max_bytes ds \<and> ds_max_bytes ds' = ds_max_bytes ds"
proof -
  have same: ?thesis if "ds' = ds" using that assms(2) by simp
  show ?thesis
  proof (cases "is_safe_path_component (dm_sink meta) \<and> batches \<noteq> [] \<and> di_json_ok io")
    case False
    then have "ds' = ds" using assms(1)
      by (auto simp: write_quarantine_def Let_def split: if_splits list.splits sum.splits)
    then show ?thesis by (rule same)
  next
    case True
    then obtain b bs where b: "batches = b # bs" by (cases batches) auto
    show ?thesis
    proof (cases "ao_file_encode ao (ao_schema ao b) batches")
      case (Inl e)
      then have "ds' = ds" using assms(1) True b by (simp add: write_quarantine_def)
      then show ?thesis by (rule same)
    next
      case (Inr ab)
      let ?added = "sat_add (length ab) (length (to_json meta))"
      obtain r c where loop: "reserve_loop (ds_max_bytes ds) ?added (di_env io) (ds_current_bytes ds) (ds_current_bytes ds) = (r, c)"
        by fastforce
      let ?ds1 = "ds\<lparr>ds_current_bytes := c\<rparr>"
      obtain r2 ds2 where pp: "persist_pair io meta ab (to_json meta) ?ds1 = (r2, ds2)" by fastforce
      note fr = persist_pair_frame [OF pp]
      have final: "ds' = (case r of Inl _ \<Rightarrow> ?ds1 | Inr _ \<Rightarrow> (case r2 of Inr _ \<Rightarrow> ds2
          | Inl _ \<Rightarrow> ds2\<lparr>ds_current_bytes := atomic_sub (ds_current_bytes ds2) ?added\<rparr>))"
        using assms(1) True b Inr loop pp
        by (auto simp: write_quarantine_def reserve_bytes_def Let_def split: sum.splits)
      show ?thesis
      proof (cases r)
        case (Inl e)
        then have "c = ds_current_bytes ds \<or> Inr c \<in> set (di_env io)" using reserve_loop_spec [OF loop] by auto
        then show ?thesis using final Inl assms(2,4) by auto
      next
        case r: (Inr u)
        then obtain v where c: "c \<le> ds_max_bytes ds" "c = sat_add v ?added"
          and v: "v = ds_current_bytes ds \<or> Inr v \<in> set (di_env io)"
          using reserve_loop_spec [OF loop] by auto
        then have "c = v + ?added" using assms(3) sat_add_leD [of v ?added "ds_max_bytes ds"] by (simp add: sat_simps)
        then have "atomic_sub c ?added = v" using c assms(3) by (simp add: sat_simps)
        then show ?thesis using final r c v fr assms(2,4) by (auto split: sum.splits)
      qed
    qed
  qed
qed

definition demo_store :: DeadLetterStore where
  "demo_store = store_with 100 0 (\<lambda>_. None)"

definition demo_dl_io :: dead_letter_io where
  "demo_dl_io = \<lparr>di_pid = 7, di_env = [], di_json_ok = True, di_mkdir = True, di_arrow = NoFault,
     di_json = NoFault, di_rm = (\<lambda>_. True)\<rparr>"

definition demo_meta :: DeadLetterMetadata where
  "demo_meta = \<lparr>dm_sink = ''es'', dm_signal = Logs, dm_first_seq = 1, dm_last_seq = 2, dm_row_count = 3,
     dm_attempts = 3, dm_reason = ''bad'', dm_timestamp_unix_ms = 5\<rparr>"

theorem quarantine_respects_quota_witness:
  "ds_current_bytes (snd (write_quarantine byte_ops (\<lambda>_. [1]) (demo_dl_io\<lparr>di_env := [Inr 40, Inl (), Inr 60]\<rparr>)
       demo_meta [[1, 2]] demo_store)) \<le> 100"
proof -
  obtain res ds' where run: "write_quarantine byte_ops (\<lambda>_. [1]) (demo_dl_io\<lparr>di_env := [Inr 40, Inl (), Inr 60]\<rparr>)
       demo_meta [[1, 2]] demo_store = (res, ds')" by fastforce
  have "ds_current_bytes ds' \<le> ds_max_bytes demo_store \<and> ds_max_bytes ds' = ds_max_bytes demo_store"
    by (rule quarantine_respects_quota [OF run])
      (auto simp: demo_store_def store_with_def u64_max_def demo_dl_io_def)
  then show ?thesis using run by (simp add: demo_store_def store_with_def)
qed



end
