(* ===== verification/BufferMetrics.thy ===== *)
theory BufferMetrics
  imports BufferConfiguration
begin

text \<open>
  The buffer's counters and gauges (\<open>crates/core/src/buffer/metrics.rs\<close>). The arrays of three
  per-signal states are functions from \<open>SignalKind\<close>. The OpenTelemetry instruments are third-party
  code that only receives values: the calls made on them are kept in order in \<open>bm_emitted\<close>, and
  what the gauge callbacks report is the function \<open>gauge_readings\<close>. Durations are in nanoseconds
  and ages in milliseconds; their conversion to floating-point seconds is left out.
\<close>

section \<open>State\<close>

type_synonym attrs = "(string \<times> string) list"

record SignalMetricsState =
  sm_buffered_records :: nat
  sm_buffered_bytes :: nat
  sm_oldest_enqueued_unix_ms :: nat
  sm_inflight_leases :: nat
  sm_max_bytes :: nat
  sm_max_events :: nat
  sm_committed_records :: nat
  sm_overflow_drops :: nat
  sm_dead_letter_drops :: nat
  sm_corruption_drops :: nat
  sm_shutdown_timeout_drops :: nat
  sm_replayed_records :: nat
  sm_transient_nacks :: nat
  sm_rejected_nacks :: nat
  sm_fatal_nacks :: nat
  sm_signal_sink_attrs :: attrs
  sm_signal_sink_buffer_mode_attrs :: attrs
  sm_signal_sink_mode_attrs :: attrs

datatype measurement =
    CounterAdd string nat attrs
  | HistogramRecord string nat attrs

record BufferMetrics =
  bm_sink_name :: string
  bm_mode_str :: string
  bm_mode :: BufferMode
  bm_signals :: "SignalKind \<Rightarrow> SignalMetricsState"
  bm_emitted :: "measurement list"

fun mode_as_str :: "BufferMode \<Rightarrow> string" where
  "mode_as_str Memory = ''memory''"
| "mode_as_str Disk = ''disk''"

definition signal_metrics_new :: "string \<Rightarrow> SignalKind \<Rightarrow> BufferConfig \<Rightarrow> SignalMetricsState" where
  "signal_metrics_new sink_name signal config =
     (let sig_str = as_str signal; mode_str = mode_as_str (mode config)
      in \<lparr>sm_buffered_records = 0, sm_buffered_bytes = 0, sm_oldest_enqueued_unix_ms = 0,
          sm_inflight_leases = 0, sm_max_bytes = per_signal_budget config,
          sm_max_events = (case max_batch_records config of None \<Rightarrow> 0 | Some r \<Rightarrow> r),
          sm_committed_records = 0, sm_overflow_drops = 0, sm_dead_letter_drops = 0,
          sm_corruption_drops = 0, sm_shutdown_timeout_drops = 0, sm_replayed_records = 0,
          sm_transient_nacks = 0, sm_rejected_nacks = 0, sm_fatal_nacks = 0,
          sm_signal_sink_attrs = [(''signal'', sig_str), (''sink'', sink_name)],
          sm_signal_sink_buffer_mode_attrs =
            [(''signal'', sig_str), (''sink'', sink_name), (''buffer_mode'', mode_str)],
          sm_signal_sink_mode_attrs =
            [(''signal'', sig_str), (''sink'', sink_name), (''mode'', mode_str)]\<rparr>)"

definition metrics_new :: "string \<Rightarrow> BufferConfig \<Rightarrow> BufferMetrics" where
  "metrics_new sink_name config =
     \<lparr>bm_sink_name = sink_name, bm_mode_str = mode_as_str (mode config), bm_mode = mode config,
      bm_signals = (\<lambda>signal. signal_metrics_new sink_name signal config), bm_emitted = []\<rparr>"

section \<open>Operations\<close>

definition upd_signal ::
  "SignalKind \<Rightarrow> (SignalMetricsState \<Rightarrow> SignalMetricsState) \<Rightarrow> BufferMetrics \<Rightarrow> BufferMetrics" where
  "upd_signal signal f m = m\<lparr>bm_signals := (bm_signals m)(signal := f (bm_signals m signal))\<rparr>"

definition emit :: "measurement list \<Rightarrow> BufferMetrics \<Rightarrow> BufferMetrics" where
  "emit ms m = m\<lparr>bm_emitted := bm_emitted m @ ms\<rparr>"

text \<open>The values that the callbacks of the observable gauges report, as (gauge, value, attributes).\<close>

definition signal_readings ::
  "nat \<Rightarrow> BufferMode \<Rightarrow> SignalMetricsState \<Rightarrow> (string \<times> nat \<times> attrs) list" where
  "signal_readings now_ms md st =
     [(''datalake.sink.buffer_records'', sm_buffered_records st, sm_signal_sink_buffer_mode_attrs st),
      (''datalake.sink.buffer_events'', sm_buffered_records st, sm_signal_sink_mode_attrs st),
      (''datalake.sink.buffer_bytes'', sm_buffered_bytes st, sm_signal_sink_buffer_mode_attrs st),
      (''datalake.sink.buffer_max_events'', sm_max_events st, sm_signal_sink_mode_attrs st),
      (''datalake.sink.buffer_max_bytes'', sm_max_bytes st, sm_signal_sink_mode_attrs st),
      (''datalake.sink.buffer_disk_bytes'', if md = Disk then sm_buffered_bytes st else 0,
        sm_signal_sink_mode_attrs st),
      (''datalake.sink.buffer_disk_max_bytes'', if md = Disk then sm_max_bytes st else 0,
        sm_signal_sink_mode_attrs st),
      (''datalake.sink.buffer_oldest_age_seconds'',
        if sm_oldest_enqueued_unix_ms st = 0 then 0 else now_ms - sm_oldest_enqueued_unix_ms st,
        sm_signal_sink_attrs st),
      (''datalake.sink.buffer_leases_inflight'', sm_inflight_leases st, sm_signal_sink_attrs st)]"

definition gauge_readings :: "nat \<Rightarrow> BufferMetrics \<Rightarrow> (string \<times> nat \<times> attrs) list" where
  "gauge_readings now_ms m =
     concat (map (\<lambda>s. signal_readings now_ms (bm_mode m) (bm_signals m s)) ALL_SIGNALS)"

definition update_gauges ::
  "SignalKind \<Rightarrow> nat \<Rightarrow> nat \<Rightarrow> nat \<Rightarrow> nat \<Rightarrow> BufferMetrics \<Rightarrow> BufferMetrics" where
  "update_gauges signal records bytes leases oldest =
     upd_signal signal (\<lambda>st. st\<lparr>sm_buffered_records := records, sm_buffered_bytes := bytes,
       sm_inflight_leases := leases, sm_oldest_enqueued_unix_ms := oldest\<rparr>)"

definition record_committed :: "SignalKind \<Rightarrow> nat \<Rightarrow> nat \<Rightarrow> BufferMetrics \<Rightarrow> BufferMetrics" where
  "record_committed signal rows duration m =
     (let m1 = upd_signal signal
                 (\<lambda>st. st\<lparr>sm_committed_records := atomic_add (sm_committed_records st) rows\<rparr>) m;
          st = bm_signals m1 signal
      in emit [CounterAdd ''datalake.sink.records_committed_total'' rows (sm_signal_sink_attrs st),
               HistogramRecord ''datalake.sink.flush_duration_seconds'' duration (sm_signal_sink_attrs st),
               HistogramRecord ''datalake.sink.buffer_flush_duration_ms'' duration
                 (sm_signal_sink_mode_attrs st)] m1)"

text \<open>The counter a drop reason stands for, \<open>None\<close> for any other string.\<close>

definition drop_field ::
  "string \<Rightarrow> ((SignalMetricsState \<Rightarrow> nat) \<times> ((nat \<Rightarrow> nat) \<Rightarrow> SignalMetricsState \<Rightarrow> SignalMetricsState)) option"
  where
  "drop_field reason =
     (if reason = ''overflow'' then Some (sm_overflow_drops, sm_overflow_drops_update)
      else if reason = ''dead_letter'' then Some (sm_dead_letter_drops, sm_dead_letter_drops_update)
      else if reason = ''corruption'' then Some (sm_corruption_drops, sm_corruption_drops_update)
      else if reason = ''shutdown_timeout''
        then Some (sm_shutdown_timeout_drops, sm_shutdown_timeout_drops_update)
      else None)"

definition record_dropped :: "SignalKind \<Rightarrow> nat \<Rightarrow> string \<Rightarrow> BufferMetrics \<Rightarrow> BufferMetrics" where
  "record_dropped signal rows reason m =
     (if rows = 0 then m
      else case drop_field reason of
        None \<Rightarrow> m
      | Some (_, upd) \<Rightarrow>
          emit [CounterAdd ''datalake.sink.records_dropped_total'' rows
                  [(''signal'', as_str signal), (''sink'', bm_sink_name m), (''reason'', reason)],
                CounterAdd ''datalake.sink.buffer_dropped_records'' rows
                  [(''signal'', as_str signal), (''sink'', bm_sink_name m),
                   (''mode'', bm_mode_str m), (''reason'', reason)]]
            (upd_signal signal (upd (\<lambda>v. atomic_add v rows)) m))"

definition nack_field ::
  "string \<Rightarrow> ((SignalMetricsState \<Rightarrow> nat) \<times> ((nat \<Rightarrow> nat) \<Rightarrow> SignalMetricsState \<Rightarrow> SignalMetricsState)) option"
  where
  "nack_field failure_class =
     (if failure_class = ''transient'' then Some (sm_transient_nacks, sm_transient_nacks_update)
      else if failure_class = ''rejected'' then Some (sm_rejected_nacks, sm_rejected_nacks_update)
      else if failure_class = ''fatal'' then Some (sm_fatal_nacks, sm_fatal_nacks_update)
      else None)"

definition record_nack :: "SignalKind \<Rightarrow> string \<Rightarrow> BufferMetrics \<Rightarrow> BufferMetrics" where
  "record_nack signal failure_class m =
     (case nack_field failure_class of
        None \<Rightarrow> m
      | Some (_, upd) \<Rightarrow>
          emit [CounterAdd ''datalake.sink.lease_nacks_total'' 1
                  [(''signal'', as_str signal), (''sink'', bm_sink_name m),
                   (''failure_class'', failure_class)],
                CounterAdd ''datalake.sink.buffer_lease_retries'' 1
                  [(''signal'', as_str signal), (''sink'', bm_sink_name m),
                   (''mode'', bm_mode_str m), (''class'', failure_class)]]
            (upd_signal signal (upd (\<lambda>v. atomic_add v 1)) m))"

definition record_replayed :: "SignalKind \<Rightarrow> nat \<Rightarrow> BufferMetrics \<Rightarrow> BufferMetrics" where
  "record_replayed signal rows m =
     (if rows = 0 then m
      else let m1 = upd_signal signal
                      (\<lambda>st. st\<lparr>sm_replayed_records := atomic_add (sm_replayed_records st) rows\<rparr>) m;
               st = bm_signals m1 signal
           in emit [CounterAdd ''datalake.sink.buffer_replayed_records_total'' rows (sm_signal_sink_attrs st),
                    CounterAdd ''datalake.sink.buffer_replayed_records'' rows
                      (sm_signal_sink_mode_attrs st)] m1)"

definition scope_signals :: "SignalKind option \<Rightarrow> SignalKind list" where
  "scope_signals scope = (case scope of Some sig \<Rightarrow> [sig] | None \<Rightarrow> ALL_SIGNALS)"

definition fold_signals :: "SignalKind option \<Rightarrow> (SignalKind \<Rightarrow> nat) \<Rightarrow> nat" where
  "fold_signals scope f = foldl (\<lambda>acc sig. sat_add acc (f sig)) 0 (scope_signals scope)"

definition dropped_records :: "SignalKind option \<Rightarrow> string \<Rightarrow> BufferMetrics \<Rightarrow> nat" where
  "dropped_records scope reason m =
     fold_signals scope (\<lambda>sig. case drop_field reason of
       None \<Rightarrow> 0 | Some (get, _) \<Rightarrow> get (bm_signals m sig))"

definition committed_records :: "SignalKind option \<Rightarrow> BufferMetrics \<Rightarrow> nat" where
  "committed_records scope m = fold_signals scope (\<lambda>sig. sm_committed_records (bm_signals m sig))"

definition lease_nacks :: "SignalKind option \<Rightarrow> string \<Rightarrow> BufferMetrics \<Rightarrow> nat" where
  "lease_nacks scope failure_class m =
     fold_signals scope (\<lambda>sig. case nack_field failure_class of
       None \<Rightarrow> 0 | Some (get, _) \<Rightarrow> get (bm_signals m sig))"

section \<open>Lemmas\<close>

lemma bm_signals_upd [simp]:
  "bm_signals (upd_signal s f m) = (bm_signals m)(s := f (bm_signals m s))"
  "bm_signals (emit ms m) = bm_signals m"
  by (simp_all add: upd_signal_def emit_def)

lemma scope_signals_simps [simp]:
  "scope_signals (Some s) = [s]" "scope_signals None = [Logs, Metrics, Traces]"
  by (simp_all add: scope_signals_def ALL_SIGNALS_def)

lemma fold_signals_exact:
  assumes "sum_list (map f (scope_signals scope)) \<le> u64_max"
  shows "fold_signals scope f = sum_list (map f (scope_signals scope))"
proof (cases scope)
  case None
  then show ?thesis using assms by (simp add: fold_signals_def sat_simps)
next
  case (Some s)
  then show ?thesis using assms by (simp add: fold_signals_def sat_simps)
qed

definition drop_reasons :: "string list" where
  "drop_reasons = [''overflow'', ''dead_letter'', ''corruption'', ''shutdown_timeout'']"

lemma drop_field_None: "drop_field reason = None \<longleftrightarrow> reason \<notin> set drop_reasons"
  by (auto simp: drop_field_def drop_reasons_def)

text \<open>Counting a drop changes the counter of its signal and reason, and nothing else that is counted.\<close>

lemma drop_counter_record_dropped:
  assumes "reason \<in> set drop_reasons" and "drop_field reason' = Some (get, upd)"
  shows "get (bm_signals (record_dropped sig rows reason m) sig') =
    (if sig' = sig \<and> reason' = reason \<and> rows \<noteq> 0
     then atomic_add (get (bm_signals m sig')) rows else get (bm_signals m sig'))"
  using assms unfolding drop_reasons_def
  by (auto simp: record_dropped_def drop_field_def split: if_splits)

lemma record_dropped_frame:
  "sm_committed_records (bm_signals (record_dropped sig rows reason m) s) = sm_committed_records (bm_signals m s)"
  "sm_replayed_records (bm_signals (record_dropped sig rows reason m) s) = sm_replayed_records (bm_signals m s)"
  "sm_buffered_records (bm_signals (record_dropped sig rows reason m) s) = sm_buffered_records (bm_signals m s)"
  "sm_buffered_bytes (bm_signals (record_dropped sig rows reason m) s) = sm_buffered_bytes (bm_signals m s)"
  "sm_inflight_leases (bm_signals (record_dropped sig rows reason m) s) = sm_inflight_leases (bm_signals m s)"
  by (auto simp: record_dropped_def drop_field_def)

end
