(* ===== verification/BufferCore.thy ===== *)
theory BufferCore
  imports DiskRecovery DeadLetter BufferMetrics
begin

text \<open>
  The shared state of a sink buffer and the operations on it (\<open>crates/core/src/buffer/mod.rs\<close>, lines
  72 to 687), with the client side of the disk backend (\<open>disk.rs\<close>, lines 590 to 613 and 1019 to 1176).

  The array of three rings is a function from \<open>SignalKind\<close>. Every critical section of the code is one
  function; where the code awaits a reply of the writer thread, the reply is an argument and the
  parts before and after the await are definitions of their own, so that other operations can
  happen in between (\<open>BufferSystem\<close>). A clock reading serves one operation. Logging is left out.
\<close>

section \<open>Reservations and the disk backend's handle\<close>

record 's AppendReservation =
  ar_signal :: SignalKind
  ar_seq_id :: nat
  ar_frame_bytes_len :: nat
  ar_batch_rows :: nat
  ar_rows :: nat
  ar_schema :: 's

text \<open>
  \<open>DiskBackend\<close>: whether the command sender, the completion receiver and the thread handle are still
  there, and the commands sent so far.
\<close>

record 's DiskBackend =
  db_instance_id :: nat
  db_cmd_tx :: bool
  db_shutdown_done_rx :: bool
  db_writer_handle :: bool
  db_sent :: "'s AppendReservation WriterCommand list"

text \<open>What comes of a command: the channel is gone, the reply is dropped or late, or it arrives.\<close>

datatype 'a reply = SendFails | ReplyDropped | ReplyTimeout | Replied "string + 'a"

definition disk_call ::
  "string \<Rightarrow> 's AppendReservation WriterCommand \<Rightarrow> 'a reply \<Rightarrow> 's DiskBackend \<Rightarrow> 'a result \<times> 's DiskBackend" where
  "disk_call dropped_msg cmd reply db =
     (if \<not> db_cmd_tx db then (Inl (Storage ''disk buffer writer thread is closed''), db)
      else case reply of
        SendFails \<Rightarrow> (Inl (Storage ''disk buffer writer thread exited''), db)
      | ReplyDropped \<Rightarrow> (Inl (Storage dropped_msg), db\<lparr>db_sent := db_sent db @ [cmd]\<rparr>)
      | ReplyTimeout \<Rightarrow> (Inl (Storage ''disk buffer writer thread timed out syncing watermark''), db\<lparr>db_sent := db_sent db @ [cmd]\<rparr>)
      | Replied (Inl e) \<Rightarrow> (Inl (Storage e), db\<lparr>db_sent := db_sent db @ [cmd]\<rparr>)
      | Replied (Inr x) \<Rightarrow> (Inr x, db\<lparr>db_sent := db_sent db @ [cmd]\<rparr>))"

definition update_watermark :: "unit reply \<Rightarrow> DiskWatermark \<Rightarrow> 's DiskBackend \<Rightarrow> unit result \<times> 's DiskBackend" where
  "update_watermark reply wm =
     disk_call ''disk buffer writer thread dropped watermark reply'' (UpdateWatermark wm True) reply"

definition update_watermark_nonblocking :: "bool \<Rightarrow> DiskWatermark \<Rightarrow> 's DiskBackend \<Rightarrow> 's DiskBackend" where
  "update_watermark_nonblocking send_ok wm db =
     (if db_cmd_tx db \<and> send_ok then db\<lparr>db_sent := db_sent db @ [UpdateWatermark wm False]\<rparr> else db)"

definition flush_and_sync_watermark :: "unit reply \<Rightarrow> DiskWatermark \<Rightarrow> 's DiskBackend \<Rightarrow> unit result \<times> 's DiskBackend" where
  "flush_and_sync_watermark reply wm =
     disk_call ''disk buffer writer thread dropped sync reply'' (FlushWatermarkSync wm) reply"

definition flush_and_sync_watermark_async :: "unit reply \<Rightarrow> DiskWatermark \<Rightarrow> 's DiskBackend \<Rightarrow> unit result \<times> 's DiskBackend" where
  "flush_and_sync_watermark_async reply wm =
     disk_call ''disk buffer writer thread dropped sync reply'' (FlushWatermarkAsync wm) reply"

datatype shutdown_outcome = WriterFinished | ShutdownTimedOut | ShutdownJoinError

definition shutdown_async :: "shutdown_outcome \<Rightarrow> 's DiskBackend \<Rightarrow> unit result \<times> 's DiskBackend" where
  "shutdown_async outcome db =
     (let db1 = (if db_cmd_tx db then db\<lparr>db_cmd_tx := False, db_sent := db_sent db @ [Shutdown]\<rparr> else db);
          waiting = db_shutdown_done_rx db1 \<or> db_writer_handle db1;
          db2 = db1\<lparr>db_shutdown_done_rx := False, db_writer_handle := False\<rparr>
      in if \<not> waiting then (Inr (), db2)
         else (case outcome of
                 WriterFinished \<Rightarrow> Inr ()
               | ShutdownTimedOut \<Rightarrow> Inl (Storage ''disk buffer writer thread timed out during shutdown'')
               | ShutdownJoinError \<Rightarrow> Inl (Storage ''disk buffer writer shutdown join error''), db2))"

section \<open>Leases\<close>

record LeaseId =
  li_instance_id :: nat
  li_signal :: SignalKind
  li_first_seq :: nat
  li_last_seq :: nat

record ('b, 's) Lease =
  le_id :: LeaseId
  le_batches :: "'b list"
  le_payloads :: "('b, 's) BatchPayload list"
  le_meta :: "LeasedBatchMeta list"
  le_num_rows :: nat
  le_quarantined_rows :: nat
  le_byte_size :: nat
  le_attempt :: nat
  le_leased_at :: instant
  le_completed :: bool

section \<open>The shared state\<close>

record ('b, 's) BufferInner =
  in_sink_name :: string
  in_instance_id :: nat
  in_config :: BufferConfig
  in_rings :: "('b, 's) rings"
  in_disk :: "'s DiskBackend option"
  in_dead_letter :: DeadLetterStore
  in_metrics :: BufferMetrics
  in_any_data_ready_notify :: nat
  in_fatal_error :: "string option"

definition upd_rs ::
  "SignalKind \<Rightarrow> (('b, 's) SignalRingState \<Rightarrow> ('b, 's) SignalRingState) \<Rightarrow> ('b, 's) BufferInner \<Rightarrow> ('b, 's) BufferInner" where
  "upd_rs sig f st = st\<lparr>in_rings := (in_rings st)(sig := f (in_rings st sig))\<rparr>"

definition upd_ring ::
  "SignalKind \<Rightarrow> (('b, 's) SignalRing \<Rightarrow> ('b, 's) SignalRing) \<Rightarrow> ('b, 's) BufferInner \<Rightarrow> ('b, 's) BufferInner" where
  "upd_ring sig f = upd_rs sig (\<lambda>rs. rs\<lparr>ring := f (ring rs)\<rparr>)"

definition the_ring :: "SignalKind \<Rightarrow> ('b, 's) BufferInner \<Rightarrow> ('b, 's) SignalRing" where
  "the_ring sig st = ring (in_rings st sig)"

text \<open>\<open>notify_waiters\<close> on the space and on the data notification of a ring.\<close>

definition notify_space :: "SignalKind \<Rightarrow> ('b, 's) BufferInner \<Rightarrow> ('b, 's) BufferInner" where
  "notify_space sig = upd_rs sig (\<lambda>rs. rs\<lparr>space_available_notify := space_available_notify rs + 1\<rparr>)"

definition notify_data :: "SignalKind \<Rightarrow> ('b, 's) BufferInner \<Rightarrow> ('b, 's) BufferInner" where
  "notify_data sig = upd_rs sig (\<lambda>rs. rs\<lparr>data_ready_notify := data_ready_notify rs + 1\<rparr>)"

definition notify_any :: "('b, 's) BufferInner \<Rightarrow> ('b, 's) BufferInner" where
  "notify_any st = st\<lparr>in_any_data_ready_notify := in_any_data_ready_notify st + 1\<rparr>"

definition notify_data_ready :: "SignalKind \<Rightarrow> ('b, 's) BufferInner \<Rightarrow> ('b, 's) BufferInner" where
  "notify_data_ready sig st = notify_any (notify_data sig st)"

definition with_metrics :: "(BufferMetrics \<Rightarrow> BufferMetrics) \<Rightarrow> ('b, 's) BufferInner \<Rightarrow> ('b, 's) BufferInner" where
  "with_metrics f st = st\<lparr>in_metrics := f (in_metrics st)\<rparr>"

definition sync_ring_metrics :: "clock \<Rightarrow> SignalKind \<Rightarrow> ('b, 's) BufferInner \<Rightarrow> ('b, 's) BufferInner" where
  "sync_ring_metrics clk sig st =
     (let r = the_ring sig st
      in with_metrics (update_gauges sig (rows_in_flight r) (bytes_in_flight r) (inflight_leases r)
                         (oldest_enqueued_unix_ms clk r)) st)"

text \<open>\<open>BufferInner::new\<close>, after the rings were recovered from disk (or are new) and the dead-letter
  store was opened.\<close>

definition init_metrics :: "clock \<Rightarrow> ('b, 's) rings \<Rightarrow> SignalKind \<Rightarrow> BufferMetrics \<Rightarrow> BufferMetrics" where
  "init_metrics clk rs sig m =
     (let r = rs sig;
          m1 = (if replayed_records r > 0 then record_replayed sig (replayed_records r) m else m);
          m2 = (if corruption_drops r > 0 then record_dropped sig (corruption_drops r) ''corruption'' m1 else m1)
      in update_gauges sig (rows_in_flight (ring r)) (bytes_in_flight (ring r)) (inflight_leases (ring r))
           (oldest_enqueued_unix_ms clk (ring r)) m2)"

definition inner_new ::
  "clock \<Rightarrow> string \<Rightarrow> BufferConfig \<Rightarrow> nat \<Rightarrow> (nat \<times> ('b, 's) rings) result \<Rightarrow> DeadLetterStore result \<Rightarrow>
   DeadLetterStore result \<Rightarrow> ('b, 's) BufferInner result" where
  "inner_new clk sink_name config fresh_id recovered dlq_at_path dlq_default =
     try_bind (if mode config = Disk
               then try_bind recovered (\<lambda>(id, rs).
                 Inr (rs, Some \<lparr>db_instance_id = id, db_cmd_tx = True, db_shutdown_done_rx = True,
                                db_writer_handle = True, db_sent = []\<rparr>, id))
               else Inr (\<lambda>_. ring_state_new, None, fresh_id)) (\<lambda>(rs, disk, id).
     try_bind (case dead_letter_path config of Some _ \<Rightarrow> dlq_at_path | None \<Rightarrow> dlq_default) (\<lambda>dlq.
       Inr \<lparr>in_sink_name = sink_name, in_instance_id = id, in_config = config, in_rings = rs,
            in_disk = disk, in_dead_letter = dlq,
            in_metrics = fold (init_metrics clk rs) ALL_SIGNALS (metrics_new sink_name config),
            in_any_data_ready_notify = 0, in_fatal_error = None\<rparr>))"

definition new_passthrough :: "nat \<Rightarrow> DeadLetterStore result \<Rightarrow> dir \<Rightarrow> ('b, 's) BufferInner" where
  "new_passthrough fresh_id dlq files =
     \<lparr>in_sink_name = ''passthrough'', in_instance_id = fresh_id, in_config = passthrough,
      in_rings = (\<lambda>_. ring_state_new), in_disk = None,
      in_dead_letter = (case dlq of Inr d \<Rightarrow> d | Inl _ \<Rightarrow> empty_fallback files (max_dead_letter_bytes passthrough)),
      in_metrics = metrics_new ''passthrough'' passthrough, in_any_data_ready_notify = 0, in_fatal_error = None\<rparr>"

definition fatal_reason :: "('b, 's) BufferInner \<Rightarrow> string option" where
  "fatal_reason st = in_fatal_error st"

definition ring_stalled :: "clock \<Rightarrow> BufferConfig \<Rightarrow> ('b, 's) SignalRingState \<Rightarrow> bool" where
  "ring_stalled clk config rs \<longleftrightarrow>
     (let stall = sat_mul (readiness_stall_sec config) 1000;
          transient = sat_mul (max_transient_duration_sec config) 1000
      in (stall > 0 \<and> blocked_senders rs > 0 \<and> blocked_since_unix_ms rs > 0 \<and>
            clk_unix_ms clk - blocked_since_unix_ms rs \<ge> stall) \<or>
         (transient > 0 \<and> first_transient_failure_unix_ms rs > 0 \<and>
            clk_unix_ms clk - first_transient_failure_unix_ms rs \<ge> transient))"

definition is_ready :: "clock \<Rightarrow> ('b, 's) BufferInner \<Rightarrow> bool" where
  "is_ready clk st =
     (if fatal_reason st \<noteq> None then False
      else list_all (\<lambda>sig. \<not> ring_stalled clk (in_config st) (in_rings st sig)) ALL_SIGNALS)"

section \<open>Shutdown\<close>

definition clear_ring :: "('b, 's) SignalRing \<Rightarrow> ('b, 's) SignalRing" where
  "clear_ring r = r\<lparr>queue := [], bytes_in_flight := 0, rows_in_flight := 0, inflight_leases := 0, slots := [],
     inflight_enqueued_at := [], evicted_unreclaimed_bytes := [], unreclaimed_disk_bytes := 0\<rparr>"

definition discard_ring :: "clock \<Rightarrow> SignalKind \<Rightarrow> ('b, 's) BufferInner \<times> nat \<Rightarrow> ('b, 's) BufferInner \<times> nat" where
  "discard_ring clk sig acc =
     (case acc of (st, dropped_so_far) \<Rightarrow>
      let rows = rows_in_flight (the_ring sig st);
          st1 = sync_ring_metrics clk sig
                  (upd_rs sig (\<lambda>rs. case advance_watermark (clear_ring (ring rs)) (committed_seq rs) of
                                      (r, c) \<Rightarrow> rs\<lparr>ring := r, committed_seq := c\<rparr>) st);
          st2 = (if rows > 0
                 then with_metrics (record_dropped sig rows ''shutdown_timeout'')
                        (upd_rs sig (\<lambda>rs. rs\<lparr>shutdown_timeout_drops := atomic_add (shutdown_timeout_drops rs) rows\<rparr>) st1)
                 else st1);
          d = (if rows > 0 then sat_add dropped_so_far rows else dropped_so_far)
      in (notify_data sig (notify_space sig st2), d))"

definition discard_remaining_rings :: "clock \<Rightarrow> ('b, 's) BufferInner \<Rightarrow> ('b, 's) BufferInner \<times> nat" where
  "discard_remaining_rings clk st =
     (case fold (discard_ring clk) ALL_SIGNALS (st, 0) of (st1, d) \<Rightarrow> (notify_any st1, d))"

definition on_disk ::
  "('s DiskBackend \<Rightarrow> 'a result \<times> 's DiskBackend) \<Rightarrow> 'a \<Rightarrow> ('b, 's) BufferInner \<Rightarrow> 'a result \<times> ('b, 's) BufferInner" where
  "on_disk f skip st =
     (case in_disk st of
        None \<Rightarrow> (Inr skip, st)
      | Some db \<Rightarrow> (case f db of (res, db') \<Rightarrow> (res, st\<lparr>in_disk := Some db'\<rparr>)))"

definition own_watermark :: "('b, 's) BufferInner \<Rightarrow> DiskWatermark" where
  "own_watermark st = from_rings (in_instance_id st) (in_rings st)"

definition discard_error :: "nat \<Rightarrow> ('b, 's) BufferInner \<Rightarrow> PipelineError" where
  "discard_error total_dropped st =
     Storage (''sink '' @ [CHR 0x27] @ in_sink_name st @ [CHR 0x27] @
       '' shutdown drain timed out under Discard policy ('' @ show_nat total_dropped @ '' records dropped)'')"

definition finalize_shutdown_timeout :: "clock \<Rightarrow> unit reply \<Rightarrow> ('b, 's) BufferInner \<Rightarrow> unit result \<times> ('b, 's) BufferInner" where
  "finalize_shutdown_timeout clk reply st =
     (case effective_drain_policy (in_config st) of
        Persist \<Rightarrow> on_disk (flush_and_sync_watermark reply (own_watermark st)) () st
      | Discard \<Rightarrow>
          (case discard_remaining_rings clk st of (st1, d) \<Rightarrow>
           case on_disk (flush_and_sync_watermark reply (own_watermark st1)) () st1 of
             (Inl e, st2) \<Rightarrow> (Inl e, st2)
           | (Inr _, st2) \<Rightarrow> (Inl (discard_error d st), st2)))"

definition sync_and_shutdown ::
  "unit reply \<Rightarrow> shutdown_outcome \<Rightarrow> DiskWatermark \<Rightarrow> 's DiskBackend \<Rightarrow> unit result \<times> 's DiskBackend" where
  "sync_and_shutdown reply outcome wm db =
     (case flush_and_sync_watermark_async reply wm db of (sync_res, db1) \<Rightarrow>
      case shutdown_async outcome db1 of (shut_res, db2) \<Rightarrow>
        (try_bind sync_res (\<lambda>_. shut_res), db2))"

definition finalize_shutdown_timeout_async ::
  "clock \<Rightarrow> unit reply \<Rightarrow> shutdown_outcome \<Rightarrow> ('b, 's) BufferInner \<Rightarrow> unit result \<times> ('b, 's) BufferInner" where
  "finalize_shutdown_timeout_async clk reply outcome st =
     (case effective_drain_policy (in_config st) of
        Persist \<Rightarrow> on_disk (sync_and_shutdown reply outcome (own_watermark st)) () st
      | Discard \<Rightarrow>
          (case discard_remaining_rings clk st of (st1, d) \<Rightarrow>
           case on_disk (sync_and_shutdown reply outcome (own_watermark st1)) () st1 of
             (Inl e, st2) \<Rightarrow> (Inl e, st2)
           | (Inr _, st2) \<Rightarrow> (Inl (discard_error d st), st2)))"

section \<open>Completing leases\<close>

definition set_fatal :: "string \<Rightarrow> ('b, 's) BufferInner \<Rightarrow> ('b, 's) BufferInner" where
  "set_fatal reason st = (if in_fatal_error st = None then st\<lparr>in_fatal_error := Some reason\<rparr> else st)"

definition set_ring_fatal :: "string \<Rightarrow> ('b, 's) SignalRing \<Rightarrow> ('b, 's) SignalRing" where
  "set_ring_fatal reason r = (if ring_fatal_error r = None then r\<lparr>ring_fatal_error := Some reason\<rparr> else r)"

definition notify_everyone :: "('b, 's) BufferInner \<Rightarrow> ('b, 's) BufferInner" where
  "notify_everyone st = notify_any (fold (\<lambda>sig st. notify_data sig (notify_space sig st)) ALL_SIGNALS st)"

definition record_storage_failure :: "SignalKind \<Rightarrow> string \<Rightarrow> ('b, 's) BufferInner \<Rightarrow> ('b, 's) BufferInner" where
  "record_storage_failure sig reason st =
     notify_everyone (upd_ring sig (set_ring_fatal reason) (set_fatal reason st))"

text \<open>\<open>ack_lease\<close> up to the await on the writer thread.\<close>

definition ack_commit ::
  "clock \<Rightarrow> SignalKind \<Rightarrow> LeasedBatchMeta list \<Rightarrow> bool \<Rightarrow> ('b, 's) BufferInner \<Rightarrow> nat \<times> ('b, 's) BufferInner" where
  "ack_commit clk sig meta reset_streak st =
     (let st1 = (if reset_streak
                 then upd_rs sig (\<lambda>rs. rs\<lparr>first_transient_failure_unix_ms := 0\<rparr>) st else st);
          rs = in_rings st1 sig
      in case ack_entries meta (ring rs) (committed_seq rs) of
           (r, c, acked_rows) \<Rightarrow>
             (acked_rows,
              notify_data_ready sig (notify_space sig (sync_ring_metrics clk sig
                (upd_rs sig (\<lambda>rs. rs\<lparr>ring := r, committed_seq := c\<rparr>) st1)))))"

definition error_text :: "PipelineError \<Rightarrow> string" where
  "error_text e = (case e of Storage s \<Rightarrow> ''storage error: '' @ s | Internal s \<Rightarrow> ''internal error: '' @ s
     | MissingMetadata s \<Rightarrow> ''missing metadata: '' @ s | Configuration s \<Rightarrow> ''configuration error: '' @ s
     | Arrow _ \<Rightarrow> ''arrow operation failed'' | DownstreamClosed \<Rightarrow> ''downstream channel closed''
     | TopologicalSinkMissing s \<Rightarrow> ''Topological DLQ sink missing: '' @ s)"

definition ack_persist ::
  "unit reply \<Rightarrow> SignalKind \<Rightarrow> nat \<Rightarrow> ('b, 's) BufferInner \<Rightarrow> nat result \<times> ('b, 's) BufferInner" where
  "ack_persist reply sig acked_rows st =
     (case on_disk (update_watermark reply (own_watermark st)) () st of
        (Inl e, st1) \<Rightarrow> (Inl e, record_storage_failure sig (error_text e) st1)
      | (Inr _, st1) \<Rightarrow> (Inr acked_rows, st1))"

definition ack_lease ::
  "clock \<Rightarrow> unit reply \<Rightarrow> SignalKind \<Rightarrow> LeasedBatchMeta list \<Rightarrow> bool \<Rightarrow> ('b, 's) BufferInner \<Rightarrow>
   nat result \<times> ('b, 's) BufferInner" where
  "ack_lease clk reply sig meta reset_streak st =
     (case ack_commit clk sig meta reset_streak st of (acked_rows, st1) \<Rightarrow> ack_persist reply sig acked_rows st1)"

definition requeue_lease ::
  "clock \<Rightarrow> SignalKind \<Rightarrow> ('b, 's) BatchPayload list \<Rightarrow> LeasedBatchMeta list \<Rightarrow> nat \<Rightarrow> instant option \<Rightarrow>
   ('b, 's) BufferInner \<Rightarrow> ('b, 's) BufferInner" where
  "requeue_lease clk sig payloads meta next_attempt ready_at st =
     notify_data_ready sig (sync_ring_metrics clk sig
       (upd_ring sig (requeue_at_head payloads meta next_attempt ready_at) st))"

definition fail_lease ::
  "clock \<Rightarrow> SignalKind \<Rightarrow> ('b, 's) BatchPayload list \<Rightarrow> LeasedBatchMeta list \<Rightarrow> string \<Rightarrow>
   ('b, 's) BufferInner \<Rightarrow> ('b, 's) BufferInner" where
  "fail_lease clk sig payloads meta reason st =
     notify_everyone (sync_ring_metrics clk sig
       (upd_ring sig (set_ring_fatal reason \<circ> requeue_at_head payloads meta 0 None) (set_fatal reason st)))"

definition quarantine_batches ::
  "('b, 's) arrow_ops \<Rightarrow> (DeadLetterMetadata \<Rightarrow> byte list) \<Rightarrow> dead_letter_io \<Rightarrow> bool \<Rightarrow> clock \<Rightarrow> SignalKind \<Rightarrow>
   nat \<Rightarrow> nat \<Rightarrow> nat \<Rightarrow> string \<Rightarrow> 'b list \<Rightarrow> ('b, 's) BufferInner \<Rightarrow> string option result \<times> ('b, 's) BufferInner" where
  "quarantine_batches ao to_json io join_ok clk sig first_seq last_seq attempts reason batches st =
     (let row_count = sum_list (map (ao_num_rows ao) batches)
      in if batches = [] \<or> row_count = 0 then (Inr None, st)
      else let meta = \<lparr>dm_sink = in_sink_name st, dm_signal = sig, dm_first_seq = first_seq,
                       dm_last_seq = last_seq, dm_row_count = row_count, dm_attempts = attempts,
                       dm_reason = reason, dm_timestamp_unix_ms = clk_unix_ms clk\<rparr>
           in if \<not> join_ok then (Inl (Internal ''dead-letter write join error''), st)
              else case write_quarantine ao to_json io meta batches (in_dead_letter st) of
                (Inl e, ds) \<Rightarrow> (Inl e, st\<lparr>in_dead_letter := ds\<rparr>)
              | (Inr path, ds) \<Rightarrow>
                  (Inr (Some path),
                   with_metrics (record_dropped sig row_count ''dead_letter'')
                     (upd_rs sig (\<lambda>rs. rs\<lparr>dead_letter_drops := atomic_add (dead_letter_drops rs) row_count\<rparr>)
                       (st\<lparr>in_dead_letter := ds\<rparr>))))"

section \<open>Sender counts\<close>

definition increment_senders :: "SignalKind option \<Rightarrow> ('b, 's) BufferInner \<Rightarrow> ('b, 's) BufferInner" where
  "increment_senders scope st =
     fold (\<lambda>sig. upd_rs sig (\<lambda>rs. rs\<lparr>active_senders := atomic_add (active_senders rs) 1\<rparr>)) (scope_signals scope) st"

definition decrement_sender :: "SignalKind \<Rightarrow> ('b, 's) BufferInner \<Rightarrow> ('b, 's) BufferInner" where
  "decrement_sender sig st =
     (let prev = active_senders (in_rings st sig);
          st1 = upd_rs sig (\<lambda>rs. rs\<lparr>active_senders := atomic_sub (active_senders rs) 1\<rparr>) st
      in if prev = 1 then notify_data_ready sig (upd_ring sig (\<lambda>r. r\<lparr>closed := True\<rparr>) st1) else st1)"

definition decrement_senders :: "SignalKind option \<Rightarrow> ('b, 's) BufferInner \<Rightarrow> ('b, 's) BufferInner" where
  "decrement_senders scope st = fold decrement_sender (scope_signals scope) st"

section \<open>Taking a lease\<close>

record coalesce_state =
  cs_last_seq :: nat
  cs_bytes :: nat
  cs_rows :: nat
  cs_count :: nat
  cs_boundary :: bool

text \<open>The loop over the batches behind the front one.\<close>

definition cannot_join ::
  "BufferConfig \<Rightarrow> ('b \<Rightarrow> 's) \<Rightarrow> instant \<Rightarrow> nat \<Rightarrow> 's \<Rightarrow> coalesce_state \<Rightarrow> ('b, 's) QueuedBatch \<Rightarrow> bool" where
  "cannot_join config sch now first_attempt first_schema cs b \<longleftrightarrow>
     (case qb_ready_at b of Some t \<Rightarrow> t > now | None \<Rightarrow> False) \<or> qb_attempt b \<noteq> first_attempt \<or>
     payload_schema sch (qb_payload b) \<noteq> first_schema \<or>
     sat_add (cs_bytes cs) (qb_byte_size b) > max_batch_size_bytes config \<or>
     (case max_batch_records config of
        Some max_rec \<Rightarrow> max_rec \<le> 1 \<or> sat_add (cs_rows cs) (qb_row_count b) > max_rec
      | None \<Rightarrow> False)"

definition join :: "('b, 's) QueuedBatch \<Rightarrow> coalesce_state \<Rightarrow> coalesce_state" where
  "join b cs = cs\<lparr>cs_last_seq := qb_seq_id b, cs_bytes := sat_add (cs_bytes cs) (qb_byte_size b),
     cs_rows := sat_add (cs_rows cs) (qb_row_count b), cs_count := sat_add (cs_count cs) 1\<rparr>"

fun coalesce ::
  "BufferConfig \<Rightarrow> ('b \<Rightarrow> 's) \<Rightarrow> LeaseSlotState btree \<Rightarrow> instant \<Rightarrow> nat \<Rightarrow> 's \<Rightarrow> ('b, 's) QueuedBatch list \<Rightarrow>
   coalesce_state \<Rightarrow> coalesce_state" where
  "coalesce config sch sl now first_attempt first_schema [] cs = cs"
| "coalesce config sch sl now first_attempt first_schema (b # rest) cs =
     (let expected = sat_add (cs_last_seq cs) 1
      in if qb_seq_id b \<noteq> expected
         then (if bt_get sl expected \<noteq> Some Reserved then cs\<lparr>cs_boundary := True\<rparr> else cs)
         else if cannot_join config sch now first_attempt first_schema cs b
         then cs\<lparr>cs_boundary := True\<rparr>
         else coalesce config sch sl now first_attempt first_schema rest (join b cs))"

text \<open>Popping batches off the queue into a lease under construction.\<close>

record ('b, 's) pop_state =
  ps_ring :: "('b, 's) SignalRing"
  ps_last_seq :: nat
  ps_bytes :: nat
  ps_rows :: nat
  ps_batches :: "'b list"
  ps_payloads :: "('b, 's) BatchPayload list"
  ps_meta :: "LeasedBatchMeta list"

fun in_memory :: "('b, 's) BatchPayload \<Rightarrow> 'b list" where
  "in_memory (InMemory b) = [b]"
| "in_memory (OnDisk _ _ _ _ _) = []"

definition take_slot :: "('b, 's) QueuedBatch \<Rightarrow> ('b, 's) SignalRing \<Rightarrow> ('b, 's) SignalRing" where
  "take_slot b r = r\<lparr>slots := bt_insert (qb_seq_id b) InFlight (slots r),
     inflight_enqueued_at := bt_insert (qb_seq_id b) (qb_enqueued_at b) (inflight_enqueued_at r)\<rparr>"

fun pop_more :: "nat \<Rightarrow> ('b, 's) pop_state \<Rightarrow> ('b, 's) pop_state" where
  "pop_more 0 ps = ps"
| "pop_more (Suc n) ps =
     (case queue (ps_ring ps) of
        [] \<Rightarrow> ps
      | b # rest \<Rightarrow>
          pop_more n (ps\<lparr>ps_ring := take_slot b ((ps_ring ps)\<lparr>queue := rest\<rparr>),
                         ps_last_seq := qb_seq_id b,
                         ps_bytes := sat_add (ps_bytes ps) (qb_byte_size b),
                         ps_rows := sat_add (ps_rows ps) (qb_row_count b),
                         ps_batches := ps_batches ps @ in_memory (qb_payload b),
                         ps_payloads := ps_payloads ps @ [qb_payload b],
                         ps_meta := ps_meta ps @ [lease_meta b]\<rparr>))"

definition first_pop :: "('b, 's) QueuedBatch \<Rightarrow> ('b, 's) QueuedBatch list \<Rightarrow> ('b, 's) SignalRing \<Rightarrow> ('b, 's) pop_state" where
  "first_pop b rest r =
     \<lparr>ps_ring = take_slot b (r\<lparr>queue := rest\<rparr>), ps_last_seq = qb_seq_id b, ps_bytes = qb_byte_size b,
      ps_rows = qb_row_count b, ps_batches = in_memory (qb_payload b), ps_payloads = [qb_payload b],
      ps_meta = [lease_meta b]\<rparr>"

definition ring_drained :: "('b, 's) SignalRing \<Rightarrow> bool" where
  "ring_drained r \<longleftrightarrow> closed r \<and> queue r = [] \<and> inflight_leases r = 0 \<and> slots r = []"

definition earlier_reserved :: "nat \<Rightarrow> LeaseSlotState btree \<Rightarrow> bool" where
  "earlier_reserved seq sl \<longleftrightarrow> list_ex (\<lambda>(s, k). s < seq \<and> k = Reserved) sl"

definition start_coalesce :: "('b, 's) QueuedBatch \<Rightarrow> coalesce_state" where
  "start_coalesce b = \<lparr>cs_last_seq = qb_seq_id b, cs_bytes = qb_byte_size b, cs_rows = qb_row_count b,
     cs_count = 1, cs_boundary = False\<rparr>"

text \<open>The flush deadline, when the coalesced batches should still wait for more.\<close>

definition flush_wait ::
  "BufferConfig \<Rightarrow> bool \<Rightarrow> ('b, 's) QueuedBatch \<Rightarrow> coalesce_state \<Rightarrow> ('b, 's) SignalRing \<Rightarrow> instant \<Rightarrow> instant option" where
  "flush_wait config sender_blocked front cs r now =
     (let bytes_reached = cs_bytes cs \<ge> max_batch_size_bytes config;
          records_reached = (case max_batch_records config of Some m \<Rightarrow> cs_rows cs \<ge> m | None \<Rightarrow> False);
          deadline = qb_enqueued_at front + max_batch_interval_sec config * 1000000000
      in if max_batch_interval_sec config \<noteq> 0 \<and> \<not> closed r \<and> qb_attempt front = 0 \<and> \<not> bytes_reached \<and>
            \<not> records_reached \<and> \<not> cs_boundary cs \<and> \<not> sender_blocked \<and> deadline > now
         then Some deadline else None)"

definition build_lease ::
  "nat \<Rightarrow> SignalKind \<Rightarrow> instant \<Rightarrow> ('b, 's) QueuedBatch \<Rightarrow> ('b, 's) pop_state \<Rightarrow> ('b, 's) Lease" where
  "build_lease instance_id sig now first ps =
     \<lparr>le_id = \<lparr>li_instance_id = instance_id, li_signal = sig, li_first_seq = qb_seq_id first,
               li_last_seq = ps_last_seq ps\<rparr>,
      le_batches = ps_batches ps, le_payloads = ps_payloads ps, le_meta = ps_meta ps,
      le_num_rows = ps_rows ps, le_quarantined_rows = 0, le_byte_size = ps_bytes ps,
      le_attempt = qb_attempt first, le_leased_at = now, le_completed = False\<rparr>"

definition try_pop_signal_lease ::
  "('b, 's) arrow_ops \<Rightarrow> clock \<Rightarrow> SignalKind \<Rightarrow> instant \<Rightarrow> ('b, 's) BufferInner \<Rightarrow>
   (('b, 's) Lease option \<times> instant option \<times> bool) \<times> ('b, 's) BufferInner" where
  "try_pop_signal_lease ao clk sig now st =
     (let rs = in_rings st sig; r = ring rs; config = in_config st
      in if inflight_leases r \<ge> max_inflight_leases config then ((None, None, ring_drained r), st)
      else case queue r of
        [] \<Rightarrow> ((None, None, ring_drained r), st)
      | front # rest \<Rightarrow>
          if earlier_reserved (qb_seq_id front) (slots r) then ((None, None, False), st)
          else (case (case qb_ready_at front of Some t \<Rightarrow> if t > now then Some t else None | None \<Rightarrow> None) of
            Some t \<Rightarrow> ((None, Some t, False), st)
          | None \<Rightarrow>
              let cs = coalesce config (ao_schema ao) (slots r) now (qb_attempt front)
                         (payload_schema (ao_schema ao) (qb_payload front)) rest (start_coalesce front)
              in (case flush_wait config (blocked_senders rs > 0) front cs r now of
                Some deadline \<Rightarrow> ((None, Some deadline, False), st)
              | None \<Rightarrow>
                  let ps = pop_more (cs_count cs - 1) (first_pop front rest r);
                      r' = (ps_ring ps)\<lparr>inflight_leases := sat_add (inflight_leases (ps_ring ps)) 1\<rparr>
                  in ((Some (build_lease (in_instance_id st) sig now front ps), None, False),
                      sync_ring_metrics clk sig (upd_ring sig (\<lambda>_. r') st)))))"

end
