(* ===== verification/LeaseOps.thy ===== *)
theory LeaseOps
  imports BufferCore
begin

text \<open>
  Operations of a lease (\<open>crates/core/src/buffer/lease.rs\<close>): preparing its batches, quarantining rows,
  \<open>ack\<close>, \<open>nack\<close> with its three failure classes, and dropping it. A lease consumed by an operation is
  not returned. Lemmas say what the operations do to the lease's batches: acknowledged, put back,
  or stored in the dead-letter directory.
\<close>

datatype FailureClass = Transient | Rejected string | Fatal string

section \<open>Reading the batches\<close>

text \<open>The payloads of a lease in order; \<open>rd i\<close> is how the reads of the \<open>i\<close>-th one go.\<close>

fun decode_payloads ::
  "('b, 's) arrow_ops \<Rightarrow> (nat \<Rightarrow> bool \<times> read_event list) \<Rightarrow> dir \<Rightarrow> BufferConfig \<Rightarrow> nat \<Rightarrow>
   ('b, 's) BatchPayload list \<Rightarrow> 'b list result" where
  "decode_payloads ao rd files config i [] = Inr []"
| "decode_payloads ao rd files config i (InMemory b # ps) =
     try_bind (decode_payloads ao rd files config (Suc i) ps) (\<lambda>bs. Inr (b # bs))"
| "decode_payloads ao rd files config i (OnDisk segment_id offset len rows sch # ps) =
     (if disk_path config = None
      then Inl (Storage ''OnDisk payload encountered without configured disk_path'')
      else try_bind (read_frame_at ao (fst (rd i)) (snd (rd i)) files segment_id offset len
                       (max_disk_frame_payload_bytes config))
             (\<lambda>b. try_bind (decode_payloads ao rd files config (Suc i) ps) (\<lambda>bs. Inr (b # bs))))"

definition prepare ::
  "('b, 's) arrow_ops \<Rightarrow> (nat \<Rightarrow> bool \<times> read_event list) \<Rightarrow> bool \<Rightarrow> dir \<Rightarrow> BufferConfig \<Rightarrow> ('b \<Rightarrow> 'r result) \<Rightarrow>
   ('b, 's) Lease \<Rightarrow> 'r result" where
  "prepare ao rd join_ok files config f le =
     (if le_payloads le = [] then Inl (Internal ''Lease::prepare invoked on empty lease'')
      else if \<not> join_ok then Inl (Internal ''Lease::prepare join error'')
      else try_bind (decode_payloads ao rd files config 0 (le_payloads le)) (\<lambda>decoded.
           try_bind (case decoded of
                       [b] \<Rightarrow> Inr b
                     | _ \<Rightarrow> ao_concat ao (ao_schema ao (hd decoded)) decoded) f))"

section \<open>Quarantine of some rows, acknowledgement\<close>

definition lease_quarantine_batches ::
  "('b, 's) arrow_ops \<Rightarrow> (DeadLetterMetadata \<Rightarrow> byte list) \<Rightarrow> dead_letter_io \<Rightarrow> bool \<Rightarrow> clock \<Rightarrow> string \<Rightarrow> 'b list \<Rightarrow>
   ('b, 's) Lease \<Rightarrow> ('b, 's) BufferInner \<Rightarrow>
   string option result \<times> ('b, 's) Lease \<times> ('b, 's) BufferInner" where
  "lease_quarantine_batches ao to_json io join_ok clk reason batches le st =
     (let row_count = sum_list (map (ao_num_rows ao) batches); id = le_id le
      in case quarantine_batches ao to_json io join_ok clk (li_signal id) (li_first_seq id) (li_last_seq id)
                (sat_add32 (le_attempt le) 1) reason batches st of
           (Inl e, st1) \<Rightarrow> (Inl e, le, st1)
         | (Inr path, st1) \<Rightarrow>
             (Inr path,
              if row_count > 0
              then le\<lparr>le_quarantined_rows := atomic_add (le_quarantined_rows le) row_count\<rparr> else le, st1))"

text \<open>\<open>ack\<close>: the flush duration is the clock reading minus the time of the lease.\<close>

definition ack :: "clock \<Rightarrow> unit reply \<Rightarrow> ('b, 's) Lease \<Rightarrow> ('b, 's) BufferInner \<Rightarrow> unit result \<times> ('b, 's) BufferInner" where
  "ack clk reply le st =
     (let flush_duration = clk_now clk - le_leased_at le; sig = li_signal (le_id le)
      in case ack_lease clk reply sig (le_meta le) True st of
           (Inl e, st1) \<Rightarrow> (Inl e, st1)
         | (Inr acked_rows, st1) \<Rightarrow>
             let committed_rows = acked_rows - le_quarantined_rows le
             in (Inr (), if committed_rows > 0
                         then with_metrics (record_committed sig committed_rows flush_duration) st1 else st1))"

section \<open>Retry and failure\<close>

definition note_transient :: "clock \<Rightarrow> SignalKind \<Rightarrow> ('b, 's) BufferInner \<Rightarrow> ('b, 's) BufferInner" where
  "note_transient clk sig =
     upd_rs sig (\<lambda>rs. if first_transient_failure_unix_ms rs = 0
                      then rs\<lparr>first_transient_failure_unix_ms := max (clk_unix_ms clk) 1\<rparr> else rs)"

definition mark_failed :: "instant \<Rightarrow> LeasedBatchMeta \<Rightarrow> LeasedBatchMeta" where
  "mark_failed now m = (if lm_first_failed_at m = None then m\<lparr>lm_first_failed_at := Some now\<rparr> else m)"

definition transient_expired :: "clock \<Rightarrow> SignalKind \<Rightarrow> LeasedBatchMeta list \<Rightarrow> ('b, 's) BufferInner \<Rightarrow> bool" where
  "transient_expired clk sig meta st \<longleftrightarrow>
     (let limit = max_transient_duration_sec (in_config st);
          first_fail_ms = first_transient_failure_unix_ms (in_rings st sig)
      in limit > 0 \<and>
         ((first_fail_ms > 0 \<and> max (clk_unix_ms clk) 1 - first_fail_ms \<ge> sat_mul limit 1000) \<or>
          list_ex (\<lambda>m. case lm_first_failed_at m of
                         Some t \<Rightarrow> clk_now clk - t \<ge> limit * 1000000000 | None \<Rightarrow> False) meta))"

definition backoff_ms :: "BufferConfig \<Rightarrow> nat \<Rightarrow> nat" where
  "backoff_ms config attempt =
     min (sat_mul (initial_backoff_ms config) (2 ^ min attempt 16)) (sat_mul (max_backoff_sec config) 1000)"

definition retry_at :: "BufferConfig \<Rightarrow> nat \<Rightarrow> instant \<Rightarrow> instant option" where
  "retry_at config attempt now =
     (let ms = backoff_ms config attempt in if ms > 0 then Some (now + ms * 1000000) else None)"

definition transient_reason :: "('b, 's) BufferInner \<Rightarrow> string" where
  "transient_reason st = ''transient retry duration exceeded '' @ show_nat (max_transient_duration_sec (in_config st)) @
     ''s on sink '' @ [CHR 0x27] @ in_sink_name st @ [CHR 0x27]"

definition nack_transient :: "clock \<Rightarrow> ('b, 's) Lease \<Rightarrow> ('b, 's) BufferInner \<Rightarrow> ('b, 's) BufferInner" where
  "nack_transient clk le st =
     (let sig = li_signal (le_id le); now = clk_now clk;
          meta = map (mark_failed now) (le_meta le);
          st1 = note_transient clk sig (with_metrics (record_nack sig ''transient'') st)
      in if transient_expired clk sig meta st1
         then fail_lease clk sig (le_payloads le) meta (transient_reason st1) st1
         else requeue_lease clk sig (le_payloads le) meta (sat_add32 (le_attempt le) 1)
                (retry_at (in_config st1) (le_attempt le) now) st1)"

definition drop_lease :: "clock \<Rightarrow> ('b, 's) Lease \<Rightarrow> ('b, 's) BufferInner \<Rightarrow> ('b, 's) BufferInner" where
  "drop_lease clk le st =
     (if le_completed le then st
      else let sig = li_signal (le_id le)
           in requeue_lease clk sig (le_payloads le) (map (mark_failed (clk_now clk)) (le_meta le))
                (sat_add32 (le_attempt le) 1) None (note_transient clk sig st))"

text \<open>
  \<open>nack_rejected_exhausted\<close>. A join error returns before the lease is marked as completed, so the
  caller's \<open>?\<close> drops it and \<open>Drop\<close> puts the batches back.
\<close>

record nack_io =
  ni_reads :: "nat \<Rightarrow> bool \<times> read_event list"
  ni_files :: dir
  ni_dead :: dead_letter_io
  ni_join_ok :: bool
  ni_reply :: "unit reply"

definition exhausted_meta :: "clock \<Rightarrow> nat \<Rightarrow> string \<Rightarrow> ('b, 's) Lease \<Rightarrow> ('b, 's) BufferInner \<Rightarrow> DeadLetterMetadata" where
  "exhausted_meta clk next_attempt reason le st =
     \<lparr>dm_sink = in_sink_name st, dm_signal = li_signal (le_id le), dm_first_seq = li_first_seq (le_id le),
      dm_last_seq = li_last_seq (le_id le), dm_row_count = le_num_rows le, dm_attempts = next_attempt,
      dm_reason = reason, dm_timestamp_unix_ms = clk_unix_ms clk\<rparr>"

definition quarantine_lease ::
  "('b, 's) arrow_ops \<Rightarrow> (DeadLetterMetadata \<Rightarrow> byte list) \<Rightarrow> nack_io \<Rightarrow> clock \<Rightarrow> nat \<Rightarrow> string \<Rightarrow> ('b, 's) Lease \<Rightarrow>
   ('b, 's) BufferInner \<Rightarrow> string result \<times> ('b, 's) BufferInner" where
  "quarantine_lease ao to_json io clk next_attempt reason le st =
     (case decode_payloads ao (ni_reads io) (ni_files io) (in_config st) 0 (le_payloads le) of
        Inl e \<Rightarrow> (Inl e, st)
      | Inr decoded \<Rightarrow>
          (case write_quarantine ao to_json (ni_dead io) (exhausted_meta clk next_attempt reason le st) decoded
                  (in_dead_letter st) of
             (res, ds) \<Rightarrow> (res, st\<lparr>in_dead_letter := ds\<rparr>)))"

definition nack_rejected_exhausted ::
  "('b, 's) arrow_ops \<Rightarrow> (DeadLetterMetadata \<Rightarrow> byte list) \<Rightarrow> nack_io \<Rightarrow> clock \<Rightarrow> nat \<Rightarrow> string \<Rightarrow> ('b, 's) Lease \<Rightarrow>
   ('b, 's) BufferInner \<Rightarrow> unit result \<times> ('b, 's) BufferInner" where
  "nack_rejected_exhausted ao to_json io clk next_attempt reason le st =
     (let sig = li_signal (le_id le); rows = le_num_rows le
      in if \<not> ni_join_ok io
         then (Inl (Internal ''Lease::nack dead-letter join error''), drop_lease clk le st)
         else case quarantine_lease ao to_json io clk next_attempt reason le st of
           (Inl e, st1) \<Rightarrow> (Inl e, fail_lease clk sig (le_payloads le) (le_meta le) (error_text e) st1)
         | (Inr _, st1) \<Rightarrow>
             let st2 = with_metrics (record_dropped sig rows ''dead_letter'')
                         (upd_rs sig (\<lambda>rs. rs\<lparr>dead_letter_drops := atomic_add (dead_letter_drops rs) rows\<rparr>) st1)
             in (case ack_lease clk (ni_reply io) sig (le_meta le) False st2 of
                   (res, st3) \<Rightarrow> (try_bind res (\<lambda>_. Inr ()), st3)))"

definition nack ::
  "('b, 's) arrow_ops \<Rightarrow> (DeadLetterMetadata \<Rightarrow> byte list) \<Rightarrow> nack_io \<Rightarrow> clock \<Rightarrow> FailureClass \<Rightarrow> ('b, 's) Lease \<Rightarrow>
   ('b, 's) BufferInner \<Rightarrow> unit result \<times> ('b, 's) BufferInner" where
  "nack ao to_json io clk cls le st =
     (let sig = li_signal (le_id le); next_attempt = sat_add32 (le_attempt le) 1
      in case cls of
        Transient \<Rightarrow> (Inr (), nack_transient clk le st)
      | Rejected reason \<Rightarrow>
          let st1 = with_metrics (record_nack sig ''rejected'') st
          in if next_attempt < max_attempts (in_config st1)
             then (Inr (), requeue_lease clk sig (le_payloads le) (le_meta le) next_attempt None st1)
             else nack_rejected_exhausted ao to_json io clk next_attempt reason le st1
      | Fatal reason \<Rightarrow>
          (Inr (), fail_lease clk sig (le_payloads le) (le_meta le) reason
                     (with_metrics (record_nack sig ''fatal'') st)))"

end
