(* ===== verification/Sender.thy ===== *)
theory Sender
  imports BufferCore
begin

text \<open>
  The producer side (\<open>crates/core/src/buffer/mod.rs\<close>, lines 690 to 1108, and
  \<open>append_encoded_frame\<close> of \<open>disk.rs\<close>): admission under the two overflow policies, the guard that
  counts blocked senders, reservations for frames on their way to the writer thread, and \<open>send\<close>.

  One turn of the admission loop is \<open>admit_turn\<close>. A blocked sender is suspended until it is
  notified; what happened meanwhile is an argument of the loop, and a sender that is still
  suspended has no result yet.
\<close>

section \<open>The guard of a blocked sender\<close>

definition mark_blocked :: "clock \<Rightarrow> ('b, 's) SignalRingState \<times> bool \<Rightarrow> ('b, 's) SignalRingState \<times> bool" where
  "mark_blocked clk g =
     (case g of (rs, active) \<Rightarrow>
      if active then (rs, active)
      else (let prev = blocked_senders rs;
                rs1 = rs\<lparr>blocked_senders := atomic_add prev 1\<rparr>
            in if prev = 0 then rs1\<lparr>blocked_since_unix_ms := max (clk_unix_ms clk) 1\<rparr> else rs1, True))"

definition mark_admitted :: "clock \<Rightarrow> ('b, 's) SignalRingState \<times> bool \<Rightarrow> ('b, 's) SignalRingState \<times> bool" where
  "mark_admitted clk g =
     (case g of (rs, active) \<Rightarrow>
      if \<not> active then (rs, active)
      else (let prev = blocked_senders rs;
                rs1 = rs\<lparr>blocked_senders := atomic_sub prev 1\<rparr>
            in if prev \<le> 1 then rs1\<lparr>blocked_since_unix_ms := 0\<rparr>
               else let rs2 = rs1\<lparr>blocked_since_unix_ms := max (clk_unix_ms clk) 1\<rparr>
                    in if blocked_senders rs2 = 0 then rs2\<lparr>blocked_since_unix_ms := 0\<rparr> else rs2, False))"

definition drop_guard :: "('b, 's) SignalRingState \<times> bool \<Rightarrow> ('b, 's) SignalRingState" where
  "drop_guard g =
     (case g of (rs, active) \<Rightarrow>
      if \<not> active then rs
      else let prev = blocked_senders rs;
               rs1 = rs\<lparr>blocked_senders := atomic_sub prev 1\<rparr>
           in if prev \<le> 1 then rs1\<lparr>blocked_since_unix_ms := 0\<rparr> else rs1)"

section \<open>Reservations\<close>

definition nonblocking_watermark :: "bool \<Rightarrow> ('b, 's) BufferInner \<Rightarrow> ('b, 's) BufferInner" where
  "nonblocking_watermark send_ok st =
     (case in_disk st of
        None \<Rightarrow> st
      | Some db \<Rightarrow> st\<lparr>in_disk := Some (update_watermark_nonblocking send_ok (own_watermark st) db)\<rparr>)"

definition rollback_slot ::
  "clock \<Rightarrow> bool \<Rightarrow> 's AppendReservation \<Rightarrow> ('b, 's) BufferInner \<Rightarrow> ('b, 's) BufferInner" where
  "rollback_slot clk send_ok res st =
     (let sig = ar_signal res; r = the_ring sig st
      in if bt_get (slots r) (ar_seq_id res) = None then st
         else let r1 = r\<lparr>slots := bt_remove (ar_seq_id res) (slots r),
                         bytes_in_flight := bytes_in_flight r - ar_frame_bytes_len res,
                         rows_in_flight := rows_in_flight r - ar_batch_rows res\<rparr>;
                  st1 = sync_ring_metrics clk sig
                          (upd_rs sig (\<lambda>rs. case advance_watermark r1 (committed_seq rs) of
                                              (r2, c) \<Rightarrow> rs\<lparr>ring := r2, committed_seq := c\<rparr>) st)
              in notify_data_ready sig (notify_space sig (nonblocking_watermark send_ok st1)))"

definition written_batch :: "clock \<Rightarrow> 's AppendReservation \<Rightarrow> WrittenFrame \<Rightarrow> ('b, 's) QueuedBatch" where
  "written_batch clk res w =
     \<lparr>qb_seq_id = ar_seq_id res,
      qb_payload = OnDisk (wf_segment_id w) (wf_offset w) (wf_len w) (ar_rows res) (ar_schema res),
      qb_byte_size = wf_len w, qb_row_count = ar_batch_rows res, qb_enqueued_at = clk_now clk,
      qb_first_failed_at = None, qb_attempt = 0, qb_ready_at = None\<rparr>"

definition queue_written ::
  "clock \<Rightarrow> 's AppendReservation \<Rightarrow> WrittenFrame \<Rightarrow> ('b, 's) SignalRing \<Rightarrow> ('b, 's) SignalRing" where
  "queue_written clk res w r =
     r\<lparr>bytes_in_flight := sat_add (bytes_in_flight r - ar_frame_bytes_len res) (wf_len w),
       slots := bt_insert (ar_seq_id res) Queued (slots r),
       queue := enqueue_ordered (written_batch clk res w) (queue r)\<rparr>"

definition finish ::
  "clock \<Rightarrow> bool \<Rightarrow> string + WrittenFrame \<Rightarrow> 's AppendReservation \<Rightarrow> ('b, 's) BufferInner \<Rightarrow> ('b, 's) BufferInner" where
  "finish clk send_ok outcome res st =
     (let sig = ar_signal res
      in case outcome of
        Inr w \<Rightarrow>
          if bt_get (slots (the_ring sig st)) (ar_seq_id res) = Some Reserved
          then let st1 = sync_ring_metrics clk sig (upd_ring sig (queue_written clk res w) st);
                   st2 = (if wf_len w < ar_frame_bytes_len res then notify_space sig st1 else st1)
               in notify_data_ready sig st2
          else st
      | Inl err_msg \<Rightarrow> record_storage_failure sig err_msg (rollback_slot clk send_ok res st))"

text \<open>Dropping a reservation that was not finished.\<close>

definition drop_reservation ::
  "clock \<Rightarrow> bool \<Rightarrow> 's AppendReservation \<Rightarrow> ('b, 's) BufferInner \<Rightarrow> ('b, 's) BufferInner" where
  "drop_reservation = rollback_slot"

section \<open>Admission\<close>

definition can_admit :: "('b, 's) SignalRing \<Rightarrow> nat \<Rightarrow> nat \<Rightarrow> bool" where
  "can_admit r batch_bytes budget =
     (let total_used = sat_add (bytes_in_flight r) (unreclaimed_disk_bytes r)
      in if queue r = [] \<and> total_used = 0 then True
         else sat_add total_used batch_bytes \<le> budget)"

definition front_is_pinned_on_disk :: "('b, 's) QueuedBatch \<Rightarrow> ('b, 's) SignalRing \<Rightarrow> bool" where
  "front_is_pinned_on_disk front r \<longleftrightarrow>
     is_on_disk (qb_payload front) \<and>
     (case bt_first (slots r) of Some (first_seq, _) \<Rightarrow> first_seq < qb_seq_id front | None \<Rightarrow> False)"

lemma queue_record_evicted_batch [simp]: "queue (fst (record_evicted_batch b r c)) = queue r"
  by (simp add: record_evicted_batch_def Let_def case_prod_beta)

lemma evict_shrinks:
  assumes "record_evicted_batch b (r\<lparr>queue := rest\<rparr>) c = (r1, c1, rows)"
  shows "queue r1 = rest"
  using queue_record_evicted_batch [of b "r\<lparr>queue := rest\<rparr>" c] assms by simp

function evict_oldest ::
  "nat \<Rightarrow> nat \<Rightarrow> ('b, 's) SignalRing \<Rightarrow> nat \<Rightarrow> nat \<Rightarrow> ('b, 's) SignalRing \<times> nat \<times> nat" where
  "evict_oldest batch_bytes budget r committed evicted_rows =
     (if can_admit r batch_bytes budget then (r, committed, evicted_rows)
      else case queue r of
        [] \<Rightarrow> (r, committed, evicted_rows)
      | front # rest \<Rightarrow>
          if front_is_pinned_on_disk front r then (r, committed, evicted_rows)
          else case record_evicted_batch front (r\<lparr>queue := rest\<rparr>) committed of
                 (r1, c1, rows) \<Rightarrow> evict_oldest batch_bytes budget r1 c1 (sat_add evicted_rows rows))"
  by pat_completeness auto
termination
  by (relation "measure (\<lambda>(_, _, r, _, _). length (queue r))") (auto dest!: evict_shrinks [OF sym])

declare evict_oldest.simps [simp del]


text \<open>One turn of the admission loop of \<open>reserve_or_enqueue_slot\<close>.\<close>

datatype admission = Admitted "nat option" | Refused PipelineError | Blocked

definition new_batch :: "clock \<Rightarrow> nat \<Rightarrow> 'b \<Rightarrow> nat \<Rightarrow> nat \<Rightarrow> ('b, 's) QueuedBatch" where
  "new_batch clk seq_id batch batch_bytes batch_rows =
     \<lparr>qb_seq_id = seq_id, qb_payload = InMemory batch, qb_byte_size = batch_bytes, qb_row_count = batch_rows,
      qb_enqueued_at = clk_now clk, qb_first_failed_at = None, qb_attempt = 0, qb_ready_at = None\<rparr>"

definition admit_ring ::
  "clock \<Rightarrow> nat \<Rightarrow> nat \<Rightarrow> 'b option \<Rightarrow> ('b, 's) SignalRing \<Rightarrow> ('b, 's) SignalRing" where
  "admit_ring clk batch_bytes batch_rows in_mem r =
     (let seq_id = next_seq r;
          r1 = r\<lparr>next_seq := sat_add seq_id 1,
                 bytes_in_flight := sat_add (bytes_in_flight r) batch_bytes,
                 rows_in_flight := sat_add (rows_in_flight r) batch_rows\<rparr>
      in case in_mem of
           Some batch \<Rightarrow> r1\<lparr>slots := bt_insert seq_id Queued (slots r1),
                            queue := queue r1 @ [new_batch clk seq_id batch batch_bytes batch_rows]\<rparr>
         | None \<Rightarrow> r1\<lparr>slots := bt_insert seq_id Reserved (slots r1)\<rparr>)"

text \<open>The eviction phase under \<open>DropOldest\<close>.\<close>

definition make_room ::
  "bool \<Rightarrow> SignalKind \<Rightarrow> nat \<Rightarrow> ('b, 's) BufferInner \<Rightarrow> ('b, 's) BufferInner" where
  "make_room send_ok sig batch_bytes st =
     (if overflow_policy (in_config st) \<noteq> DropOldest then st
      else let rs = in_rings st sig
           in case evict_oldest batch_bytes (per_signal_budget (in_config st)) (ring rs) (committed_seq rs) 0 of
                (r, c, evicted_rows) \<Rightarrow>
                  let st1 = upd_rs sig (\<lambda>rs. rs\<lparr>ring := r, committed_seq := c\<rparr>) st
                  in if evicted_rows > 0
                     then nonblocking_watermark send_ok
                            (with_metrics (record_dropped sig evicted_rows ''overflow'') st1)
                     else st1)"

definition upd_guard ::
  "SignalKind \<Rightarrow> (('b, 's) SignalRingState \<times> bool \<Rightarrow> ('b, 's) SignalRingState \<times> bool) \<Rightarrow> bool \<Rightarrow>
   ('b, 's) BufferInner \<Rightarrow> bool \<times> ('b, 's) BufferInner" where
  "upd_guard sig f active st =
     (case f (in_rings st sig, active) of (rs, active') \<Rightarrow> (active', upd_rs sig (\<lambda>_. rs) st))"

definition leave_guard :: "SignalKind \<Rightarrow> bool \<Rightarrow> ('b, 's) BufferInner \<Rightarrow> ('b, 's) BufferInner" where
  "leave_guard sig active st = upd_rs sig (\<lambda>rs. drop_guard (rs, active)) st"

definition admit_turn ::
  "clock \<Rightarrow> bool \<Rightarrow> SignalKind \<Rightarrow> nat \<Rightarrow> nat \<Rightarrow> 'b option \<Rightarrow> bool \<Rightarrow> ('b, 's) BufferInner \<Rightarrow>
   admission \<times> bool \<times> ('b, 's) BufferInner" where
  "admit_turn clk send_ok sig batch_bytes batch_rows in_mem active st =
     (case fatal_reason st of
        Some reason \<Rightarrow> (Refused (Storage reason), False, leave_guard sig active st)
      | None \<Rightarrow>
     (case ring_fatal_error (the_ring sig st) of
        Some reason \<Rightarrow> (Refused (Storage reason), False, leave_guard sig active st)
      | None \<Rightarrow>
     if receiver_dropped (the_ring sig st) \<or> closed (the_ring sig st)
     then (Refused DownstreamClosed, False, leave_guard sig active st)
     else let st1 = make_room send_ok sig batch_bytes st
          in if can_admit (the_ring sig st1) batch_bytes (per_signal_budget (in_config st))
             then let seq_id = next_seq (the_ring sig st1);
                      st2 = sync_ring_metrics clk sig (upd_ring sig (admit_ring clk batch_bytes batch_rows in_mem) st1)
                  in (case upd_guard sig (mark_admitted clk) active st2 of (active', st3) \<Rightarrow>
                      if in_mem \<noteq> None then (Admitted None, active', notify_data_ready sig st3)
                      else (Admitted (Some seq_id), active', st3))
             else (case upd_guard sig (mark_blocked clk) active st1 of (active', st2) \<Rightarrow>
                   (Blocked, active', notify_data_ready sig st2))))"

text \<open>
  The loop: each element is the clock, the outcome of the channel send and what other tasks do to
  the buffer before the next turn. \<open>None\<close> is a sender that is still suspended.
\<close>

type_synonym ('b, 's) turn = "clock \<times> bool \<times> (('b, 's) BufferInner \<Rightarrow> ('b, 's) BufferInner)"

fun reserve_or_enqueue_slot ::
  "('b, 's) turn list \<Rightarrow> SignalKind \<Rightarrow> nat \<Rightarrow> nat \<Rightarrow> 'b option \<Rightarrow> bool \<Rightarrow> ('b, 's) BufferInner \<Rightarrow>
   nat option result option \<times> ('b, 's) BufferInner" where
  "reserve_or_enqueue_slot [] sig batch_bytes batch_rows in_mem active st = (None, st)"
| "reserve_or_enqueue_slot ((clk, send_ok, env) # turns) sig batch_bytes batch_rows in_mem active st =
     (case admit_turn clk send_ok sig batch_bytes batch_rows in_mem active st of
        (Admitted s, _, st1) \<Rightarrow> (Some (Inr s), st1)
      | (Refused e, _, st1) \<Rightarrow> (Some (Inl e), st1)
      | (Blocked, active', st1) \<Rightarrow>
          reserve_or_enqueue_slot turns sig batch_bytes batch_rows in_mem active' (env st1))"

section \<open>Sending\<close>

text \<open>
  \<open>append_encoded_frame\<close> up to the await: \<open>None\<close> when the command was sent. A command that cannot be
  sent is dropped together with its reservation.
\<close>

definition append_encoded_frame ::
  "clock \<Rightarrow> bool \<Rightarrow> bool \<Rightarrow> byte list \<Rightarrow> 's AppendReservation \<Rightarrow> ('b, 's) BufferInner \<Rightarrow>
   PipelineError option \<times> ('b, 's) BufferInner" where
  "append_encoded_frame clk wm_ok send_ok bytes res st =
     (case in_disk st of
        None \<Rightarrow> (Some (Internal ''disk backend missing on disk send path''), drop_reservation clk wm_ok res st)
      | Some db \<Rightarrow>
          if \<not> db_cmd_tx db
          then (Some (Storage ''disk buffer writer thread is closed''), drop_reservation clk wm_ok res st)
          else if \<not> send_ok
          then (Some (Storage ''disk buffer writer thread exited''), drop_reservation clk wm_ok res st)
          else (None, st\<lparr>in_disk := Some (db\<lparr>db_sent := db_sent db @
                 [AppendEncoded (ar_signal res) (ar_seq_id res) (ar_rows res) bytes res]\<rparr>)\<rparr>))"

datatype append_reply = AppendPending | AppendReplyDropped | AppendReplied "string + WrittenFrame"

text \<open>What one frame meets on its way: the admission turns, the channel, and the writer's reply.\<close>

record ('b, 's) send_io =
  si_turns :: "('b, 's) turn list"
  si_clock :: clock
  si_wm_ok :: bool
  si_send_ok :: bool
  si_meanwhile :: "('b, 's) BufferInner \<Rightarrow> ('b, 's) BufferInner"
  si_reply :: append_reply

definition await_append :: "append_reply \<Rightarrow> unit result option" where
  "await_append reply =
     (case reply of
        AppendPending \<Rightarrow> None
      | AppendReplyDropped \<Rightarrow> Some (Inl (Storage ''disk buffer writer thread dropped append reply''))
      | AppendReplied (Inl e) \<Rightarrow> Some (Inl (Storage e))
      | AppendReplied (Inr _) \<Rightarrow> Some (Inr ()))"

definition send_pre_encoded_disk_frame ::
  "('b, 's) arrow_ops \<Rightarrow> ('b, 's) send_io \<Rightarrow> SignalKind \<Rightarrow> 'b PreEncodedFrame \<Rightarrow> ('b, 's) BufferInner \<Rightarrow>
   unit result option \<times> ('b, 's) BufferInner" where
  "send_pre_encoded_disk_frame ao io sig frame st =
     (let frame_bytes_len = length (pf_bytes frame); batch_rows = ao_num_rows ao (pf_batch frame)
      in case reserve_or_enqueue_slot (si_turns io) sig frame_bytes_len batch_rows None False st of
        (None, st1) \<Rightarrow> (None, st1)
      | (Some (Inl e), st1) \<Rightarrow> (Some (Inl e), st1)
      | (Some (Inr None), st1) \<Rightarrow> (Some (Inr ()), st1)
      | (Some (Inr (Some reserved_seq_id)), st1) \<Rightarrow>
          let res = \<lparr>ar_signal = sig, ar_seq_id = reserved_seq_id, ar_frame_bytes_len = frame_bytes_len,
                     ar_batch_rows = batch_rows, ar_rows = fh_row_count (pf_header frame),
                     ar_schema = ao_schema ao (pf_batch frame)\<rparr>
          in (case append_encoded_frame (si_clock io) (si_wm_ok io) (si_send_ok io) (pf_bytes frame) res st1 of
                (Some e, st2) \<Rightarrow> (Some (Inl e), st2)
              | (None, st2) \<Rightarrow> (await_append (si_reply io), si_meanwhile io st2)))"

fun send_frames ::
  "('b, 's) arrow_ops \<Rightarrow> (nat \<Rightarrow> ('b, 's) send_io) \<Rightarrow> nat \<Rightarrow> SignalKind \<Rightarrow> 'b PreEncodedFrame list \<Rightarrow> ('b, 's) BufferInner \<Rightarrow>
   unit result option \<times> ('b, 's) BufferInner" where
  "send_frames ao io i sig [] st = (Some (Inr ()), st)"
| "send_frames ao io i sig (frame # frames) st =
     (case send_pre_encoded_disk_frame ao (io i) sig frame st of
        (Some (Inr _), st1) \<Rightarrow> send_frames ao io (Suc i) sig frames st1
      | (res, st1) \<Rightarrow> (res, st1))"

definition send ::
  "('b, 's) arrow_ops \<Rightarrow> (nat \<Rightarrow> ('b, 's) send_io) \<Rightarrow> bool \<Rightarrow> 'b SignalBatch \<Rightarrow> ('b, 's) BufferInner \<Rightarrow>
   unit result option \<times> ('b, 's) BufferInner" where
  "send ao io join_ok batch st =
     (case signal_of batch of (sig, record_batch) \<Rightarrow>
      let batch_bytes = ao_memory_size ao record_batch
      in if in_disk st \<noteq> None
         then if batch_bytes \<ge> 65536 \<and> \<not> join_ok
              then (Some (Inl (Internal ''disk frame encode join error'')), st)
              else (case split_and_encode_frames_for_disk ao sig record_batch (max_disk_frame_payload_bytes (in_config st)) of
                      None \<Rightarrow> (None, st)
                    | Some (Inl e) \<Rightarrow> (Some (Inl e), st)
                    | Some (Inr frames) \<Rightarrow> send_frames ao io 0 sig frames st)
         else (case reserve_or_enqueue_slot (si_turns (io 0)) sig batch_bytes (ao_num_rows ao record_batch)
                      (Some record_batch) False st of
                 (res, st1) \<Rightarrow> (map_option (\<lambda>r. try_bind r (\<lambda>_. Inr ())) res, st1)))"

text \<open>Handles: creating, cloning and dropping a \<open>BufferSender\<close> with a scope.\<close>

definition sender_new :: "SignalKind option \<Rightarrow> ('b, 's) BufferInner \<Rightarrow> ('b, 's) BufferInner" where
  "sender_new = increment_senders"

definition sender_drop :: "SignalKind option \<Rightarrow> ('b, 's) BufferInner \<Rightarrow> ('b, 's) BufferInner" where
  "sender_drop = decrement_senders"

end
