(* ===== verification/SinkBufferOps.thy ===== *)
theory SinkBufferOps
  imports LeaseOps Sender
begin

text \<open>
  The consumer side (\<open>crates/core/src/buffer/mod.rs\<close>, lines 1113 to 1542): constructors, \<open>next_lease\<close>
  with its round robin over the signals, \<open>recv_passthrough\<close>, the counters and the administrative
  operations, and dropping the consumer.

  As in \<open>Sender\<close>, one turn of the loop of \<open>next_lease\<close> is a function, and what other tasks do while
  the consumer is suspended is an argument of the loop.
\<close>

record SinkBuffer =
  signal_scope :: "SignalKind option"
  rr_cursor :: nat

section \<open>Construction\<close>

definition sink_buffer_new ::
  "clock \<Rightarrow> string \<Rightarrow> BufferConfig \<Rightarrow> nat \<Rightarrow> (nat \<times> ('b, 's) rings) result \<Rightarrow> DeadLetterStore result \<Rightarrow>
   DeadLetterStore result \<Rightarrow> (SinkBuffer \<times> ('b, 's) BufferInner) result" where
  "sink_buffer_new clk sink_name config fresh_id recovered dlq_at_path dlq_default =
     try_bind (validate config) (\<lambda>_.
     try_bind (inner_new clk sink_name config fresh_id recovered dlq_at_path dlq_default) (\<lambda>inner.
       Inr (\<lparr>signal_scope = None, rr_cursor = 0\<rparr>, sender_new None inner)))"

definition passthrough_pair ::
  "nat \<Rightarrow> DeadLetterStore result \<Rightarrow> dir \<Rightarrow> SinkBuffer \<times> ('b, 's) BufferInner" where
  "passthrough_pair fresh_id dlq files =
     (\<lparr>signal_scope = None, rr_cursor = 0\<rparr>, sender_new None (new_passthrough fresh_id dlq files))"

definition new_signal_triad ::
  "clock \<Rightarrow> string \<Rightarrow> BufferConfig \<Rightarrow> nat \<Rightarrow> (nat \<times> ('b, 's) rings) result \<Rightarrow> DeadLetterStore result \<Rightarrow>
   DeadLetterStore result \<Rightarrow> (SinkBuffer list \<times> ('b, 's) BufferInner) result" where
  "new_signal_triad clk sink_name config fresh_id recovered dlq_at_path dlq_default =
     try_bind (validate config) (\<lambda>_.
     try_bind (inner_new clk sink_name config fresh_id recovered dlq_at_path dlq_default) (\<lambda>inner.
       Inr (map (\<lambda>sig. \<lparr>signal_scope = Some sig, rr_cursor = unat (as_u8 sig)\<rparr>) ALL_SIGNALS,
            fold (\<lambda>sig. sender_new (Some sig)) ALL_SIGNALS inner)))"

section \<open>Waiting for a lease\<close>

datatype ('b, 's) lease_answer =
    GotLease "('b, 's) Lease" | Drained | LeaseRefused PipelineError | Waiting "instant option"

text \<open>The loop over the signals from the cursor on.\<close>

definition earlier_deadline :: "instant option \<Rightarrow> instant option \<Rightarrow> instant option" where
  "earlier_deadline earliest ready_at =
     (case ready_at of
        None \<Rightarrow> earliest
      | Some d \<Rightarrow> Some (case earliest of None \<Rightarrow> d | Some prev \<Rightarrow> min prev d))"

fun rr_scan ::
  "('b, 's) arrow_ops \<Rightarrow> clock \<Rightarrow> nat \<Rightarrow> nat list \<Rightarrow> instant option \<Rightarrow> bool \<Rightarrow> ('b, 's) BufferInner \<Rightarrow>
   ('b, 's) lease_answer \<times> nat \<times> ('b, 's) BufferInner" where
  "rr_scan ao clk cursor [] earliest all_drained st =
     (if all_drained then Drained else Waiting earliest, cursor, st)"
| "rr_scan ao clk cursor (offset # offsets) earliest all_drained st =
     (let idx = (cursor + offset) mod length ALL_SIGNALS
      in case try_pop_signal_lease ao clk (ALL_SIGNALS ! idx) (clk_now clk) st of
        ((Some lease, _, _), st1) \<Rightarrow> (GotLease lease, (idx + 1) mod length ALL_SIGNALS, st1)
      | ((None, ready_at, is_drained), st1) \<Rightarrow>
          rr_scan ao clk cursor offsets (earlier_deadline earliest ready_at) (all_drained \<and> is_drained) st1)"

definition lease_turn ::
  "('b, 's) arrow_ops \<Rightarrow> clock \<Rightarrow> SinkBuffer \<Rightarrow> ('b, 's) BufferInner \<Rightarrow>
   ('b, 's) lease_answer \<times> SinkBuffer \<times> ('b, 's) BufferInner" where
  "lease_turn ao clk sb st =
     (case fatal_reason st of
        Some reason \<Rightarrow> (LeaseRefused (Storage reason), sb, st)
      | None \<Rightarrow>
          (case signal_scope sb of
             Some sig \<Rightarrow>
               (case try_pop_signal_lease ao clk sig (clk_now clk) st of
                  ((Some lease, _, _), st1) \<Rightarrow> (GotLease lease, sb, st1)
                | ((None, ready_at, is_drained), st1) \<Rightarrow>
                    (if is_drained then Drained else Waiting ready_at, sb, st1))
           | None \<Rightarrow>
               (case rr_scan ao clk (rr_cursor sb) [0 ..< length ALL_SIGNALS] None True st of
                  (t, cursor, st1) \<Rightarrow> (t, sb\<lparr>rr_cursor := cursor\<rparr>, st1))))"

text \<open>The loop; \<open>None\<close> is a consumer that is still suspended.\<close>

fun next_lease ::
  "('b, 's) arrow_ops \<Rightarrow> (clock \<times> (('b, 's) BufferInner \<Rightarrow> ('b, 's) BufferInner)) list \<Rightarrow> SinkBuffer \<Rightarrow> ('b, 's) BufferInner \<Rightarrow>
   ('b, 's) Lease option result option \<times> SinkBuffer \<times> ('b, 's) BufferInner" where
  "next_lease ao [] sb st = (None, sb, st)"
| "next_lease ao ((clk, env) # turns) sb st =
     (case lease_turn ao clk sb st of
        (GotLease lease, sb1, st1) \<Rightarrow> (Some (Inr (Some lease)), sb1, st1)
      | (Drained, sb1, st1) \<Rightarrow> (Some (Inr None), sb1, st1)
      | (LeaseRefused e, sb1, st1) \<Rightarrow> (Some (Inl e), sb1, st1)
      | (Waiting _, sb1, st1) \<Rightarrow> next_lease ao turns sb1 (env st1))"

text \<open>\<open>recv_passthrough\<close> with the lease it obtained; an error of \<open>prepare\<close> drops the lease.\<close>

definition recv_lease ::
  "('b, 's) arrow_ops \<Rightarrow> (nat \<Rightarrow> bool \<times> read_event list) \<Rightarrow> bool \<Rightarrow> dir \<Rightarrow> clock \<Rightarrow> unit reply \<Rightarrow> ('b, 's) Lease \<Rightarrow>
   ('b, 's) BufferInner \<Rightarrow> 'b SignalBatch option result \<times> ('b, 's) BufferInner" where
  "recv_lease ao rd join_ok files clk reply lease st =
     (case (case le_batches lease of
              [b] \<Rightarrow> Inr b
            | _ \<Rightarrow> prepare ao rd join_ok files (in_config st) Inr lease) of
        Inl e \<Rightarrow> (Inl e, drop_lease clk lease st)
      | Inr batch \<Rightarrow>
          (case ack clk reply lease st of
             (Inl e, st1) \<Rightarrow> (Inl e, st1)
           | (Inr _, st1) \<Rightarrow> (Inr (Some (to_signal_batch (li_signal (le_id lease)) batch)), st1)))"

definition recv_passthrough ::
  "('b, 's) arrow_ops \<Rightarrow> (clock \<times> (('b, 's) BufferInner \<Rightarrow> ('b, 's) BufferInner)) list \<Rightarrow>
   (nat \<Rightarrow> bool \<times> read_event list) \<Rightarrow> bool \<Rightarrow> dir \<Rightarrow> clock \<Rightarrow> unit reply \<Rightarrow> SinkBuffer \<Rightarrow> ('b, 's) BufferInner \<Rightarrow>
   'b SignalBatch option result option \<times> SinkBuffer \<times> ('b, 's) BufferInner" where
  "recv_passthrough ao turns rd join_ok files clk reply sb st =
     (case next_lease ao turns sb st of
        (None, sb1, st1) \<Rightarrow> (None, sb1, st1)
      | (Some (Inl e), sb1, st1) \<Rightarrow> (Some (Inl e), sb1, st1)
      | (Some (Inr None), sb1, st1) \<Rightarrow> (Some (Inr None), sb1, st1)
      | (Some (Inr (Some lease)), sb1, st1) \<Rightarrow>
          (case recv_lease ao rd join_ok files clk reply lease st1 of (res, st2) \<Rightarrow> (Some res, sb1, st2)))"

section \<open>Counters and administration\<close>

definition fold_rings :: "(('b, 's) SignalRingState \<Rightarrow> nat) \<Rightarrow> SinkBuffer \<Rightarrow> ('b, 's) BufferInner \<Rightarrow> nat" where
  "fold_rings f sb st =
     (case signal_scope sb of
        Some sig \<Rightarrow> f (in_rings st sig)
      | None \<Rightarrow> foldl (\<lambda>acc sig. sat_add acc (f (in_rings st sig))) 0 ALL_SIGNALS)"

definition sb_shutdown_timeout_drops :: "SinkBuffer \<Rightarrow> ('b, 's) BufferInner \<Rightarrow> nat" where
  "sb_shutdown_timeout_drops = fold_rings shutdown_timeout_drops"

definition sb_corruption_drops :: "SinkBuffer \<Rightarrow> ('b, 's) BufferInner \<Rightarrow> nat" where
  "sb_corruption_drops = fold_rings corruption_drops"

definition sb_replayed_records :: "SinkBuffer \<Rightarrow> ('b, 's) BufferInner \<Rightarrow> nat" where
  "sb_replayed_records = fold_rings replayed_records"

definition sb_dead_letter_drops :: "SinkBuffer \<Rightarrow> ('b, 's) BufferInner \<Rightarrow> nat" where
  "sb_dead_letter_drops = fold_rings dead_letter_drops"

definition sb_dropped_records :: "string \<Rightarrow> SinkBuffer \<Rightarrow> ('b, 's) BufferInner \<Rightarrow> nat" where
  "sb_dropped_records reason sb st = dropped_records (signal_scope sb) reason (in_metrics st)"

definition sb_committed_records :: "SinkBuffer \<Rightarrow> ('b, 's) BufferInner \<Rightarrow> nat" where
  "sb_committed_records sb st = committed_records (signal_scope sb) (in_metrics st)"

definition sb_lease_nacks :: "string \<Rightarrow> SinkBuffer \<Rightarrow> ('b, 's) BufferInner \<Rightarrow> nat" where
  "sb_lease_nacks cls sb st = lease_nacks (signal_scope sb) cls (in_metrics st)"

definition sb_committed_seq :: "SignalKind \<Rightarrow> ('b, 's) BufferInner \<Rightarrow> nat" where
  "sb_committed_seq sig st = committed_seq (in_rings st sig)"

definition sb_flush_and_sync_watermark :: "unit reply \<Rightarrow> ('b, 's) BufferInner \<Rightarrow> unit result \<times> ('b, 's) BufferInner" where
  "sb_flush_and_sync_watermark reply st = on_disk (flush_and_sync_watermark reply (own_watermark st)) () st"

definition receiver_drop :: "SinkBuffer \<Rightarrow> ('b, 's) BufferInner \<Rightarrow> ('b, 's) BufferInner" where
  "receiver_drop sb st =
     fold (\<lambda>sig st. notify_space sig (upd_ring sig (\<lambda>r. r\<lparr>receiver_dropped := True\<rparr>) st))
       (scope_signals (signal_scope sb)) st"

end
