(* ===== verification/BufferFrame.thy ===== *)
theory BufferFrame
  imports BufferCore
begin

text \<open>
  What the operations on the shared state leave alone. \<open>rc st sig\<close> is the part of a ring that the
  delivery guarantees are about: the ring itself and its committed sequence number. The collection
  \<open>core_frame\<close> says how each operation of \<open>BufferCore\<close> changes it.
\<close>

definition rc :: "('b, 's) BufferInner \<Rightarrow> SignalKind \<Rightarrow> ('b, 's) SignalRing \<times> nat" where
  "rc st sig = (ring (in_rings st sig), committed_seq (in_rings st sig))"

named_theorems core_frame

lemma the_ring_rc: "the_ring sig st = fst (rc st sig)"
  by (simp add: the_ring_def rc_def)

lemma ring_rc: "ring (in_rings st sig) = fst (rc st sig)"
  by (simp add: rc_def)

lemma committed_rc: "committed_seq (in_rings st sig) = snd (rc st sig)"
  by (simp add: rc_def)

lemmas to_rc = the_ring_rc ring_rc committed_rc

lemma rc_upd_ring [core_frame]:
  "rc (upd_ring sig f st) = (rc st)(sig := (f (fst (rc st sig)), snd (rc st sig)))"
  by (auto simp: fun_eq_iff rc_def upd_ring_def upd_rs_def)

lemma rc_upd_rs_same:
  "(\<And>rs. ring (f rs) = ring rs) \<Longrightarrow> (\<And>rs. committed_seq (f rs) = committed_seq rs) \<Longrightarrow> rc (upd_rs sig f st) = rc st"
  by (auto simp: fun_eq_iff rc_def upd_rs_def)

lemma rc_upd_rs_both [core_frame]:
  "rc (upd_rs sig (\<lambda>rs. rs\<lparr>ring := r, committed_seq := c\<rparr>) st) = (rc st)(sig := (r, c))"
  by (auto simp: fun_eq_iff rc_def upd_rs_def)

lemma rc_upd_rs_advance [core_frame]:
  "rc (upd_rs sig (\<lambda>rs. case advance_watermark (clear_ring (ring rs)) (committed_seq rs) of
                         (r, c) \<Rightarrow> rs\<lparr>ring := r, committed_seq := c\<rparr>) st) =
   (rc st)(sig := advance_watermark (clear_ring (fst (rc st sig))) (snd (rc st sig)))"
  "rc (upd_rs sig (\<lambda>rs. case advance_watermark r1 (committed_seq rs) of
                         (r, c) \<Rightarrow> rs\<lparr>ring := r, committed_seq := c\<rparr>) st) =
   (rc st)(sig := advance_watermark r1 (snd (rc st sig)))"
  by (auto simp: fun_eq_iff rc_def upd_rs_def split: prod.split)

lemma in_config_upd [core_frame]:
  "in_config (upd_rs sig f st) = in_config st" "in_config (upd_ring sig g st) = in_config st"
  by (simp_all add: upd_rs_def upd_ring_def)

lemma rc_record [core_frame]:
  "rc (st\<lparr>in_disk := d\<rparr>) = rc st" "rc (st\<lparr>in_dead_letter := dl\<rparr>) = rc st" "rc (st\<lparr>in_metrics := m\<rparr>) = rc st"
  "rc (st\<lparr>in_any_data_ready_notify := n\<rparr>) = rc st" "rc (st\<lparr>in_fatal_error := e\<rparr>) = rc st"
  by (simp_all add: fun_eq_iff rc_def)

lemma rc_notify [core_frame]:
  "rc (notify_space sig st) = rc st" "rc (notify_data sig st) = rc st" "rc (notify_any st) = rc st"
  "rc (notify_data_ready sig st) = rc st"
  by (simp_all add: notify_space_def notify_data_def notify_any_def notify_data_ready_def rc_upd_rs_same rc_record)

lemma rc_with_metrics [core_frame]: "rc (with_metrics f st) = rc st"
  by (simp add: with_metrics_def rc_record)

lemma rc_sync_ring_metrics [core_frame]: "rc (sync_ring_metrics clk sig st) = rc st"
  by (simp add: sync_ring_metrics_def Let_def core_frame)

lemma rc_set_fatal [core_frame]: "rc (set_fatal reason st) = rc st"
  by (simp add: set_fatal_def core_frame)

lemma rc_notify_everyone [core_frame]: "rc (notify_everyone st) = rc st"
  by (simp add: notify_everyone_def ALL_SIGNALS_def core_frame)

lemma in_config_frame [core_frame]:
  "in_config (notify_space sig st) = in_config st" "in_config (notify_data sig st) = in_config st"
  "in_config (notify_any st) = in_config st" "in_config (notify_data_ready sig st) = in_config st"
  "in_config (with_metrics f st) = in_config st" "in_config (sync_ring_metrics clk sig st) = in_config st"
  "in_config (set_fatal reason st) = in_config st" "in_config (notify_everyone st) = in_config st"
  by (simp_all add: notify_space_def notify_data_def notify_any_def notify_data_ready_def with_metrics_def
      sync_ring_metrics_def set_fatal_def notify_everyone_def Let_def in_config_upd ALL_SIGNALS_def)

lemma rc_on_disk [core_frame]: "rc (snd (on_disk f x st)) = rc st"
  by (simp add: on_disk_def core_frame split: option.split prod.split)

lemma in_config_on_disk [core_frame]: "in_config (snd (on_disk f x st)) = in_config st"
  by (simp add: on_disk_def split: option.split prod.split)

section \<open>Composite operations\<close>

lemma rc_record_storage_failure [core_frame]:
  "rc (record_storage_failure sig reason st) = (rc st)(sig := (set_ring_fatal reason (fst (rc st sig)), snd (rc st sig)))"
  by (simp add: record_storage_failure_def core_frame)

lemma ack_commit_rc:
  assumes "ack_commit clk sig meta reset st = (rows, st')"
  shows "rows = snd (snd (ack_entries meta (fst (rc st sig)) (snd (rc st sig))))"
    and "rc st' = (rc st)(sig := (fst (ack_entries meta (fst (rc st sig)) (snd (rc st sig))),
                                  fst (snd (ack_entries meta (fst (rc st sig)) (snd (rc st sig))))))"
    and "in_config st' = in_config st"
proof -
  let ?st1 = "if reset then upd_rs sig (\<lambda>rs. rs\<lparr>first_transient_failure_unix_ms := 0\<rparr>) st else st"
  have same: "rc ?st1 = rc st" "in_config ?st1 = in_config st" by (simp_all add: rc_upd_rs_same core_frame)
  obtain r c n where ae: "ack_entries meta (fst (rc st sig)) (snd (rc st sig)) = (r, c, n)"
    by (cases "ack_entries meta (fst (rc st sig)) (snd (rc st sig))") auto
  have "ack_commit clk sig meta reset st = (n, notify_data_ready sig (notify_space sig (sync_ring_metrics clk sig
      (upd_rs sig (\<lambda>rs. rs\<lparr>ring := r, committed_seq := c\<rparr>) ?st1))))"
    unfolding ack_commit_def Let_def to_rc same ae by simp
  then have st': "rows = n" "st' = notify_data_ready sig (notify_space sig (sync_ring_metrics clk sig
      (upd_rs sig (\<lambda>rs. rs\<lparr>ring := r, committed_seq := c\<rparr>) ?st1)))" using assms by simp_all
  show "rows = snd (snd (ack_entries meta (fst (rc st sig)) (snd (rc st sig))))" using st'(1) ae by simp
  show "rc st' = (rc st)(sig := (fst (ack_entries meta (fst (rc st sig)) (snd (rc st sig))),
                                  fst (snd (ack_entries meta (fst (rc st sig)) (snd (rc st sig))))))"
    unfolding st'(2) ae by (simp only: core_frame same) simp
  show "in_config st' = in_config st" unfolding st'(2) by (simp only: core_frame same)
qed

lemma rc_requeue_lease [core_frame]:
  "rc (requeue_lease clk sig ps ms att at st) = (rc st)(sig := (requeue_at_head ps ms att at (fst (rc st sig)), snd (rc st sig)))"
  by (simp add: requeue_lease_def core_frame)

lemma rc_fail_lease [core_frame]:
  "rc (fail_lease clk sig ps ms reason st) =
   (rc st)(sig := (set_ring_fatal reason (requeue_at_head ps ms 0 None (fst (rc st sig))), snd (rc st sig)))"
  by (simp add: fail_lease_def core_frame)

lemma in_config_lease_ops [core_frame]:
  "in_config (record_storage_failure sig reason st) = in_config st"
  "in_config (requeue_lease clk sig ps ms att at st) = in_config st"
  "in_config (fail_lease clk sig ps ms reason st) = in_config st"
  by (simp_all add: record_storage_failure_def requeue_lease_def fail_lease_def core_frame)

lemma rc_quarantine_batches [core_frame]:
  "rc (snd (quarantine_batches ao to_json io join_ok clk sig f l att reason bs st)) = rc st"
  "in_config (snd (quarantine_batches ao to_json io join_ok clk sig f l att reason bs st)) = in_config st"
  by (auto simp: quarantine_batches_def Let_def core_frame rc_upd_rs_same split: sum.split prod.split)

lemma rc_increment_senders [core_frame]:
  "rc (increment_senders scope st) = rc st" "in_config (increment_senders scope st) = in_config st"
  by (simp_all add: increment_senders_def scope_signals_def ALL_SIGNALS_def rc_upd_rs_same core_frame split: option.split)

text \<open>Closing a ring changes a flag of it only.\<close>

definition erase_flags :: "('b, 's) SignalRing \<Rightarrow> ('b, 's) SignalRing" where
  "erase_flags r = r\<lparr>closed := False, receiver_dropped := False, ring_fatal_error := None\<rparr>"

abbreviation flags_only :: "('b, 's) SignalRing \<Rightarrow> ('b, 's) SignalRing \<Rightarrow> bool" where
  "flags_only r r' \<equiv> erase_flags r' = erase_flags r"

lemma flags_only_intros [simp]:
  "flags_only r (r\<lparr>closed := cl\<rparr>)" "flags_only r (r\<lparr>receiver_dropped := rd\<rparr>)" "flags_only r (set_ring_fatal reason r)"
  by (simp_all add: erase_flags_def set_ring_fatal_def)

lemma ring_inv_erase_flags: "ring_inv (erase_flags r) c ls rs \<longleftrightarrow> ring_inv r c ls rs"
proof
  show "ring_inv (erase_flags r) c ls rs" if "ring_inv r c ls rs"
    by (rule ring_inv_cong [OF that]) (simp_all add: erase_flags_def ring_invD(2) [OF that])
  show "ring_inv r c ls rs" if "ring_inv (erase_flags r) c ls rs"
    using ring_inv_cong [OF that, of r] ring_invD(2) [OF that] by (simp add: erase_flags_def)
qed

lemma flags_only_inv: "flags_only r r' \<Longrightarrow> ring_inv r' c ls rs \<longleftrightarrow> ring_inv r c ls rs"
  by (metis ring_inv_erase_flags)

lemma flags_only_fields:
  "flags_only r r' \<Longrightarrow> queue r' = queue r \<and> slots r' = slots r \<and> next_seq r' = next_seq r \<and>
   bytes_in_flight r' = bytes_in_flight r \<and> rows_in_flight r' = rows_in_flight r \<and> inflight_leases r' = inflight_leases r"
  by (cases r; cases r') (simp add: erase_flags_def)

definition same_but_flags :: "('b, 's) BufferInner \<Rightarrow> ('b, 's) BufferInner \<Rightarrow> bool" where
  "same_but_flags st st' \<longleftrightarrow>
     (\<forall>sig. flags_only (fst (rc st sig)) (fst (rc st' sig)) \<and> snd (rc st' sig) = snd (rc st sig)) \<and>
     in_config st' = in_config st"

lemma same_but_flagsI: "rc st' = rc st \<Longrightarrow> in_config st' = in_config st \<Longrightarrow> same_but_flags st st'"
  by (simp add: same_but_flags_def)

lemma same_but_flags_trans: "same_but_flags st st' \<Longrightarrow> same_but_flags st' st'' \<Longrightarrow> same_but_flags st st''"
  by (simp add: same_but_flags_def)

lemma same_but_flags_upd:
  "rc st' = (rc st)(sig := (r, snd (rc st sig))) \<Longrightarrow> flags_only (fst (rc st sig)) r \<Longrightarrow> in_config st' = in_config st \<Longrightarrow>
   same_but_flags st st'"
  by (simp add: same_but_flags_def)

lemma flags_record_storage_failure: "same_but_flags st (record_storage_failure sig reason st)"
  by (rule same_but_flags_upd [OF rc_record_storage_failure]) (simp_all add: core_frame)

lemma flags_ack_persist: "same_but_flags st (snd (ack_persist reply sig rows st))"
proof -
  let ?d = "on_disk (update_watermark reply (own_watermark st)) () st"
  have "same_but_flags st (snd ?d)" by (rule same_but_flagsI) (simp_all add: core_frame)
  moreover have "snd (ack_persist reply sig rows st) = snd ?d \<or>
      (\<exists>e. snd (ack_persist reply sig rows st) = record_storage_failure sig e (snd ?d))"
    by (auto simp: ack_persist_def split: prod.split sum.split)
  ultimately show ?thesis by (auto intro: same_but_flags_trans [OF _ flags_record_storage_failure])
qed

lemma flags_decrement_sender: "same_but_flags st (decrement_sender sig st)"
proof -
  let ?st = "upd_rs sig (\<lambda>rs. rs\<lparr>active_senders := atomic_sub (active_senders rs) 1\<rparr>) st"
  have a: "same_but_flags st ?st" by (rule same_but_flagsI) (simp_all add: rc_upd_rs_same core_frame)
  have "same_but_flags ?st (notify_data_ready sig (upd_ring sig (\<lambda>r. r\<lparr>closed := True\<rparr>) ?st))"
    by (rule same_but_flags_upd [where sig = sig and r = "(fst (rc ?st sig))\<lparr>closed := True\<rparr>"]) (simp_all add: core_frame)
  with a show ?thesis unfolding decrement_sender_def Let_def by (auto intro: same_but_flags_trans)
qed

lemma flags_fold:
  "(\<And>x st. same_but_flags st (f x st)) \<Longrightarrow> same_but_flags st (fold f xs st)"
  by (induction xs arbitrary: st) (auto intro: same_but_flags_trans same_but_flagsI)

lemma flags_decrement_senders: "same_but_flags st (decrement_senders scope st)"
  unfolding decrement_senders_def by (rule flags_fold) (rule flags_decrement_sender)

section \<open>Shutdown\<close>

lemma discard_ring_rc:
  assumes "discard_ring clk sig (st, d) = (st', d')"
  shows "rc st' = (rc st)(sig := advance_watermark (clear_ring (fst (rc st sig))) (snd (rc st sig)))"
    and "in_config st' = in_config st"
    and "d' = sat_add d (rows_in_flight (fst (rc st sig))) \<or> d' = d \<and> rows_in_flight (fst (rc st sig)) = 0"
  using assms by (auto simp: discard_ring_def Let_def core_frame rc_upd_rs_same to_rc split: if_splits)

lemma discard_remaining_rings_rc:
  assumes "discard_remaining_rings clk st = (st', d)"
  shows "rc st' = (\<lambda>sig. advance_watermark (clear_ring (fst (rc st sig))) (snd (rc st sig)))"
    and "in_config st' = in_config st"
proof -
  obtain st1 d1 where 1: "discard_ring clk Logs (st, 0) = (st1, d1)" by fastforce
  obtain st2 d2 where 2: "discard_ring clk Metrics (st1, d1) = (st2, d2)" by fastforce
  obtain st3 d3 where 3: "discard_ring clk Traces (st2, d2) = (st3, d3)" by fastforce
  have st': "st' = notify_any st3" using assms by (simp add: discard_remaining_rings_def ALL_SIGNALS_def 1 2 3)
  note R = discard_ring_rc(1) [OF 1] discard_ring_rc(1) [OF 2] discard_ring_rc(1) [OF 3]
  show "rc st' = (\<lambda>sig. advance_watermark (clear_ring (fst (rc st sig))) (snd (rc st sig)))"
  proof
    fix sig
    show "rc st' sig = advance_watermark (clear_ring (fst (rc st sig))) (snd (rc st sig))"
      by (cases sig) (simp_all add: st' core_frame R)
  qed
  show "in_config st' = in_config st"
    by (simp add: st' core_frame discard_ring_rc(2) [OF 1] discard_ring_rc(2) [OF 2] discard_ring_rc(2) [OF 3])
qed

end
