(* ===== verification/LeasePop.thy ===== *)
theory LeasePop
  imports BufferFrame
begin

text \<open>
  What a lease contains: \<open>try_pop_signal_lease\<close> takes a prefix of the queue whose batches can be
  delivered together, in the order of their sequence numbers, and marks their slots as in flight.
\<close>

section \<open>Coalescing\<close>

text \<open>
  The state after the batches \<open>p\<close> joined, and what made each of them joinable. \<open>coalesce\<close> stops after some
  prefix of the queue.
\<close>

fun joined ::
  "BufferConfig \<Rightarrow> ('b \<Rightarrow> 's) \<Rightarrow> instant \<Rightarrow> nat \<Rightarrow> 's \<Rightarrow> coalesce_state \<Rightarrow> ('b, 's) QueuedBatch list \<Rightarrow> bool" where
  "joined config sch now att sc cs [] = True"
| "joined config sch now att sc cs (b # p) =
     (qb_seq_id b = sat_add (cs_last_seq cs) 1 \<and> \<not> cannot_join config sch now att sc cs b \<and>
      joined config sch now att sc (join b cs) p)"

lemma coalesce_prefix:
  "\<exists>k \<le> length q. joined config sch now att sc cs (take k q) \<and>
     (\<exists>bd. coalesce config sch sl now att sc q cs = (fold join (take k q) cs)\<lparr>cs_boundary := bd\<rparr>)"
proof (induction q arbitrary: cs)
  case Nil
  show ?case by (intro exI [of _ 0]) (simp add: exI [of _ "cs_boundary cs"])
next
  case (Cons b q)
  show ?case
  proof (cases "qb_seq_id b = sat_add (cs_last_seq cs) 1 \<and> \<not> cannot_join config sch now att sc cs b")
    case False
    then have "\<exists>bd. coalesce config sch sl now att sc (b # q) cs = cs\<lparr>cs_boundary := bd\<rparr>"
      by (auto simp: Let_def intro: exI [of _ "cs_boundary cs"])
    then show ?thesis by (intro exI [of _ 0]) simp
  next
    case True
    obtain k bd where "k \<le> length q" "joined config sch now att sc (join b cs) (take k q)"
      "coalesce config sch sl now att sc q (join b cs) = (fold join (take k q) (join b cs))\<lparr>cs_boundary := bd\<rparr>"
      using Cons.IH [of "join b cs"] by blast
    with True show ?thesis by (intro exI [of _ "Suc k"]) (auto simp: Let_def)
  qed
qed

lemma join_simps [simp]:
  "cs_last_seq (join b cs) = qb_seq_id b" "cs_bytes (join b cs) = sat_add (cs_bytes cs) (qb_byte_size b)"
  "cs_rows (join b cs) = sat_add (cs_rows cs) (qb_row_count b)" "cs_count (join b cs) = sat_add (cs_count cs) 1"
  by (simp_all add: join_def)

lemma joined_same:
  "joined config sch now att sc cs p \<Longrightarrow> b \<in> set p \<Longrightarrow>
   (\<forall>t. qb_ready_at b = Some t \<longrightarrow> t \<le> now) \<and> qb_attempt b = att \<and> payload_schema sch (qb_payload b) = sc"
  by (induction p arbitrary: cs) (auto simp: cannot_join_def split: option.splits)

lemma joined_seqs:
  "joined config sch now att sc cs p \<Longrightarrow> \<forall>b \<in> set p. qb_seq_id b < u64_max \<Longrightarrow>
   map qb_seq_id p = [cs_last_seq cs + 1 ..< cs_last_seq cs + 1 + length p]"
proof (induction p arbitrary: cs)
  case (Cons b p)
  then have "qb_seq_id b = cs_last_seq cs + 1" by (auto simp: sat_add_def min_def split: if_splits)
  moreover have "map qb_seq_id p = [qb_seq_id b + 1 ..< qb_seq_id b + 1 + length p]"
    using Cons.IH [of "join b cs"] Cons.prems by simp
  ultimately show ?case by (simp add: upt_conv_Cons del: upt_Suc)
qed simp

lemma joined_bounds:
  "joined config sch now att sc cs p \<Longrightarrow> p \<noteq> [] \<Longrightarrow>
   cs_bytes (fold join p cs) \<le> max_batch_size_bytes config \<and>
   (\<forall>m. max_batch_records config = Some m \<longrightarrow> cs_rows (fold join p cs) \<le> m)"
proof (induction p arbitrary: cs)
  case (Cons b p)
  then show ?case by (cases "p = []") (auto simp: cannot_join_def split: option.splits)
qed simp

lemma count_fold_join: "cs_count cs + length p \<le> u64_max \<Longrightarrow> cs_count (fold join p cs) = cs_count cs + length p"
  by (induction p arbitrary: cs) (simp_all add: sat_add_exact)

lemma sums_fold_join:
  "cs_bytes cs + sum_list (map qb_byte_size p) \<le> u64_max \<Longrightarrow>
     cs_bytes (fold join p cs) = cs_bytes cs + sum_list (map qb_byte_size p)"
  "cs_rows cs + sum_list (map qb_row_count p) \<le> u64_max \<Longrightarrow>
     cs_rows (fold join p cs) = cs_rows cs + sum_list (map qb_row_count p)"
  by (induction p arbitrary: cs) (simp_all add: sat_add_exact)

section \<open>Popping\<close>

lemma take_slot_simps [simp]:
  "queue (take_slot b r) = queue r" "next_seq (take_slot b r) = next_seq r"
  "inflight_leases (take_slot b r) = inflight_leases r" "bytes_in_flight (take_slot b r) = bytes_in_flight r"
  "rows_in_flight (take_slot b r) = rows_in_flight r"
  "evicted_unreclaimed_bytes (take_slot b r) = evicted_unreclaimed_bytes r"
  "unreclaimed_disk_bytes (take_slot b r) = unreclaimed_disk_bytes r"
  "slots (take_slot b r) = bt_insert (qb_seq_id b) InFlight (slots r)"
  "inflight_enqueued_at (take_slot b r) = bt_insert (qb_seq_id b) (qb_enqueued_at b) (inflight_enqueued_at r)"
  by (simp_all add: take_slot_def)

lemma pop_more_lists:
  defines "p n ps \<equiv> take n (queue (ps_ring ps))"
  shows "queue (ps_ring (pop_more n ps)) = drop n (queue (ps_ring ps))"
    and "ps_meta (pop_more n ps) = ps_meta ps @ map lease_meta (p n ps)"
    and "ps_payloads (pop_more n ps) = ps_payloads ps @ map qb_payload (p n ps)"
    and "ps_batches (pop_more n ps) = ps_batches ps @ concat (map (in_memory \<circ> qb_payload) (p n ps))"
    and "ps_last_seq (pop_more n ps) = (if p n ps = [] then ps_last_seq ps else qb_seq_id (last (p n ps)))"
    and "ps_rows (pop_more n ps) = fold (\<lambda>b m. sat_add m (qb_row_count b)) (p n ps) (ps_rows ps)"
    and "ps_bytes (pop_more n ps) = fold (\<lambda>b m. sat_add m (qb_byte_size b)) (p n ps) (ps_bytes ps)"
  unfolding p_def by (induction n ps rule: pop_more.induct) (auto split: list.splits simp: take_Cons')

lemma pop_more_ring:
  defines "r n ps \<equiv> ps_ring (pop_more n ps)"
  shows "next_seq (r n ps) = next_seq (ps_ring ps)" and "inflight_leases (r n ps) = inflight_leases (ps_ring ps)"
    and "bytes_in_flight (r n ps) = bytes_in_flight (ps_ring ps)" and "rows_in_flight (r n ps) = rows_in_flight (ps_ring ps)"
    and "evicted_unreclaimed_bytes (r n ps) = evicted_unreclaimed_bytes (ps_ring ps)"
    and "unreclaimed_disk_bytes (r n ps) = unreclaimed_disk_bytes (ps_ring ps)"
  unfolding r_def by (induction n ps rule: pop_more.induct) (auto split: list.splits)

lemma pop_more_slots:
  assumes "bt_inv (slots (ps_ring ps))" and "bt_inv (inflight_enqueued_at (ps_ring ps))"
  shows "bt_inv (slots (ps_ring (pop_more n ps))) \<and> bt_inv (inflight_enqueued_at (ps_ring (pop_more n ps))) \<and>
    (\<forall>s. view (ps_ring (pop_more n ps)) s =
      (if s \<in> qb_seq_id ` set (take n (queue (ps_ring ps))) then Some InFlight else view (ps_ring ps) s))"
  using assms
proof (induction n ps rule: pop_more.induct)
  case (2 n ps)
  show ?case
  proof (cases "queue (ps_ring ps)")
    case (Cons b rest)
    with 2(1) [OF Cons] 2(2,3) show ?thesis by (auto simp: bt_inv_bt_insert bt_get_bt_insert)
  qed (use 2 in auto)
qed simp

section \<open>The lease\<close>

lemma try_pop_None:
  "try_pop_signal_lease ao clk sig now st = ((None, t, d), st') \<Longrightarrow> st' = st"
  by (auto simp: try_pop_signal_lease_def Let_def split: if_splits list.splits option.splits)

text \<open>When a lease is taken: from an unpinned, ready front batch, below the limit of leases.\<close>

definition can_lease :: "BufferConfig \<Rightarrow> instant \<Rightarrow> ('b, 's) SignalRing \<Rightarrow> bool" where
  "can_lease config now r \<longleftrightarrow>
     inflight_leases r < max_inflight_leases config \<and>
     (\<exists>front rest. queue r = front # rest \<and> \<not> earlier_reserved (qb_seq_id front) (slots r) \<and>
        (\<forall>t. qb_ready_at front = Some t \<longrightarrow> t \<le> now))"

definition popped ::
  "('b, 's) arrow_ops \<Rightarrow> BufferConfig \<Rightarrow> instant \<Rightarrow> ('b, 's) SignalRing \<Rightarrow> ('b, 's) pop_state" where
  "popped ao config now r =
     (let front = hd (queue r); rest = tl (queue r);
          cs = coalesce config (ao_schema ao) (slots r) now (qb_attempt front)
                 (payload_schema (ao_schema ao) (qb_payload front)) rest (start_coalesce front)
      in pop_more (cs_count cs - 1) (first_pop front rest r))"

lemma try_pop_Some:
  assumes "try_pop_signal_lease ao clk sig now st = ((Some le, t, d), st')"
  defines "r \<equiv> fst (rc st sig)"
  shows "can_lease (in_config st) now r"
    and "le = build_lease (in_instance_id st) sig now (hd (queue r)) (popped ao (in_config st) now r)"
    and "rc st' = (rc st)(sig := ((ps_ring (popped ao (in_config st) now r))
           \<lparr>inflight_leases := sat_add (inflight_leases (ps_ring (popped ao (in_config st) now r))) 1\<rparr>, snd (rc st sig)))"
    and "in_config st' = in_config st"
  using assms(1) unfolding r_def
  by (auto simp: try_pop_signal_lease_def can_lease_def popped_def Let_def to_rc core_frame
      split: if_splits list.splits option.splits)

text \<open>The ring after a prefix \<open>p\<close> of the queue was put in flight.\<close>

lemma popped_prefix:
  assumes inv: "ring_inv r c ls rs" and nx: "next_seq r \<le> u64_max" and can: "can_lease config now r"
  obtains p q where "p \<noteq> []" "queue r = p @ q"
    "joined config (ao_schema ao) now (qb_attempt (hd p)) (payload_schema (ao_schema ao) (qb_payload (hd p)))
       (start_coalesce (hd p)) (tl p)"
    "popped ao config now r = pop_more (length p - 1) (first_pop (hd p) (tl p @ q) r)"
proof -
  obtain front rest where q: "queue r = front # rest" using can by (auto simp: can_lease_def)
  let ?sc = "payload_schema (ao_schema ao) (qb_payload front)"
  obtain k bd where k: "k \<le> length rest" "joined config (ao_schema ao) now (qb_attempt front) ?sc (start_coalesce front) (take k rest)"
    "coalesce config (ao_schema ao) (slots r) now (qb_attempt front) ?sc rest (start_coalesce front) =
       (fold join (take k rest) (start_coalesce front))\<lparr>cs_boundary := bd\<rparr>"
    using coalesce_prefix [of rest config "ao_schema ao" now "qb_attempt front" ?sc "start_coalesce front" "slots r"]
    by blast
  have "length (queue r) \<le> u64_max"
  proof -
    have sub: "qb_seq_id ` set (queue r) \<subseteq> {1 ..< next_seq r}"
      using ring_invD(10) [OF inv] by (force simp: entries_def q_entries_def)
    have "distinct (map qb_seq_id (queue r))"
      using ring_invD(3) [OF inv] strict_sorted_iff by blast
    then have "length (queue r) = card (qb_seq_id ` set (queue r))"
      by (metis distinct_card length_map list.set_map)
    also have "\<dots> \<le> card {1 ..< next_seq r}" by (rule card_mono) (use sub in auto)
    finally show ?thesis using nx by simp
  qed
  then have cnt: "cs_count (fold join (take k rest) (start_coalesce front)) = Suc k"
    using k(1) q by (subst count_fold_join) (simp_all add: start_coalesce_def)
  have pop: "popped ao config now r = pop_more k (first_pop front rest r)"
    using k(3) cnt by (simp add: popped_def q)
  show ?thesis
    by (rule that [of "front # take k rest" "drop k rest"]) (use k q pop in \<open>simp_all add: min_def\<close>)
qed

lemma first_pop_simps [simp]:
  "ps_meta (first_pop b rest r) = [lease_meta b]" "ps_payloads (first_pop b rest r) = [qb_payload b]"
  "ps_batches (first_pop b rest r) = in_memory (qb_payload b)" "ps_last_seq (first_pop b rest r) = qb_seq_id b"
  "ps_rows (first_pop b rest r) = qb_row_count b" "ps_bytes (first_pop b rest r) = qb_byte_size b"
  "ps_ring (first_pop b rest r) = take_slot b (r\<lparr>queue := rest\<rparr>)"
  by (simp_all add: first_pop_def)

lemma popped_lists:
  assumes "p \<noteq> []" and pop: "popped ao config now r = pop_more (length p - 1) (first_pop (hd p) (tl p @ q) r)"
  shows "ps_meta (popped ao config now r) = map lease_meta p"
    and "ps_payloads (popped ao config now r) = map qb_payload p"
    and "ps_batches (popped ao config now r) = concat (map (in_memory \<circ> qb_payload) p)"
    and "ps_last_seq (popped ao config now r) = qb_seq_id (last p)"
    and "ps_rows (popped ao config now r) = fold (\<lambda>b m. sat_add m (qb_row_count b)) (tl p) (qb_row_count (hd p))"
    and "ps_bytes (popped ao config now r) = fold (\<lambda>b m. sat_add m (qb_byte_size b)) (tl p) (qb_byte_size (hd p))"
  using assms(1) unfolding pop by (cases p; auto simp: pop_more_lists)+

lemma fold_sat_sum:
  "n + sum_list (map f p) \<le> u64_max \<Longrightarrow> fold (\<lambda>b m. sat_add m (f b)) p n = n + sum_list (map f p)"
  by (induction p arbitrary: n) (simp_all add: sat_add_exact)

lemma popped_ring_inv:
  assumes inv: "ring_inv r c ls rs" and "inflight_leases r < u64_max" and "p \<noteq> []"
    and q: "queue r = p @ q"
    and pop: "popped ao config now r = pop_more (length p - 1) (first_pop (hd p) (tl p @ q) r)"
    and r': "r' = (ps_ring (popped ao config now r))\<lparr>inflight_leases := sat_add (inflight_leases (ps_ring (popped ao config now r))) 1\<rparr>"
  shows "ring_inv r' c (map lease_meta p # ls) rs"
    and "view r' = (\<lambda>s. if s \<in> qb_seq_id ` set p then Some InFlight else view r s)"
    and "next_seq r' = next_seq r" and "queue r' = q"
proof -
  let ?ps = "first_pop (hd p) (tl p @ q) r"
  have P: "ps_ring (popped ao config now r) = ps_ring (pop_more (length p - 1) ?ps)" using pop by simp
  have bt: "bt_inv (slots (ps_ring ?ps))" "bt_inv (inflight_enqueued_at (ps_ring ?ps))"
    using ring_invD(1,2) [OF inv] by (simp_all add: bt_inv_bt_insert)
  note S = pop_more_slots [OF bt, of "length p - 1"]
  have tk: "take (length p - 1) (queue (ps_ring ?ps)) = tl p" by (simp add: min_def)
  have set: "qb_seq_id ` set p = insert (qb_seq_id (hd p)) (qb_seq_id ` set (tl p))"
    using \<open>p \<noteq> []\<close> by (cases p) auto
  show v: "view r' = (\<lambda>s. if s \<in> qb_seq_id ` set p then Some InFlight else view r s)"
    using S unfolding r' P tk set by (auto simp: fun_eq_iff bt_get_bt_insert)
  show nx: "next_seq r' = next_seq r" unfolding r' P by (simp add: pop_more_ring)
  show q': "queue r' = q" unfolding r' P using \<open>p \<noteq> []\<close> by (cases p) (simp_all add: pop_more_lists)
  show "ring_inv r' c (map lease_meta p # ls) rs"
  proof (rule lease_prefix_inv [OF inv _ \<open>p \<noteq> []\<close> _ _ v _ nx])
    show "queue r = p @ queue r'" using q q' by simp
    show "bt_inv (slots r')" "bt_inv (inflight_enqueued_at r')" using S unfolding r' P by simp_all
    show "inflight_leases r' = Suc (inflight_leases r)"
      using assms(2) unfolding r' P by (simp add: pop_more_ring sat_add_exact)
  qed (simp_all add: r' P pop_more_ring)
qed

lemma queue_charge:
  assumes "ring_inv r c ls rs"
  shows "sum_list (map qb_byte_size (queue r)) \<le> bytes_in_flight r"
    and "sum_list (map qb_row_count (queue r)) \<le> rows_in_flight r"
proof -
  note D = ring_invD [OF assms]
  have ch: "charge w (view r) (q_entries q) = sum_list (map (\<lambda>b. w (qb_seq_id b, Queued, qb_byte_size b, qb_row_count b)) q)"
    if "set q \<subseteq> set (queue r)" for w q
    using that D(5) by (induction q) auto
  show "sum_list (map qb_byte_size (queue r)) \<le> bytes_in_flight r"
    using D(8) by (simp add: entries_def ch)
  show "sum_list (map qb_row_count (queue r)) \<le> rows_in_flight r"
    using D(9) by (simp add: entries_def ch)
qed

lemma popped_sums:
  assumes inv: "ring_inv r c ls rs" and q: "queue r = p @ q" and "p \<noteq> []"
    and pop: "popped ao config now r = pop_more (length p - 1) (first_pop (hd p) (tl p @ q) r)"
  shows "ps_rows (popped ao config now r) = sum_list (map qb_row_count p)"
    and "ps_bytes (popped ao config now r) = sum_list (map qb_byte_size p)"
proof -
  have "sum_list (map f p) \<le> sum_list (map f (queue r))" for f :: "('a, 'b) QueuedBatch \<Rightarrow> nat" by (simp add: q)
  then have "sum_list (map qb_row_count p) \<le> u64_max" "sum_list (map qb_byte_size p) \<le> u64_max"
    using queue_charge [OF inv] ring_invD(15,16) [OF inv] by (meson order_trans)+
  then have "fold (\<lambda>b m. sat_add m (qb_row_count b)) (tl p) (qb_row_count (hd p)) = sum_list (map qb_row_count p)"
    "fold (\<lambda>b m. sat_add m (qb_byte_size b)) (tl p) (qb_byte_size (hd p)) = sum_list (map qb_byte_size p)"
    using \<open>p \<noteq> []\<close> by (cases p; simp add: fold_sat_sum)+
  then show "ps_rows (popped ao config now r) = sum_list (map qb_row_count p)"
    "ps_bytes (popped ao config now r) = sum_list (map qb_byte_size p)"
    by (simp_all add: popped_lists [OF \<open>p \<noteq> []\<close> pop])
qed

lemma joined_within:
  assumes "joined config sch now att sc (start_coalesce f) p" and "p \<noteq> []"
    and "sum_list (map qb_byte_size (f # p)) \<le> u64_max" "sum_list (map qb_row_count (f # p)) \<le> u64_max"
  shows "sum_list (map qb_byte_size (f # p)) \<le> max_batch_size_bytes config"
    and "max_batch_records config = Some m \<Longrightarrow> sum_list (map qb_row_count (f # p)) \<le> m"
  using joined_bounds [OF assms(1,2)] sums_fold_join [of "start_coalesce f" p] assms(3,4)
  by (simp_all add: start_coalesce_def)


definition demo_batch :: "nat \<Rightarrow> byte list \<Rightarrow> (byte list, unit) QueuedBatch" where
  "demo_batch s b = \<lparr>qb_seq_id = s, qb_payload = InMemory b, qb_byte_size = length b, qb_row_count = length b,
     qb_enqueued_at = 0, qb_first_failed_at = None, qb_attempt = 0, qb_ready_at = None\<rparr>"

definition demo_ring :: "(byte list, unit) SignalRing" where
  "demo_ring = ring_new\<lparr>queue := [demo_batch 1 [7], demo_batch 2 [8, 9]], slots := [(1, Queued), (2, Queued)],
     next_seq := 3, bytes_in_flight := 3, rows_in_flight := 3\<rparr>"

definition demo_inner :: "(byte list, unit) BufferInner" where
  "demo_inner = (new_passthrough 1 (Inl DownstreamClosed) Map.empty)
     \<lparr>in_config := default_config\<lparr>max_batch_interval_sec := 0\<rparr>,
      in_rings := (\<lambda>_. ring_state_new)(Logs := ring_state_new\<lparr>ring := demo_ring\<rparr>)\<rparr>"

lemma demo_ring_inv: "ring_inv demo_ring 0 [] []"
  by (rule ring_invI)
    (auto simp: demo_ring_def demo_batch_def ring_new_def bt_inv_def bt_get_def entries_def outstanding_def owner_inv_def
      watermark_candidate_def bt_first_def u64_max_def split: if_splits)

lemmas try_pop_eval = try_pop_signal_lease_def demo_inner_def demo_ring_def demo_batch_def new_passthrough_def ring_new_def
  ring_state_new_def default_config_def earlier_reserved_def cannot_join_def join_def start_coalesce_def flush_wait_def
  byte_ops_def sat_add_def u64_max_def build_lease_def lease_meta_def first_pop_def take_slot_def Let_def


end
