(* ===== verification/SenderRings.thy ===== *)
theory SenderRings
  imports Sender LeasePop
begin

text \<open>
  What the producer side does to a ring: eviction under \<open>DropOldest\<close>, admission, and the completion or
  rollback of a reservation keep the ring's invariant; \<open>can_admit\<close> bounds the bytes in flight.
\<close>

section \<open>What is left alone\<close>

lemma rc_nonblocking_watermark [core_frame]:
  "rc (nonblocking_watermark ok st) = rc st" "in_config (nonblocking_watermark ok st) = in_config st"
  by (simp_all add: nonblocking_watermark_def core_frame split: option.split)

lemma guard_frame:
  "ring (drop_guard g) = ring (fst g)" "committed_seq (drop_guard g) = committed_seq (fst g)"
  "ring (fst (mark_admitted clk g)) = ring (fst g)" "committed_seq (fst (mark_admitted clk g)) = committed_seq (fst g)"
  "ring (fst (mark_blocked clk g)) = ring (fst g)" "committed_seq (fst (mark_blocked clk g)) = committed_seq (fst g)"
  by (simp_all add: drop_guard_def mark_admitted_def mark_blocked_def Let_def split: prod.split)

lemma rc_leave_guard [core_frame]:
  "rc (leave_guard sig active st) = rc st" "in_config (leave_guard sig active st) = in_config st"
  by (simp_all add: leave_guard_def core_frame rc_upd_rs_same guard_frame)

lemma rc_upd_guard [core_frame]:
  "rc (snd (upd_guard sig (mark_admitted clk) active st)) = rc st"
  "rc (snd (upd_guard sig (mark_blocked clk) active st)) = rc st"
  "in_config (snd (upd_guard sig g active st)) = in_config st"
proof -
  have eq: "rc (upd_rs sig (\<lambda>_. rs') st) = rc st"
    if "ring rs' = ring (in_rings st sig)" "committed_seq rs' = committed_seq (in_rings st sig)" for rs'
    using that by (simp add: fun_eq_iff rc_def upd_rs_def)
  show "rc (snd (upd_guard sig (mark_admitted clk) active st)) = rc st"
    using guard_frame(3,4) [of clk "(in_rings st sig, active)"] by (auto simp: upd_guard_def eq split: prod.split)
  show "rc (snd (upd_guard sig (mark_blocked clk) active st)) = rc st"
    using guard_frame(5,6) [of clk "(in_rings st sig, active)"] by (auto simp: upd_guard_def eq split: prod.split)
  show "in_config (snd (upd_guard sig g active st)) = in_config st"
    by (simp add: upd_guard_def core_frame split: prod.split)
qed

section \<open>Eviction\<close>

lemma seqs_of_entries:
  "e_seq ` set (entries r ls rs) = qb_seq_id ` set (queue r) \<union> lm_seq_id ` set (concat ls) \<union> fst ` set rs"
  by (simp only: entries_def outstanding_def set_append image_Un seqs_entries Un_assoc)

lemma first_slot_least:
  assumes inv: "ring_inv r c ls rs" and "view r s = Some k"
    and "\<not> (case bt_first (slots r) of Some (f, _) \<Rightarrow> f < s | None \<Rightarrow> False)" and "view r s' = Some k'" and "s' \<noteq> s"
  shows "s < s'"
proof (cases "bt_first (slots r)")
  case None
  then show ?thesis using assms(2) bt.first_None ring_invD(1) [OF inv] by fastforce
next
  case (Some p)
  obtain f w where p: "p = (f, w)" by (cases p)
  have "f \<le> s'" by (rule bt.first_least [OF ring_invD(1) [OF inv] _ assms(4)]) (simp add: Some p)
  with assms(3,5) Some p show ?thesis by simp
qed

lemma evict_front_inv:
  assumes inv: "ring_inv r c ls rs" and q: "queue r = front # rest" and free: "\<not> front_is_pinned_on_disk front r"
    and run: "record_evicted_batch front (r\<lparr>queue := rest\<rparr>) c = (r', c', rows)"
  shows "ring_inv r' c' ls rs" and "c \<le> c'" and "next_seq r' = next_seq r" and "queue r' = rest"
    and "view r' = (view r)(qb_seq_id front := None)" and "rows = qb_row_count front"
    and "bytes_in_flight r = bytes_in_flight r' + qb_byte_size front" and "rows_in_flight r' \<le> rows_in_flight r"
proof -
  note D = ring_invD [OF inv]
  let ?s = "qb_seq_id front"
  let ?e = "(?s, Queued, qb_byte_size front, qb_row_count front)"
  define r2 where "r2 = r\<lparr>queue := rest, bytes_in_flight := bytes_in_flight r - qb_byte_size front,
     rows_in_flight := rows_in_flight r - qb_row_count front,
     evicted_records := sat_add (evicted_records r) (qb_row_count front), slots := bt_remove ?s (slots r)\<rparr>"
  have live: "view r ?s = Some Queued" by (rule D(5)) (simp add: q)
  have E: "mset (entries r ls rs) = mset (?e # entries r2 ls rs)" by (simp add: entries_def q r2_def)
  have out: "e_seq ?e \<notin> lm_seq_id ` set (concat ls)"
    using owner_inv_Cons_notin [OF owner_inv_perm [OF E D(4)]] unfolding seqs_of_entries by blast
  have srt: "sorted_wrt (<) (map qb_seq_id (queue r2))" using D(3) by (simp add: q r2_def)
  have R: "ring_inv r2 (watermark_candidate r2) ls rs" "c \<le> watermark_candidate r2"
    "view r2 = (view r)(?s := None)"
    using resolve_inv [OF inv E out _ srt] live
    by (simp_all add: r2_def q D(2,13,14) subset_insertI)
  have rel: "evicted_unreclaimed_bytes r' = [] \<and> unreclaimed_disk_bytes r' = 0 \<and> c' = watermark_candidate r2 \<and>
      r' = r2"
  proof (cases "is_on_disk (qb_payload front)")
    case False
    then have "(r', c', rows) = (fst (advance_watermark r2 c), snd (advance_watermark r2 c), qb_row_count front)"
      using run by (auto simp: record_evicted_batch_def r2_def Let_def case_prod_beta)
    then show ?thesis
      using R(2) advance_watermark_none_evicted [OF ring_invD(13) [OF R(1)], of c] ring_invD(13,14) [OF R(1)]
      by (simp add: snd_advance_watermark)
  next
    case True
    have above: "?s < s'" if "view r2 s' = Some k'" for s' k'
      using first_slot_least [OF inv live _ _, of s' k'] free True that R(3)
      by (auto simp: front_is_pinned_on_disk_def split: if_splits)
    have "?s \<le> watermark_candidate r2"
      by (rule candidate_least [OF ring_invD(1) [OF R(1)]])
        (use above view_range(2) [OF inv live] in \<open>auto simp: r2_def\<close>)
    moreover define r3 where "r3 = r2\<lparr>evicted_unreclaimed_bytes := [(?s, qb_byte_size front)],
      unreclaimed_disk_bytes := sat_add 0 (qb_byte_size front)\<rparr>"
    moreover have "watermark_candidate r3 = watermark_candidate r2"
      by (rule watermark_candidate_cong) (simp_all add: r3_def)
    ultimately have "advance_watermark r3 c = (r3\<lparr>evicted_unreclaimed_bytes := [], unreclaimed_disk_bytes := 0\<rparr>, watermark_candidate r2)"
      using R(2) by (simp add: advance_watermark_def max_absorb2 sat_add_def)
    moreover have "r3\<lparr>evicted_unreclaimed_bytes := [], unreclaimed_disk_bytes := 0\<rparr> = r2"
      using D(13,14) by (simp add: r3_def r2_def)
    moreover have "(r', c', rows) = (fst (advance_watermark r3 c), snd (advance_watermark r3 c), qb_row_count front)"
      using run True D(13,14) by (auto simp: record_evicted_batch_def r2_def r3_def Let_def case_prod_beta)
    ultimately show ?thesis using ring_invD(13,14) [OF R(1)] by simp
  qed
  then show "ring_inv r' c' ls rs" "c \<le> c'" "next_seq r' = next_seq r" "queue r' = rest"
    "view r' = (view r)(?s := None)" "bytes_in_flight r = bytes_in_flight r' + qb_byte_size front"
    "rows_in_flight r' \<le> rows_in_flight r"
    using R queue_charge(1) [OF inv] q by (simp_all add: r2_def)
  show "rows = qb_row_count front"
    using run by (simp add: record_evicted_batch_def Let_def case_prod_beta)
qed

text \<open>The batches \<open>p\<close> that left the ring: the oldest ones, and their slots with them.\<close>

definition evicted_prefix :: "('b, 's) QueuedBatch list \<Rightarrow> ('b, 's) SignalRing \<Rightarrow> ('b, 's) SignalRing \<Rightarrow> bool" where
  "evicted_prefix p r r' \<longleftrightarrow>
     queue r = p @ queue r' \<and> view r' = (\<lambda>s. if s \<in> qb_seq_id ` set p then None else view r s) \<and>
     next_seq r' = next_seq r \<and> rows_in_flight r' \<le> rows_in_flight r"

lemma evicted_prefix_refl [simp]: "evicted_prefix [] r r"
  by (simp add: evicted_prefix_def)

lemma evicted_prefix_Cons:
  assumes "queue r = b # rest" and "queue r1 = rest" and "view r1 = (view r)(qb_seq_id b := None)"
    and "next_seq r1 = next_seq r" and "rows_in_flight r1 \<le> rows_in_flight r" and "evicted_prefix p r1 r'"
  shows "evicted_prefix (b # p) r r'"
  using assms by (auto simp: evicted_prefix_def fun_eq_iff)

lemma not_can_admit:
  assumes "ring_inv r c ls rs" and "\<not> can_admit r bb budget"
  shows "budget < bytes_in_flight r + bb"
  using assms(2) ring_invD(14,15) [OF assms(1)]
  by (auto simp: can_admit_def Let_def sat_add_def min_def split: if_splits)

lemma evict_oldest_inv:
  assumes "ring_inv r c ls rs" and "evict_oldest bb budget r c n = (r', c', n')"
  shows "\<exists>p. ring_inv r' c' ls rs \<and> c \<le> c' \<and> evicted_prefix p r r' \<and>
    n' = fold (\<lambda>b m. sat_add m (qb_row_count b)) p n \<and>
    (p \<noteq> [] \<longrightarrow> budget < bytes_in_flight r' + qb_byte_size (last p) + bb) \<and>
    (can_admit r' bb budget \<or> queue r' = [] \<or> front_is_pinned_on_disk (hd (queue r')) r') \<and>
    bytes_in_flight r = bytes_in_flight r' + sum_list (map qb_byte_size p)"
  using assms
proof (induction bb budget r c n rule: evict_oldest.induct)
  case (1 bb budget r c n)
  note run = 1(3) [unfolded evict_oldest.simps [of bb budget r c n]]
  show ?case
  proof (cases "can_admit r bb budget \<or> queue r = [] \<or> front_is_pinned_on_disk (hd (queue r)) r")
    case True
    then have "r' = r" "c' = c" "n' = n" using run by (auto split: if_splits list.splits)
    then show ?thesis using True 1(2) by (intro exI [of _ "[]"]) auto
  next
    case False
    then obtain b rest where q: "queue r = b # rest" by (cases "queue r") auto
    obtain r1 c1 m where step: "record_evicted_batch b (r\<lparr>queue := rest\<rparr>) c = (r1, c1, m)" by (cases "record_evicted_batch b (r\<lparr>queue := rest\<rparr>) c") auto
    have no: "\<not> can_admit r bb budget" "\<not> front_is_pinned_on_disk b r" using False q by auto
    note E = evict_front_inv [OF 1(2) q no(2) step]
    have run1: "evict_oldest bb budget r1 c1 (sat_add n m) = (r', c', n')" using run no q step by simp
    obtain p where p: "ring_inv r' c' ls rs" "c1 \<le> c'" "evicted_prefix p r1 r'"
      "n' = fold (\<lambda>b m. sat_add m (qb_row_count b)) p (sat_add n m)"
      "p \<noteq> [] \<longrightarrow> budget < bytes_in_flight r' + qb_byte_size (last p) + bb"
      "can_admit r' bb budget \<or> queue r' = [] \<or> front_is_pinned_on_disk (hd (queue r')) r'"
      "bytes_in_flight r1 = bytes_in_flight r' + sum_list (map qb_byte_size p)"
      using 1(1) [OF no(1) q no(2) step [symmetric] refl E(1) run1] by blast
    have pre: "evicted_prefix (b # p) r r'" by (rule evicted_prefix_Cons [OF q E(4,5,3,8) p(3)])
    have "budget < bytes_in_flight r + bb" by (rule not_can_admit [OF 1(2) no(1)])
    then have need: "budget < bytes_in_flight r' + qb_byte_size (last (b # p)) + bb"
      using p(5,7) E(7) by (cases "p = []") auto
    show ?thesis
      by (intro exI [of _ "b # p"] conjI) (use p E(2,6,7) pre need in auto)
  qed
qed

section \<open>Admission\<close>

lemma can_admit_fits:
  assumes inv: "ring_inv r c ls rs" and "can_admit r bb budget" and "budget < u64_max" and "bb \<le> u64_max"
  shows "bytes_in_flight r + bb \<le> u64_max" and "bytes_in_flight r \<noteq> 0 \<or> queue r \<noteq> [] \<Longrightarrow> bytes_in_flight r + bb \<le> budget"
proof -
  have u: "sat_add (bytes_in_flight r) (unreclaimed_disk_bytes r) = bytes_in_flight r"
    using ring_invD(14,15) [OF inv] by (simp add: sat_add_def)
  show a: "bytes_in_flight r + bb \<le> budget" if "bytes_in_flight r \<noteq> 0 \<or> queue r \<noteq> []"
    using assms(2,3) that unfolding can_admit_def u Let_def by (auto simp: sat_add_def min_def split: if_splits)
  show "bytes_in_flight r + bb \<le> u64_max" using a assms(3,4) by (cases "bytes_in_flight r = 0") auto
qed

lemma admit_ring_inv:
  assumes inv: "ring_inv r c ls rs" and nx: "next_seq r < u64_max"
    and fit: "bytes_in_flight r + bb \<le> u64_max" "rows_in_flight r + br \<le> u64_max"
  shows "ring_inv (admit_ring clk bb br (Some b) r) c ls rs"
    and "ring_inv (admit_ring clk bb br None r) c ls (rs @ [(next_seq r, bb, br)])"
    and "next_seq (admit_ring clk bb br m r) = Suc (next_seq r)"
proof -
  have n: "sat_add (next_seq r) 1 = Suc (next_seq r)" using nx by (simp add: sat_add_exact)
  note S = n sat_add_exact [OF fit(1)] sat_add_exact [OF fit(2)]
  show "next_seq (admit_ring clk bb br m r) = Suc (next_seq r)" using n by (simp add: admit_ring_def Let_def split: option.split)
  show "ring_inv (admit_ring clk bb br (Some b) r) c ls rs"
    by (rule admit_inv [OF inv refl _ _ _ _ _ _ _ _ _ _ fit, where k = Queued])
      (simp_all add: admit_ring_def Let_def S [simplified] new_batch_def entries_def ring_invD(2) [OF inv])
  show "ring_inv (admit_ring clk bb br None r) c ls (rs @ [(next_seq r, bb, br)])"
    by (rule admit_inv [OF inv refl _ _ _ _ _ _ _ _ _ _ fit, where k = Reserved])
      (simp_all add: admit_ring_def Let_def S [simplified] entries_def outstanding_def ring_invD(2) [OF inv])
qed

lemma make_room_rc:
  assumes inv: "ring_inv (fst (rc st sig)) (snd (rc st sig)) ls rs"
  shows "\<exists>p r' c'. rc (make_room ok sig bb st) = (rc st)(sig := (r', c')) \<and> ring_inv r' c' ls rs \<and> snd (rc st sig) \<le> c' \<and>
    evicted_prefix p (fst (rc st sig)) r' \<and> (overflow_policy (in_config st) \<noteq> DropOldest \<longrightarrow> p = [])"
    and "in_config (make_room ok sig bb st) = in_config st"
proof -
  let ?r = "fst (rc st sig)" and ?c = "snd (rc st sig)" and ?b = "per_signal_budget (in_config st)"
  obtain r' c' n where run: "evict_oldest bb ?b ?r ?c 0 = (r', c', n)" by (cases "evict_oldest bb ?b ?r ?c 0") auto
  obtain p where p: "ring_inv r' c' ls rs" "?c \<le> c'" "evicted_prefix p ?r r'"
    using evict_oldest_inv [OF inv run] by blast
  show "\<exists>p r' c'. rc (make_room ok sig bb st) = (rc st)(sig := (r', c')) \<and> ring_inv r' c' ls rs \<and> snd (rc st sig) \<le> c' \<and>
    evicted_prefix p (fst (rc st sig)) r' \<and> (overflow_policy (in_config st) \<noteq> DropOldest \<longrightarrow> p = [])"
  proof (cases "overflow_policy (in_config st) = DropOldest")
    case False
    then show ?thesis
      by (intro exI [of _ "[]"] exI [of _ ?r] exI [of _ ?c]) (simp add: make_room_def inv)
  next
    case True
    then have "rc (make_room ok sig bb st) = (rc st)(sig := (r', c'))"
      by (simp add: make_room_def Let_def to_rc run core_frame)
    then show ?thesis using p True by (intro exI [of _ p] exI [of _ r'] exI [of _ c']) simp
  qed
  show "in_config (make_room ok sig bb st) = in_config st"
    by (simp add: make_room_def Let_def core_frame split: prod.split)
qed

text \<open>One turn: refused without effect, blocked after making room, or admitted.\<close>

lemma admit_turn_rc:
  assumes run: "admit_turn clk ok sig bb br m active st = (out, active', st')"
  defines "st1 \<equiv> make_room ok sig bb st"
  shows "(\<exists>e. out = Refused e \<and> rc st' = rc st) \<or>
    out = Blocked \<and> rc st' = rc st1 \<and> \<not> can_admit (fst (rc st1 sig)) bb (per_signal_budget (in_config st)) \<or>
    out = Admitted (if m = None then Some (next_seq (fst (rc st1 sig))) else None) \<and>
      can_admit (fst (rc st1 sig)) bb (per_signal_budget (in_config st)) \<and>
      rc st' = (rc st1)(sig := (admit_ring clk bb br m (fst (rc st1 sig)), snd (rc st1 sig)))"
    and "in_config st1 = in_config st \<Longrightarrow> in_config st' = in_config st"
proof -
  let ?can = "can_admit (fst (rc st1 sig)) bb (per_signal_budget (in_config st))"
  let ?st2 = "sync_ring_metrics clk sig (upd_ring sig (admit_ring clk bb br m) st1)"
  obtain a3 st3 where 3: "upd_guard sig (mark_admitted clk) active ?st2 = (a3, st3)" by fastforce
  obtain a4 st4 where 4: "upd_guard sig (mark_blocked clk) active st1 = (a4, st4)" by fastforce
  have rc3: "rc st3 = (rc st1)(sig := (admit_ring clk bb br m (fst (rc st1 sig)), snd (rc st1 sig)))" "in_config st3 = in_config st1"
    using rc_upd_guard(1) [of sig clk active ?st2] rc_upd_guard(3) [of sig "mark_admitted clk" active ?st2]
    by (simp_all add: 3 core_frame)
  have rc4: "rc st4 = rc st1" "in_config st4 = in_config st1"
    using rc_upd_guard(2) [of sig clk active st1] rc_upd_guard(3) [of sig "mark_blocked clk" active st1]
    by (simp_all add: 4)
  have cases: "(\<exists>e. out = Refused e \<and> st' = leave_guard sig active st) \<or>
      \<not> ?can \<and> out = Blocked \<and> st' = notify_data_ready sig st4 \<or>
      ?can \<and> out = Admitted (if m = None then Some (next_seq (fst (rc st1 sig))) else None) \<and>
        (st' = st3 \<or> st' = notify_data_ready sig st3)"
    using run unfolding admit_turn_def st1_def [symmetric] Let_def
    by (auto simp: 3 4 the_ring_rc split: option.splits if_splits)
  then show "(\<exists>e. out = Refused e \<and> rc st' = rc st) \<or>
    out = Blocked \<and> rc st' = rc st1 \<and> \<not> ?can \<or>
    out = Admitted (if m = None then Some (next_seq (fst (rc st1 sig))) else None) \<and> ?can \<and>
      rc st' = (rc st1)(sig := (admit_ring clk bb br m (fst (rc st1 sig)), snd (rc st1 sig)))"
    using rc3(1) rc4(1) by (auto simp: core_frame)
  show "in_config st' = in_config st" if "in_config st1 = in_config st"
    using cases rc3(2) rc4(2) that by (auto simp: core_frame)
qed

section \<open>Reservations\<close>

definition res_entry :: "'s AppendReservation \<Rightarrow> reservation" where
  "res_entry res = (ar_seq_id res, ar_frame_bytes_len res, ar_batch_rows res)"

lemma reservation_state:
  assumes "ring_inv r c ls (xs @ (s, b, n) # ys)"
  shows "view r s = Some Reserved \<or> view r s = None" and "s \<notin> lm_seq_id ` set (concat ls)"
    and "mset (entries r ls (xs @ (s, b, n) # ys)) = mset ((s, Reserved, b, n) # entries r ls (xs @ ys))"
proof -
  show E: "mset (entries r ls (xs @ (s, b, n) # ys)) = mset ((s, Reserved, b, n) # entries r ls (xs @ ys))"
    by (simp add: entries_def outstanding_def)
  have own: "owner_inv (view r) ((s, Reserved, b, n) # entries r ls (xs @ ys))"
    by (rule owner_inv_perm [OF E ring_invD(4) [OF assms]])
  show "view r s = Some Reserved \<or> view r s = None" using owner_inv_entry [OF own, of "(s, Reserved, b, n)"] by simp
  show "s \<notin> lm_seq_id ` set (concat ls)"
    using owner_inv_Cons_notin [OF own] unfolding seqs_of_entries by simp
qed

lemma rollback_slot_inv:
  assumes inv: "ring_inv (fst (rc st (ar_signal res))) (snd (rc st (ar_signal res))) ls (xs @ res_entry res # ys)"
  defines "sig \<equiv> ar_signal res"
  shows "\<exists>r' c'. rc (rollback_slot clk ok res st) = (rc st)(sig := (r', c')) \<and> ring_inv r' c' ls (xs @ ys) \<and>
      snd (rc st sig) \<le> c' \<and> next_seq r' = next_seq (fst (rc st sig)) \<and> queue r' = queue (fst (rc st sig)) \<and>
      view r' = (view (fst (rc st sig)))(ar_seq_id res := None)"
    and "in_config (rollback_slot clk ok res st) = in_config st"
proof -
  let ?r = "fst (rc st sig)" and ?c = "snd (rc st sig)" and ?s = "ar_seq_id res"
  have inv: "ring_inv ?r ?c ls (xs @ (?s, ar_frame_bytes_len res, ar_batch_rows res) # ys)"
    using assms(1) by (simp add: res_entry_def sig_def)
  note R = reservation_state [OF inv] and D = ring_invD [OF inv]
  show "\<exists>r' c'. rc (rollback_slot clk ok res st) = (rc st)(sig := (r', c')) \<and> ring_inv r' c' ls (xs @ ys) \<and>
      ?c \<le> c' \<and> next_seq r' = next_seq ?r \<and> queue r' = queue ?r \<and> view r' = (view ?r)(?s := None)"
  proof (cases "view ?r ?s")
    case None
    then have "rollback_slot clk ok res st = st" by (simp add: rollback_slot_def Let_def the_ring_rc sig_def)
    with None reservation_stale [OF inv None] show ?thesis
      by (intro exI [of _ ?r] exI [of _ ?c]) (auto simp: fun_eq_iff)
  next
    case (Some k)
    define r1 where "r1 = ?r\<lparr>slots := bt_remove ?s (slots ?r), bytes_in_flight := bytes_in_flight ?r - ar_frame_bytes_len res,
      rows_in_flight := rows_in_flight ?r - ar_batch_rows res\<rparr>"
    have E: "mset (entries ?r ls (xs @ (?s, ar_frame_bytes_len res, ar_batch_rows res) # ys)) =
        mset ((?s, Reserved, ar_frame_bytes_len res, ar_batch_rows res) # entries r1 ls (xs @ ys))"
      using R(3) by (simp add: r1_def entries_def)
    have I: "ring_inv r1 (watermark_candidate r1) ls (xs @ ys)" "?c \<le> watermark_candidate r1"
      "view r1 = (view ?r)(?s := None)"
      using resolve_inv [OF inv E] R(2) Some D(2,3,13,14) by (simp_all add: r1_def)
    have "rc (rollback_slot clk ok res st) = (rc st)(sig := advance_watermark r1 ?c)"
      using Some by (simp add: rollback_slot_def Let_def the_ring_rc sig_def core_frame r1_def)
    then show ?thesis
      using advance_watermark_inv [OF I(2,1)] I(3)
      by (intro exI [of _ "fst (advance_watermark r1 ?c)"] exI [of _ "snd (advance_watermark r1 ?c)"]) (simp add: r1_def)
  qed
  show "in_config (rollback_slot clk ok res st) = in_config st"
    by (simp add: rollback_slot_def Let_def core_frame)
qed

lemma finish_written_inv:
  assumes inv: "ring_inv (fst (rc st (ar_signal res))) (snd (rc st (ar_signal res))) ls (xs @ res_entry res # ys)"
    and len: "wf_len w \<le> ar_frame_bytes_len res"
  defines "sig \<equiv> ar_signal res"
  shows "\<exists>r'. rc (finish clk ok (Inr w) res st) = (rc st)(sig := (r', snd (rc st sig))) \<and>
      ring_inv r' (snd (rc st sig)) ls (xs @ ys) \<and> next_seq r' = next_seq (fst (rc st sig)) \<and>
      (\<forall>s. view r' s = None \<longleftrightarrow> view (fst (rc st sig)) s = None)"
    and "in_config (finish clk ok (Inr w) res st) = in_config st"
proof -
  let ?r = "fst (rc st sig)" and ?c = "snd (rc st sig)" and ?s = "ar_seq_id res"
  have inv: "ring_inv ?r ?c ls (xs @ (?s, ar_frame_bytes_len res, ar_batch_rows res) # ys)"
    using assms(1) by (simp add: res_entry_def sig_def)
  note R = reservation_state [OF inv] and D = ring_invD [OF inv]
  show "\<exists>r'. rc (finish clk ok (Inr w) res st) = (rc st)(sig := (r', ?c)) \<and> ring_inv r' ?c ls (xs @ ys) \<and>
      next_seq r' = next_seq ?r \<and> (\<forall>s. view r' s = None \<longleftrightarrow> view ?r s = None)"
  proof (cases "view ?r ?s = None")
    case True
    then have "finish clk ok (Inr w) res st = st" by (simp add: finish_def Let_def the_ring_rc sig_def)
    with reservation_stale [OF inv True] show ?thesis by (intro exI [of _ ?r]) simp
  next
    case False
    have live: "view ?r ?s = Some Reserved" using R(1) False by (cases "view ?r ?s") auto
    have le: "ar_frame_bytes_len res \<le> bytes_in_flight ?r"
      using D(8) charge_perm [OF R(3), of e_bytes "view ?r"] live by simp
    then have fit: "bytes_in_flight ?r - ar_frame_bytes_len res + wf_len w \<le> u64_max"
      using D(15) len by linarith
    let ?r' = "queue_written clk res w ?r"
    have I: "ring_inv ?r' ?c ls (xs @ ys)" "view ?r' = (view ?r)(?s \<mapsto> Queued)"
      using complete_inv [OF inv live, of "written_batch clk res w" "wf_len w" ?r'] fit D(2,13,14)
      by (simp_all add: queue_written_def written_batch_def sat_add_exact)
    have "rc (finish clk ok (Inr w) res st) = (rc st)(sig := (?r', ?c))"
      using live by (simp add: finish_def Let_def the_ring_rc sig_def core_frame)
    then show ?thesis using I live by (intro exI [of _ ?r']) (auto simp: queue_written_def)
  qed
  show "in_config (finish clk ok (Inr w) res st) = in_config st"
    by (simp add: finish_def Let_def core_frame)
qed

lemma finish_failed_inv:
  assumes inv: "ring_inv (fst (rc st (ar_signal res))) (snd (rc st (ar_signal res))) ls (xs @ res_entry res # ys)"
  defines "sig \<equiv> ar_signal res"
  shows "\<exists>r' c'. rc (finish clk ok (Inl e) res st) = (rc st)(sig := (r', c')) \<and> ring_inv r' c' ls (xs @ ys) \<and>
      snd (rc st sig) \<le> c' \<and> next_seq r' = next_seq (fst (rc st sig)) \<and>
      view r' = (view (fst (rc st sig)))(ar_seq_id res := None)"
    and "in_config (finish clk ok (Inl e) res st) = in_config st"
proof -
  obtain r' c' where R: "rc (rollback_slot clk ok res st) = (rc st)(sig := (r', c'))" "ring_inv r' c' ls (xs @ ys)"
    "snd (rc st sig) \<le> c'" "next_seq r' = next_seq (fst (rc st sig))"
    "view r' = (view (fst (rc st sig)))(ar_seq_id res := None)"
    using rollback_slot_inv(1) [OF inv, of clk ok] unfolding sig_def by blast
  have f: "flags_only r' (set_ring_fatal e r')" by simp
  then show "\<exists>r' c'. rc (finish clk ok (Inl e) res st) = (rc st)(sig := (r', c')) \<and> ring_inv r' c' ls (xs @ ys) \<and>
      snd (rc st sig) \<le> c' \<and> next_seq r' = next_seq (fst (rc st sig)) \<and>
      view r' = (view (fst (rc st sig)))(ar_seq_id res := None)"
    using R flags_only_inv [OF f] flags_only_fields [OF f]
    by (intro exI [of _ "set_ring_fatal e r'"] exI [of _ c']) (simp add: finish_def core_frame sig_def)
  show "in_config (finish clk ok (Inl e) res st) = in_config st"
    using rollback_slot_inv(2) [OF inv] by (simp add: finish_def core_frame)
qed

end
