(* ===== verification/BufferSystem.thy ===== *)
theory BufferSystem
  imports EventSystem SinkBufferOps SenderRings
begin

text \<open>
  The buffer with everything that acts on it: producers, the writer thread completing reservations,
  consumers taking leases, sinks finishing them, and shutdown, in any order. A state is the shared
  buffer, the leases the sinks hold and the reservations in the hands of the writer thread; an event
  is one critical section of the code (\<open>mod.rs\<close>, \<open>lease.rs\<close>), or one operation where the code holds
  no lock across its await and the part behind it only records a failure.

  Shown here: every reachable state keeps the ledger of \<open>Ledger\<close> balanced for each signal, the
  committed watermark never decreases and never covers an unfinished batch, and a batch leaves the
  buffer only by the events that are meant to remove it.
\<close>

record ('b, 's) sys =
  sy_inner :: "('b, 's) BufferInner"
  sy_leases :: "('b, 's) Lease list"
  sy_res :: "'s AppendReservation list"

datatype ('b, 's) event =
    Sent SignalKind nat
  | Appended "'s AppendReservation" "PipelineError option"
  | Finished "'s AppendReservation" "string + WrittenFrame"
  | ReservationDropped "'s AppendReservation"
  | LeaseTurn SinkBuffer
  | AckCommitted "('b, 's) Lease"
  | Acked "('b, 's) Lease"
  | Nacked nack_io clock FailureClass "('b, 's) Lease"
  | LeaseDropped "('b, 's) Lease"
  | Quarantined "('b, 's) Lease"
  | ShutDown
  | Housekeeping

definition new_reservation :: "SignalKind \<Rightarrow> nat \<Rightarrow> nat \<Rightarrow> nat \<Rightarrow> nat \<Rightarrow> 's \<Rightarrow> 's AppendReservation" where
  "new_reservation sig s bb br rows sch =
     \<lparr>ar_signal = sig, ar_seq_id = s, ar_frame_bytes_len = bb, ar_batch_rows = br, ar_rows = rows, ar_schema = sch\<rparr>"

text \<open>
  The counters of the code saturate at \<open>u64::MAX\<close>. A send is considered while the row count and the
  sequence numbers stay below that bound, and a written frame is not longer than it was when it was
  reserved; the byte count needs no such condition, admission bounds it.
\<close>

inductive sys_step ::
  "('b, 's) arrow_ops \<Rightarrow> (DeadLetterMetadata \<Rightarrow> byte list) \<Rightarrow> ('b, 's) sys \<Rightarrow> ('b, 's) event \<Rightarrow> ('b, 's) sys \<Rightarrow> bool"
  for ao to_json where
  st_send:
    "admit_turn clk ok sig bb br m active (sy_inner sy) = (out, active', st') \<Longrightarrow> bb \<le> u64_max \<Longrightarrow>
     rows_in_flight (the_ring sig (sy_inner sy)) + br \<le> u64_max \<Longrightarrow> next_seq (the_ring sig (sy_inner sy)) < u64_max \<Longrightarrow>
     rs' = (case out of Admitted (Some s) \<Rightarrow> sy_res sy @ [new_reservation sig s bb br rows sch] | _ \<Rightarrow> sy_res sy) \<Longrightarrow>
     sys_step ao to_json sy (Sent sig bb) \<lparr>sy_inner = st', sy_leases = sy_leases sy, sy_res = rs'\<rparr>"
| st_append:
    "sy_res sy = xs @ res # ys \<Longrightarrow> append_encoded_frame clk wm_ok send_ok bytes res (sy_inner sy) = (e, st') \<Longrightarrow>
     sys_step ao to_json sy (Appended res e)
       \<lparr>sy_inner = st', sy_leases = sy_leases sy, sy_res = (if e = None then sy_res sy else xs @ ys)\<rparr>"
| st_finish:
    "sy_res sy = xs @ res # ys \<Longrightarrow> (\<And>w. outcome = Inr w \<Longrightarrow> wf_len w \<le> ar_frame_bytes_len res) \<Longrightarrow>
     sys_step ao to_json sy (Finished res outcome)
       \<lparr>sy_inner = finish clk ok outcome res (sy_inner sy), sy_leases = sy_leases sy, sy_res = xs @ ys\<rparr>"
| st_drop_reservation:
    "sy_res sy = xs @ res # ys \<Longrightarrow>
     sys_step ao to_json sy (ReservationDropped res)
       \<lparr>sy_inner = drop_reservation clk ok res (sy_inner sy), sy_leases = sy_leases sy, sy_res = xs @ ys\<rparr>"
| st_lease:
    "lease_turn ao clk sb (sy_inner sy) = (ans, sb', st') \<Longrightarrow>
     sys_step ao to_json sy (LeaseTurn sb)
       \<lparr>sy_inner = st', sy_leases = (case ans of GotLease le \<Rightarrow> le # sy_leases sy | _ \<Rightarrow> sy_leases sy), sy_res = sy_res sy\<rparr>"
| st_ack_commit:
    "sy_leases sy = xs @ le # ys \<Longrightarrow>
     ack_commit clk (li_signal (le_id le)) (le_meta le) True (sy_inner sy) = (rows, st') \<Longrightarrow>
     sys_step ao to_json sy (AckCommitted le) \<lparr>sy_inner = st', sy_leases = xs @ ys, sy_res = sy_res sy\<rparr>"
| st_ack_persist:
    "ack_persist reply sig rows (sy_inner sy) = (res, st') \<Longrightarrow>
     sys_step ao to_json sy Housekeeping \<lparr>sy_inner = st', sy_leases = sy_leases sy, sy_res = sy_res sy\<rparr>"
| st_ack:
    "sy_leases sy = xs @ le # ys \<Longrightarrow> ack clk reply le (sy_inner sy) = (res, st') \<Longrightarrow>
     sys_step ao to_json sy (Acked le) \<lparr>sy_inner = st', sy_leases = xs @ ys, sy_res = sy_res sy\<rparr>"
| st_nack:
    "sy_leases sy = xs @ le # ys \<Longrightarrow> nack ao to_json io clk cls le (sy_inner sy) = (res, st') \<Longrightarrow>
     sys_step ao to_json sy (Nacked io clk cls le) \<lparr>sy_inner = st', sy_leases = xs @ ys, sy_res = sy_res sy\<rparr>"
| st_drop_lease:
    "sy_leases sy = xs @ le # ys \<Longrightarrow>
     sys_step ao to_json sy (LeaseDropped le)
       \<lparr>sy_inner = drop_lease clk le (sy_inner sy), sy_leases = xs @ ys, sy_res = sy_res sy\<rparr>"
| st_quarantine:
    "sy_leases sy = xs @ le # ys \<Longrightarrow>
     lease_quarantine_batches ao to_json io join_ok clk reason bs le (sy_inner sy) = (res, le', st') \<Longrightarrow>
     sys_step ao to_json sy (Quarantined le) \<lparr>sy_inner = st', sy_leases = xs @ le' # ys, sy_res = sy_res sy\<rparr>"
| st_shutdown:
    "finalize_shutdown_timeout clk reply (sy_inner sy) = (res, st') \<Longrightarrow>
     sys_step ao to_json sy ShutDown \<lparr>sy_inner = st', sy_leases = sy_leases sy, sy_res = sy_res sy\<rparr>"
| st_shutdown_async:
    "finalize_shutdown_timeout_async clk reply outcome (sy_inner sy) = (res, st') \<Longrightarrow>
     sys_step ao to_json sy ShutDown \<lparr>sy_inner = st', sy_leases = sy_leases sy, sy_res = sy_res sy\<rparr>"
| st_flush:
    "sb_flush_and_sync_watermark reply (sy_inner sy) = (res, st') \<Longrightarrow>
     sys_step ao to_json sy Housekeeping \<lparr>sy_inner = st', sy_leases = sy_leases sy, sy_res = sy_res sy\<rparr>"
| st_sender_new: "sys_step ao to_json sy Housekeeping \<lparr>sy_inner = sender_new scope (sy_inner sy), sy_leases = sy_leases sy, sy_res = sy_res sy\<rparr>"
| st_sender_drop: "sys_step ao to_json sy Housekeeping \<lparr>sy_inner = sender_drop scope (sy_inner sy), sy_leases = sy_leases sy, sy_res = sy_res sy\<rparr>"
| st_receiver_drop: "sys_step ao to_json sy Housekeeping \<lparr>sy_inner = receiver_drop sb (sy_inner sy), sy_leases = sy_leases sy, sy_res = sy_res sy\<rparr>"
| st_cancel_send: "sys_step ao to_json sy Housekeeping \<lparr>sy_inner = leave_guard sig active (sy_inner sy), sy_leases = sy_leases sy, sy_res = sy_res sy\<rparr>"

section \<open>The invariant\<close>

definition leases_of :: "SignalKind \<Rightarrow> ('b, 's) Lease list \<Rightarrow> LeasedBatchMeta list list" where
  "leases_of sig ls = map le_meta (filter (\<lambda>le. li_signal (le_id le) = sig) ls)"

definition res_of :: "SignalKind \<Rightarrow> 's AppendReservation list \<Rightarrow> reservation list" where
  "res_of sig rs = map res_entry (filter (\<lambda>res. ar_signal res = sig) rs)"

lemma leases_of_simps [simp]:
  "leases_of sig [] = []"
  "leases_of sig (le # ls) = (if li_signal (le_id le) = sig then le_meta le # leases_of sig ls else leases_of sig ls)"
  "leases_of sig (ls @ ls') = leases_of sig ls @ leases_of sig ls'"
  by (simp_all add: leases_of_def)

lemma res_of_simps [simp]:
  "res_of sig [] = []"
  "res_of sig (r # rs) = (if ar_signal r = sig then res_entry r # res_of sig rs else res_of sig rs)"
  "res_of sig (rs @ rs') = res_of sig rs @ res_of sig rs'"
  by (simp_all add: res_of_def)

definition lease_ok :: "('b, 's) Lease \<Rightarrow> bool" where
  "lease_ok le \<longleftrightarrow> length (le_payloads le) = length (le_meta le) \<and> \<not> le_completed le"

definition sys_inv :: "('b, 's) sys \<Rightarrow> bool" where
  "sys_inv sy \<longleftrightarrow>
     (\<forall>sig. ring_inv (fst (rc (sy_inner sy) sig)) (snd (rc (sy_inner sy) sig)) (leases_of sig (sy_leases sy)) (res_of sig (sy_res sy)) \<and>
        next_seq (fst (rc (sy_inner sy) sig)) \<le> u64_max) \<and>
     (\<forall>le \<in> set (sy_leases sy). lease_ok le) \<and> config_in_range (in_config (sy_inner sy))"

text \<open>The slot of a sequence number, \<open>None\<close> once the batch is resolved.\<close>

abbreviation slot_of :: "('b, 's) sys \<Rightarrow> SignalKind \<Rightarrow> nat \<Rightarrow> LeaseSlotState option" where
  "slot_of sy sig \<equiv> view (fst (rc (sy_inner sy) sig))"

text \<open>
  The next state keeps the invariant, its watermarks did not go back, and only the batches in \<open>L\<close>
  were resolved.
\<close>

definition moves :: "(SignalKind \<Rightarrow> nat \<Rightarrow> bool) \<Rightarrow> ('b, 's) sys \<Rightarrow> ('b, 's) sys \<Rightarrow> bool" where
  "moves L sy sy' \<longleftrightarrow>
     sys_inv sy' \<and> (\<forall>sig. snd (rc (sy_inner sy) sig) \<le> snd (rc (sy_inner sy') sig)) \<and>
     (\<forall>sig s. slot_of sy sig s \<noteq> None \<longrightarrow> slot_of sy' sig s = None \<longrightarrow> L sig s)"

abbreviation nothing :: "SignalKind \<Rightarrow> nat \<Rightarrow> bool" where
  "nothing \<equiv> \<lambda>_ _. False"

lemma moves_weaken: "moves L sy sy' \<Longrightarrow> (\<And>sig s. L sig s \<Longrightarrow> L' sig s) \<Longrightarrow> moves L' sy sy'"
  unfolding moves_def by blast

lemma sys_invD:
  assumes "sys_inv sy"
  shows "ring_inv (fst (rc (sy_inner sy) sig)) (snd (rc (sy_inner sy) sig)) (leases_of sig (sy_leases sy)) (res_of sig (sy_res sy))"
    and "next_seq (fst (rc (sy_inner sy) sig)) \<le> u64_max" and "le \<in> set (sy_leases sy) \<Longrightarrow> lease_ok le"
    and "config_in_range (in_config (sy_inner sy))"
  using assms by (auto simp: sys_inv_def)

text \<open>A step that changes the ring of one signal, the leases and the reservations of that signal only.\<close>

lemma movesI:
  assumes inv: "sys_inv sy" and rc: "rc st' = (rc (sy_inner sy))(sig := (r', c'))" and cfg: "in_config st' = in_config (sy_inner sy)"
    and ring: "ring_inv r' c' (leases_of sig ls') (res_of sig rs')" and nx: "next_seq r' \<le> u64_max"
    and mono: "snd (rc (sy_inner sy) sig) \<le> c'" and ok: "\<forall>le \<in> set ls'. lease_ok le"
    and other: "\<And>s. s \<noteq> sig \<Longrightarrow> leases_of s ls' = leases_of s (sy_leases sy) \<and> res_of s rs' = res_of s (sy_res sy)"
    and lost: "\<And>s. slot_of sy sig s \<noteq> None \<Longrightarrow> view r' s = None \<Longrightarrow> L sig s"
  shows "moves L sy \<lparr>sy_inner = st', sy_leases = ls', sy_res = rs'\<rparr>"
proof -
  have "ring_inv (fst (rc st' s)) (snd (rc st' s)) (leases_of s ls') (res_of s rs') \<and> next_seq (fst (rc st' s)) \<le> u64_max"
    for s using sys_invD(1,2) [OF inv, of s] ring nx other [of s] by (cases "s = sig") (simp_all add: rc)
  moreover have "snd (rc (sy_inner sy) s) \<le> snd (rc st' s)" for s using mono by (cases "s = sig") (simp_all add: rc)
  moreover have "L s t" if "slot_of sy s t \<noteq> None" "view (fst (rc st' s)) t = None" for s t
    using that lost by (cases "s = sig") (auto simp: rc)
  ultimately show ?thesis using ok sys_invD(4) [OF inv] by (auto simp: moves_def sys_inv_def cfg)
qed

lemma moves_flags:
  assumes "sys_inv sy" and "same_but_flags (sy_inner sy) st'"
  shows "moves L sy \<lparr>sy_inner = st', sy_leases = sy_leases sy, sy_res = sy_res sy\<rparr>"
proof -
  have f: "flags_only (fst (rc (sy_inner sy) s)) (fst (rc st' s))" "snd (rc st' s) = snd (rc (sy_inner sy) s)"
    "in_config st' = in_config (sy_inner sy)" for s
    using assms(2) by (simp_all add: same_but_flags_def)
  show ?thesis
    using assms(1) flags_only_inv [OF f(1)] flags_only_fields [OF f(1)] by (auto simp: moves_def sys_inv_def f(2,3))
qed

lemma moves_then_flags:
  assumes "moves L sy \<lparr>sy_inner = st1, sy_leases = ls, sy_res = rs\<rparr>" and "same_but_flags st1 st2"
  shows "moves L sy \<lparr>sy_inner = st2, sy_leases = ls, sy_res = rs\<rparr>"
proof -
  have "flags_only (fst (rc st1 s)) (fst (rc st2 s))" for s using assms(2) by (simp add: same_but_flags_def)
  then have "slots (fst (rc st2 s)) = slots (fst (rc st1 s))" for s using flags_only_fields by blast
  then show ?thesis
    using assms(1) moves_flags [of "\<lparr>sy_inner = st1, sy_leases = ls, sy_res = rs\<rparr>" st2 nothing] assms(2)
    by (auto simp: moves_def intro: order_trans)
qed

text \<open>A step of the metrics, the dead-letter store or the disk handle before a step of the ring.\<close>

lemma moves_after:
  assumes "moves L (sy\<lparr>sy_inner := st0\<rparr>) sy'" and "rc st0 = rc (sy_inner sy)"
  shows "moves L sy sy'"
  using assms by (simp add: moves_def)

lemma sys_inv_after:
  "sys_inv sy \<Longrightarrow> rc st0 = rc (sy_inner sy) \<Longrightarrow> in_config st0 = in_config (sy_inner sy) \<Longrightarrow> sys_inv (sy\<lparr>sy_inner := st0\<rparr>)"
  by (simp add: sys_inv_def)

section \<open>Each event\<close>

subsection \<open>Leases\<close>

definition seqs_of :: "('b, 's) Lease \<Rightarrow> SignalKind \<Rightarrow> nat \<Rightarrow> bool" where
  "seqs_of le sig s \<longleftrightarrow> sig = li_signal (le_id le) \<and> s \<in> lm_seq_id ` set (le_meta le)"

lemma moves_acked:
  assumes inv: "sys_inv sy" and ls: "sy_leases sy = xs @ le # ys"
    and rc: "rc st' = (rc (sy_inner sy))(sig := (fst ae, fst (snd ae)))"
    and ae: "ae = ack_entries (le_meta le) (fst (rc (sy_inner sy) sig)) (snd (rc (sy_inner sy) sig))"
    and sig: "sig = li_signal (le_id le)" and cfg: "in_config st' = in_config (sy_inner sy)"
  shows "moves (seqs_of le) sy \<lparr>sy_inner = st', sy_leases = xs @ ys, sy_res = sy_res sy\<rparr>"
proof -
  let ?r = "fst (rc (sy_inner sy) sig)" and ?c = "snd (rc (sy_inner sy) sig)"
  have ring: "ring_inv ?r ?c (leases_of sig xs @ le_meta le # leases_of sig ys) (res_of sig (sy_res sy))"
    using sys_invD(1) [OF inv, of sig] by (simp add: ls sig)
  have run: "ack_entries (le_meta le) ?r ?c = (fst ae, fst (snd ae), snd (snd ae))" by (simp add: ae)
  note A = ack_entries_inv [OF ring run]
  show ?thesis
    by (rule movesI [OF inv rc cfg])
      (use A sys_invD(2,3) [OF inv] in \<open>auto simp: ls sig seqs_of_def split: if_splits\<close>)
qed

lemma ring_inv_mark_failed:
  assumes "ring_inv r c (xs @ ms # ys) rs"
  shows "ring_inv r c (xs @ map (mark_failed now) ms # ys) rs"
proof -
  let ?ms = "map (mark_failed now) ms"
  have seq: "lm_seq_id (mark_failed now m) = lm_seq_id m" "lm_byte_size (mark_failed now m) = lm_byte_size m"
    "lm_row_count (mark_failed now m) = lm_row_count m" for m by (simp_all add: mark_failed_def)
  have me: "m_entries ?ms = m_entries ms" by (simp add: m_entries_def comp_def seq)
  have E: "entries r (xs @ ?ms # ys) rs = entries r (xs @ ms # ys) rs" by (simp add: entries_def outstanding_def me)
  have live: "lease_live \<sigma> ?ms = lease_live \<sigma> ms" "lease_uniform \<sigma> ?ms = lease_uniform \<sigma> ms" for \<sigma>
    by (simp_all add: lease_live_def lease_uniform_def seq)
  show ?thesis using assms by (auto simp: ring_inv_def E live)
qed

lemma moves_requeued:
  assumes inv: "sys_inv sy" and ls: "sy_leases sy = xs @ le # ys"
    and ms: "ms = le_meta le \<or> ms = map (mark_failed now) (le_meta le)"
    and rc: "rc st' = (rc (sy_inner sy))(sig := (requeue_at_head (le_payloads le) ms att at (fst (rc (sy_inner sy) sig)), snd (rc (sy_inner sy) sig)))"
    and sig: "sig = li_signal (le_id le)" and cfg: "in_config st' = in_config (sy_inner sy)"
  shows "moves L sy \<lparr>sy_inner = st', sy_leases = xs @ ys, sy_res = sy_res sy\<rparr>"
proof -
  let ?r = "fst (rc (sy_inner sy) sig)" and ?c = "snd (rc (sy_inner sy) sig)"
  have ring0: "ring_inv ?r ?c (leases_of sig xs @ le_meta le # leases_of sig ys) (res_of sig (sy_res sy))"
    using sys_invD(1) [OF inv, of sig] by (simp add: ls sig)
  have ring: "ring_inv ?r ?c (leases_of sig xs @ ms # leases_of sig ys) (res_of sig (sy_res sy))"
    using ms ring0 ring_inv_mark_failed [OF ring0] by blast
  have len: "length (le_payloads le) = length ms"
    using sys_invD(3) [OF inv, of le] ms by (auto simp: ls lease_ok_def)
  note R = requeue_at_head_inv [OF ring len refl, of att at]
  show ?thesis
    by (rule movesI [OF inv rc cfg])
      (use R sys_invD(2,3) [OF inv] in \<open>auto simp: ls sig split: if_splits\<close>)
qed

lemma ack_lease_effect:
  assumes "ack_lease clk reply sig meta reset st = (res, st')"
  obtains rows st1 where "ack_commit clk sig meta reset st = (rows, st1)" and "same_but_flags st1 st'"
proof -
  obtain rows st1 where c: "ack_commit clk sig meta reset st = (rows, st1)" by fastforce
  have "st' = snd (ack_persist reply sig rows st1)" using assms by (simp add: ack_lease_def c)
  then show thesis using that [OF c] flags_ack_persist by metis
qed

lemma flags_with_metrics: "same_but_flags st (with_metrics f st)"
  by (rule same_but_flagsI) (simp_all add: core_frame)

lemma ack_effect:
  assumes "ack clk reply le st = (res, st')"
  obtains rows st1 where "ack_commit clk (li_signal (le_id le)) (le_meta le) True st = (rows, st1)" and "same_but_flags st1 st'"
proof -
  obtain r1 st2 where l: "ack_lease clk reply (li_signal (le_id le)) (le_meta le) True st = (r1, st2)" by fastforce
  obtain rows st1 where c: "ack_commit clk (li_signal (le_id le)) (le_meta le) True st = (rows, st1)" "same_but_flags st1 st2"
    using ack_lease_effect [OF l] .
  have "st' = st2 \<or> (\<exists>f. st' = with_metrics f st2)"
    using assms by (auto simp: ack_def Let_def l split: sum.splits if_splits)
  then have "same_but_flags st1 st'" using c(2) flags_with_metrics same_but_flags_trans by metis
  with c(1) show thesis by (rule that)
qed

lemma moves_ack_commit:
  assumes "sys_inv sy" and "sy_leases sy = xs @ le # ys" and "sig = li_signal (le_id le)"
    and run: "ack_commit clk sig (le_meta le) reset st0 = (rows, st')"
    and same: "rc st0 = rc (sy_inner sy)" "in_config st0 = in_config (sy_inner sy)"
  shows "moves (seqs_of le) sy \<lparr>sy_inner = st', sy_leases = xs @ ys, sy_res = sy_res sy\<rparr>"
  by (rule moves_acked [OF assms(1,2) _ refl assms(3)])
    (use ack_commit_rc [OF run] same in \<open>simp_all add: assms(3)\<close>)

text \<open>Putting the batches back, and failing the buffer in addition.\<close>

definition requeues :: "('b, 's) Lease \<Rightarrow> ('b, 's) BufferInner \<Rightarrow> ('b, 's) BufferInner \<Rightarrow> bool" where
  "requeues le st st' \<longleftrightarrow>
     (\<exists>ms now att at st1. (ms = le_meta le \<or> ms = map (mark_failed now) (le_meta le)) \<and>
        rc st1 = (rc st)(li_signal (le_id le) :=
          (requeue_at_head (le_payloads le) ms att at (fst (rc st (li_signal (le_id le)))), snd (rc st (li_signal (le_id le))))) \<and>
        in_config st1 = in_config st \<and> same_but_flags st1 st')"

lemma moves_requeues:
  assumes "sys_inv sy" and "sy_leases sy = xs @ le # ys" and "requeues le (sy_inner sy) st'"
  shows "moves L sy \<lparr>sy_inner = st', sy_leases = xs @ ys, sy_res = sy_res sy\<rparr>"
proof -
  obtain ms now att at st1 where q: "ms = le_meta le \<or> ms = map (mark_failed now) (le_meta le)"
    "rc st1 = (rc (sy_inner sy))(li_signal (le_id le) := (requeue_at_head (le_payloads le) ms att at
        (fst (rc (sy_inner sy) (li_signal (le_id le)))), snd (rc (sy_inner sy) (li_signal (le_id le)))))"
    "in_config st1 = in_config (sy_inner sy)" "same_but_flags st1 st'"
    using assms(3) unfolding requeues_def by blast
  show ?thesis by (rule moves_then_flags [OF moves_requeued [OF assms(1,2) q(1,2) refl q(3)] q(4)])
qed

lemma requeues_requeue_lease:
  assumes "rc st0 = rc st" and "in_config st0 = in_config st" and "sig = li_signal (le_id le)"
    and "ms = le_meta le \<or> ms = map (mark_failed now) (le_meta le)"
  shows "requeues le st (requeue_lease clk sig (le_payloads le) ms att at st0)"
  unfolding requeues_def using assms
  by (intro exI [of _ ms] exI [of _ now] exI [of _ att] exI [of _ at] exI [of _ "requeue_lease clk sig (le_payloads le) ms att at st0"])
     (simp add: core_frame same_but_flagsI)

lemma requeues_fail_lease:
  assumes "rc st0 = rc st" and "in_config st0 = in_config st" and "sig = li_signal (le_id le)"
    and "ms = le_meta le \<or> ms = map (mark_failed now) (le_meta le)"
  shows "requeues le st (fail_lease clk sig (le_payloads le) ms reason st0)"
proof -
  let ?st1 = "upd_ring sig (requeue_at_head (le_payloads le) ms 0 None) st0"
  have "same_but_flags ?st1 (fail_lease clk sig (le_payloads le) ms reason st0)"
    by (rule same_but_flags_upd [where sig = sig and
          r = "set_ring_fatal reason (requeue_at_head (le_payloads le) ms 0 None (fst (rc st0 sig)))"]) (simp_all add: core_frame)
  then show ?thesis unfolding requeues_def using assms
    by (intro exI [of _ ms] exI [of _ now] exI [of _ 0] exI [of _ None] exI [of _ ?st1]) (simp add: core_frame)
qed

lemma rc_note_transient [core_frame]:
  "rc (note_transient clk sig st) = rc st" "in_config (note_transient clk sig st) = in_config st"
  by (simp_all add: note_transient_def core_frame rc_upd_rs_same)

lemma requeues_drop_lease:
  "lease_ok le \<Longrightarrow> rc st0 = rc st \<Longrightarrow> in_config st0 = in_config st \<Longrightarrow> requeues le st (drop_lease clk le st0)"
  unfolding drop_lease_def Let_def lease_ok_def
  by (auto intro!: requeues_requeue_lease [where now = "clk_now clk"] simp: core_frame)

lemma requeues_nack_transient: "requeues le st (nack_transient clk le st)"
  unfolding nack_transient_def Let_def
  by (auto intro!: requeues_requeue_lease [where now = "clk_now clk"] requeues_fail_lease [where now = "clk_now clk"]
      simp: core_frame)

lemma rc_quarantine_lease [core_frame]:
  "rc (snd (quarantine_lease ao tj io clk att reason le st)) = rc st"
  "in_config (snd (quarantine_lease ao tj io clk att reason le st)) = in_config st"
  by (simp_all add: quarantine_lease_def core_frame split: sum.split prod.split)

text \<open>When a rejected lease ends in the dead-letter store.\<close>

definition stored_in_dead_letter ::
  "('b, 's) arrow_ops \<Rightarrow> (DeadLetterMetadata \<Rightarrow> byte list) \<Rightarrow> nack_io \<Rightarrow> clock \<Rightarrow> FailureClass \<Rightarrow> ('b, 's) Lease \<Rightarrow>
   ('b, 's) BufferInner \<Rightarrow> bool" where
  "stored_in_dead_letter ao to_json io clk cls le st \<longleftrightarrow>
     (\<exists>reason path st1. cls = Rejected reason \<and> max_attempts (in_config st) \<le> sat_add32 (le_attempt le) 1 \<and> ni_join_ok io \<and>
        quarantine_lease ao to_json io clk (sat_add32 (le_attempt le) 1) reason le
          (with_metrics (record_nack (li_signal (le_id le)) ''rejected'') st) = (Inr path, st1))"

lemma nack_effect:
  assumes run: "nack ao to_json io clk cls le st = (res, st')" and ok: "lease_ok le"
  shows "requeues le st st' \<or>
    stored_in_dead_letter ao to_json io clk cls le st \<and>
      (\<exists>st0 rows st1. rc st0 = rc st \<and> in_config st0 = in_config st \<and>
         ack_commit clk (li_signal (le_id le)) (le_meta le) False st0 = (rows, st1) \<and> same_but_flags st1 st')"
proof (cases cls)
  case Transient
  then show ?thesis using run requeues_nack_transient by (auto simp: nack_def Let_def)
next
  case (Fatal reason)
  then show ?thesis using run by (auto simp: nack_def Let_def core_frame intro!: requeues_fail_lease)
next
  case (Rejected reason)
  let ?sig = "li_signal (le_id le)" and ?n = "sat_add32 (le_attempt le) 1"
  let ?st0 = "with_metrics (record_nack ?sig ''rejected'') st"
  show ?thesis
  proof (cases "?n < max_attempts (in_config st)")
    case True
    then show ?thesis using run Rejected
      by (auto simp: nack_def Let_def core_frame intro!: requeues_requeue_lease)
  next
    case False
    then have run: "nack_rejected_exhausted ao to_json io clk ?n reason le ?st0 = (res, st')"
      using run Rejected by (simp add: nack_def Let_def core_frame)
    obtain q st1 where q: "quarantine_lease ao to_json io clk ?n reason le ?st0 = (q, st1)" by fastforce
    have same: "rc st1 = rc st" "in_config st1 = in_config st"
      using rc_quarantine_lease [of ao to_json io clk ?n reason le ?st0] unfolding q
      by (simp_all add: rc_with_metrics in_config_frame)
    consider "\<not> ni_join_ok io" | e where "ni_join_ok io" "q = Inl e" | path where "ni_join_ok io" "q = Inr path"
      by (cases q) auto
    then show ?thesis
    proof cases
      case 1
      then show ?thesis using run ok
        by (auto simp: nack_rejected_exhausted_def Let_def core_frame intro!: requeues_drop_lease)
    next
      case (2 e)
      then have "st' = fail_lease clk ?sig (le_payloads le) (le_meta le) (error_text e) st1"
        using run by (auto simp: nack_rejected_exhausted_def Let_def q [simplified])
      then show ?thesis using same by (auto intro!: requeues_fail_lease)
    next
      case (3 path)
      let ?st2 = "with_metrics (record_dropped ?sig (le_num_rows le) ''dead_letter'')
        (upd_rs ?sig (\<lambda>rs. rs\<lparr>dead_letter_drops := atomic_add (dead_letter_drops rs) (le_num_rows le)\<rparr>) st1)"
      obtain r3 where l: "ack_lease clk (ni_reply io) ?sig (le_meta le) False ?st2 = (r3, st')"
        using run 3 by (auto simp: nack_rejected_exhausted_def Let_def q [simplified] split: prod.splits)
      obtain rows st3 where a: "ack_commit clk ?sig (le_meta le) False ?st2 = (rows, st3)" "same_but_flags st3 st'"
        using ack_lease_effect [OF l] .
      have "rc ?st2 = rc st" "in_config ?st2 = in_config st" using same by (simp_all add: core_frame rc_upd_rs_same)
      moreover have "stored_in_dead_letter ao to_json io clk cls le st"
        unfolding stored_in_dead_letter_def using False Rejected 3 q by auto
      ultimately show ?thesis using a by blast
    qed
  qed
qed

subsection \<open>Taking a lease\<close>

lemma rr_scan_effect:
  "rr_scan ao clk cur offs early dr st = (ans, cur', st') \<Longrightarrow>
   (\<exists>le sig t d. ans = GotLease le \<and> try_pop_signal_lease ao clk sig (clk_now clk) st = ((Some le, t, d), st')) \<or>
   (\<forall>le. ans \<noteq> GotLease le) \<and> st' = st"
proof (induction offs arbitrary: early dr)
  case Nil
  then show ?case by (auto split: if_splits)
next
  case (Cons off offs)
  let ?sig = "ALL_SIGNALS ! ((cur + off) mod length ALL_SIGNALS)"
  obtain lo t d st1 where pop: "try_pop_signal_lease ao clk ?sig (clk_now clk) st = ((lo, t, d), st1)"
    by (metis prod_cases4 surj_pair)
  show ?case
  proof (cases lo)
    case None
    have "st1 = st" using pop None by (auto dest: try_pop_None)
    with Cons.prems pop None
    have "rr_scan ao clk cur offs (earlier_deadline early t) (dr \<and> d) st = (ans, cur', st')" by (simp add: Let_def)
    then show ?thesis by (rule Cons.IH)
  next
    case (Some le)
    then have "ans = GotLease le \<and> st' = st1" using Cons.prems pop by (simp add: Let_def)
    with pop Some show ?thesis by blast
  qed
qed

lemma lease_turn_effect:
  assumes run: "lease_turn ao clk sb st = (ans, sb', st')"
  shows "(\<exists>le sig t d. ans = GotLease le \<and> try_pop_signal_lease ao clk sig (clk_now clk) st = ((Some le, t, d), st')) \<or>
    (\<forall>le. ans \<noteq> GotLease le) \<and> st' = st"
proof (cases "fatal_reason st \<noteq> None")
  case True
  then show ?thesis using run by (auto simp: lease_turn_def)
next
  case False
  show ?thesis
  proof (cases "signal_scope sb")
    case None
    then show ?thesis using run False rr_scan_effect by (fastforce simp: lease_turn_def split: prod.splits)
  next
    case (Some sig)
    obtain lo t d st1 where pop: "try_pop_signal_lease ao clk sig (clk_now clk) st = ((lo, t, d), st1)"
      by (metis prod_cases4 surj_pair)
    show ?thesis
      using run False Some pop try_pop_None [of ao clk sig "clk_now clk" st t d st1]
      by (cases lo) (auto simp: lease_turn_def split: if_splits)
  qed
qed

lemma moves_pop:
  assumes inv: "sys_inv sy" and run: "try_pop_signal_lease ao clk sig now (sy_inner sy) = ((Some le, t, d), st')"
  shows "moves L sy \<lparr>sy_inner = st', sy_leases = le # sy_leases sy, sy_res = sy_res sy\<rparr>"
proof -
  let ?r = "fst (rc (sy_inner sy) sig)" and ?cfg = "in_config (sy_inner sy)"
  note T = try_pop_Some [OF run] and I = sys_invD(1) [OF inv, of sig] and nx = sys_invD(2) [OF inv, of sig]
  obtain p q where p: "p \<noteq> []" "queue ?r = p @ q"
    "popped ao ?cfg now ?r = pop_more (length p - 1) (first_pop (hd p) (tl p @ q) ?r)"
    using popped_prefix [OF I nx T(1), of ao] by blast
  have lt: "inflight_leases ?r < u64_max"
    using T(1) sys_invD(4) [OF inv] by (auto simp: can_lease_def config_in_range_def)
  note R = popped_ring_inv [OF I lt p refl] and lists = popped_lists [OF p(1,3)]
  have le: "li_signal (le_id le) = sig" "le_meta le = map lease_meta p" "lease_ok le"
    by (simp_all add: T(2) build_lease_def lists lease_ok_def)
  show ?thesis
    by (rule movesI [OF inv T(3,4)])
      (use R nx le sys_invD(3) [OF inv] in \<open>auto split: if_splits\<close>)
qed

subsection \<open>Producers\<close>

lemma budget_bound: "config_in_range c \<Longrightarrow> per_signal_budget c < u64_max"
  unfolding config_in_range_def per_signal_budget_def u64_max_def by linarith

lemma moves_send:
  assumes inv: "sys_inv sy" and run: "admit_turn clk ok sig bb br m active (sy_inner sy) = (out, active', st')"
    and bb: "bb \<le> u64_max" and br: "rows_in_flight (the_ring sig (sy_inner sy)) + br \<le> u64_max"
    and nx: "next_seq (the_ring sig (sy_inner sy)) < u64_max"
    and rs': "rs' = (case out of Admitted (Some s) \<Rightarrow> sy_res sy @ [new_reservation sig s bb br rows sch] | _ \<Rightarrow> sy_res sy)"
  shows "moves (\<lambda>g s. g = sig \<and> overflow_policy (in_config (sy_inner sy)) = DropOldest \<and> slot_of sy sig s = Some Queued) sy
    \<lparr>sy_inner = st', sy_leases = sy_leases sy, sy_res = rs'\<rparr>"
proof -
  let ?st = "sy_inner sy" and ?cfg = "in_config (sy_inner sy)"
  let ?L = "\<lambda>g s. g = sig \<and> overflow_policy ?cfg = DropOldest \<and> slot_of sy sig s = Some Queued"
  note I = sys_invD(1) [OF inv, of sig]
  obtain p r1 c1 where m1: "rc (make_room ok sig bb ?st) = (rc ?st)(sig := (r1, c1))"
    "ring_inv r1 c1 (leases_of sig (sy_leases sy)) (res_of sig (sy_res sy))" "snd (rc ?st sig) \<le> c1"
    "evicted_prefix p (fst (rc ?st sig)) r1" "overflow_policy ?cfg \<noteq> DropOldest \<longrightarrow> p = []"
    using make_room_rc(1) [OF I, of ok bb] by blast
  have cfg: "in_config st' = ?cfg" using admit_turn_rc(2) [OF run] make_room_rc(2) [OF I] by simp
  have pre: "next_seq r1 = next_seq (fst (rc ?st sig))" "rows_in_flight r1 \<le> rows_in_flight (fst (rc ?st sig))"
    using m1(4) by (simp_all add: evicted_prefix_def)
  have lost: "?L sig s" if "slot_of sy sig s \<noteq> None" "view r1 s = None" for s
  proof -
    have "s \<in> qb_seq_id ` set p" using m1(4) that by (auto simp: evicted_prefix_def split: if_splits)
    moreover from this have "slot_of sy sig s = Some Queued"
      using m1(4) ring_invD(5) [OF I] by (auto simp: evicted_prefix_def)
    ultimately show ?thesis using m1(5) by auto
  qed
  note C = admit_turn_rc(1) [OF run, unfolded m1(1), simplified]
  consider (refused) "rc st' = rc ?st" "rs' = sy_res sy" | (blocked) "rc st' = (rc ?st)(sig := (r1, c1))" "rs' = sy_res sy"
    | (admitted) "rc st' = (rc ?st)(sig := (admit_ring clk bb br m r1, c1))"
        "rs' = (if m = None then sy_res sy @ [new_reservation sig (next_seq r1) bb br rows sch] else sy_res sy)"
        "can_admit r1 bb (per_signal_budget ?cfg)"
    using C rs' by (auto split: if_splits)
  then show ?thesis
  proof cases
    case refused
    then have "same_but_flags ?st st'" using cfg by (simp add: same_but_flagsI)
    from moves_flags [OF inv this] show ?thesis by (simp add: refused)
  next
    case blocked
    show ?thesis unfolding blocked(2)
      by (rule movesI [OF inv blocked(1) cfg m1(2) _ m1(3)]) (use lost pre sys_invD(2,3) [OF inv] in auto)
  next
    case admitted
    have fit: "bytes_in_flight r1 + bb \<le> u64_max" "rows_in_flight r1 + br \<le> u64_max" "next_seq r1 < u64_max"
      using can_admit_fits(1) [OF m1(2) admitted(3) budget_bound [OF sys_invD(4) [OF inv]] bb] pre br nx
      by (simp_all add: the_ring_rc)
    note A = admit_ring_inv [OF m1(2) fit(3,1,2)]
    have ring: "ring_inv (admit_ring clk bb br m r1) c1 (leases_of sig (sy_leases sy)) (res_of sig rs')"
      using A(1,2) by (cases m) (simp_all add: admitted(2) new_reservation_def res_entry_def)
    have nx1: "next_seq (admit_ring clk bb br m r1) \<le> u64_max" using A(3) fit(3) by simp
    have vw: "view (admit_ring clk bb br m r1) s = None \<Longrightarrow> view r1 s = None" for s
      by (auto simp: admit_ring_def Let_def bt_get_bt_insert split: option.splits if_splits)
    show ?thesis
      by (rule movesI [OF inv admitted(1) cfg ring nx1 m1(3)])
        (use lost vw sys_invD(3) [OF inv] in \<open>auto simp: admitted(2) new_reservation_def\<close>)
  qed
qed

lemma moves_rollback:
  assumes inv: "sys_inv sy" and rs: "sy_res sy = xs @ res # ys"
  shows "moves (\<lambda>g s. g = ar_signal res \<and> s = ar_seq_id res) sy
    \<lparr>sy_inner = rollback_slot clk ok res (sy_inner sy), sy_leases = sy_leases sy, sy_res = xs @ ys\<rparr>"
proof -
  let ?sig = "ar_signal res"
  have I: "ring_inv (fst (rc (sy_inner sy) ?sig)) (snd (rc (sy_inner sy) ?sig)) (leases_of ?sig (sy_leases sy))
      (res_of ?sig xs @ res_entry res # res_of ?sig ys)"
    using sys_invD(1) [OF inv, of ?sig] by (simp add: rs)
  obtain r' c' where R: "rc (rollback_slot clk ok res (sy_inner sy)) = (rc (sy_inner sy))(?sig := (r', c'))"
    "ring_inv r' c' (leases_of ?sig (sy_leases sy)) (res_of ?sig xs @ res_of ?sig ys)" "snd (rc (sy_inner sy) ?sig) \<le> c'"
    "next_seq r' = next_seq (fst (rc (sy_inner sy) ?sig))" "view r' = (slot_of sy ?sig)(ar_seq_id res := None)"
    using rollback_slot_inv(1) [OF I, of clk ok] by blast
  show ?thesis
    by (rule movesI [OF inv R(1) rollback_slot_inv(2) [OF I] _ _ R(3)])
      (use R sys_invD(2,3) [OF inv] in \<open>auto simp: rs split: if_splits\<close>)
qed

lemma moves_finish:
  assumes inv: "sys_inv sy" and rs: "sy_res sy = xs @ res # ys"
    and len: "\<And>w. outcome = Inr w \<Longrightarrow> wf_len w \<le> ar_frame_bytes_len res"
  shows "moves (\<lambda>g s. (\<exists>e. outcome = Inl e) \<and> g = ar_signal res \<and> s = ar_seq_id res) sy
    \<lparr>sy_inner = finish clk ok outcome res (sy_inner sy), sy_leases = sy_leases sy, sy_res = xs @ ys\<rparr>"
proof -
  let ?sig = "ar_signal res"
  have I: "ring_inv (fst (rc (sy_inner sy) ?sig)) (snd (rc (sy_inner sy) ?sig)) (leases_of ?sig (sy_leases sy))
      (res_of ?sig xs @ res_entry res # res_of ?sig ys)"
    using sys_invD(1) [OF inv, of ?sig] by (simp add: rs)
  show ?thesis
  proof (cases outcome)
    case (Inl e)
    obtain r' c' where R: "rc (finish clk ok (Inl e) res (sy_inner sy)) = (rc (sy_inner sy))(?sig := (r', c'))"
      "ring_inv r' c' (leases_of ?sig (sy_leases sy)) (res_of ?sig xs @ res_of ?sig ys)" "snd (rc (sy_inner sy) ?sig) \<le> c'"
      "next_seq r' = next_seq (fst (rc (sy_inner sy) ?sig))" "view r' = (slot_of sy ?sig)(ar_seq_id res := None)"
      using finish_failed_inv(1) [OF I, of clk ok e] by blast
    show ?thesis unfolding Inl
      by (rule movesI [OF inv R(1) finish_failed_inv(2) [OF I] _ _ R(3)])
        (use R sys_invD(2,3) [OF inv] in \<open>auto simp: rs split: if_splits\<close>)
  next
    case (Inr w)
    obtain r' where R: "rc (finish clk ok (Inr w) res (sy_inner sy)) = (rc (sy_inner sy))(?sig := (r', snd (rc (sy_inner sy) ?sig)))"
      "ring_inv r' (snd (rc (sy_inner sy) ?sig)) (leases_of ?sig (sy_leases sy)) (res_of ?sig xs @ res_of ?sig ys)"
      "next_seq r' = next_seq (fst (rc (sy_inner sy) ?sig))" "\<forall>s. view r' s = None \<longleftrightarrow> slot_of sy ?sig s = None"
      using finish_written_inv(1) [OF I len [OF Inr], of clk ok] by blast
    show ?thesis unfolding Inr
      by (rule movesI [OF inv R(1) finish_written_inv(2) [OF I len [OF Inr]]])
        (use R sys_invD(2,3) [OF inv] in \<open>auto simp: rs split: if_splits\<close>)
  qed
qed

lemma append_effect:
  assumes "append_encoded_frame clk wm_ok send_ok bytes res st = (e, st')"
  shows "if e = None then rc st' = rc st \<and> in_config st' = in_config st else st' = rollback_slot clk wm_ok res st"
  using assms by (auto simp: append_encoded_frame_def drop_reservation_def core_frame split: option.splits if_splits)

subsection \<open>Shutdown and housekeeping\<close>

lemma flags_on_disk:
  assumes "on_disk f x st = (res, st')"
  shows "same_but_flags st st'"
proof (rule same_but_flagsI)
  show "rc st' = rc st" using rc_on_disk [of f x st] by (simp add: assms)
  show "in_config st' = in_config st" using in_config_on_disk [of f x st] by (simp add: assms)
qed

lemma discarded_ring:
  assumes "ring_inv r c ls rs"
  shows "ring_inv (fst (advance_watermark (clear_ring r) c)) (snd (advance_watermark (clear_ring r) c)) ls rs"
    and "c \<le> snd (advance_watermark (clear_ring r) c)" and "next_seq (fst (advance_watermark (clear_ring r) c)) = next_seq r"
proof -
  note D = discard_inv [OF assms, of "clear_ring r"]
  have cand: "watermark_candidate (clear_ring r) = next_seq r - 1"
    by (simp add: watermark_candidate_def clear_ring_def bt_first_def)
  have "ring_inv (clear_ring r) (watermark_candidate (clear_ring r)) ls rs" "c \<le> watermark_candidate (clear_ring r)"
    using D by (simp_all add: clear_ring_def cand [unfolded clear_ring_def])
  then show "ring_inv (fst (advance_watermark (clear_ring r) c)) (snd (advance_watermark (clear_ring r) c)) ls rs"
    "c \<le> snd (advance_watermark (clear_ring r) c)"
    by (auto intro: advance_watermark_inv)
  show "next_seq (fst (advance_watermark (clear_ring r) c)) = next_seq r" by (simp add: clear_ring_def)
qed

lemma moves_discard:
  assumes inv: "sys_inv sy" and run: "discard_remaining_rings clk (sy_inner sy) = (st', d)"
  shows "moves (\<lambda>_ _. True) sy \<lparr>sy_inner = st', sy_leases = sy_leases sy, sy_res = sy_res sy\<rparr>"
proof -
  note R = discard_remaining_rings_rc [OF run]
  show ?thesis
    using sys_invD [OF inv] discarded_ring [OF sys_invD(1) [OF inv]]
    by (simp add: moves_def sys_inv_def R)
qed

lemma shutdown_effect:
  assumes "finalize_shutdown_timeout clk reply st = (res, st') \<or> finalize_shutdown_timeout_async clk reply outcome st = (res, st')"
  shows "if effective_drain_policy (in_config st) = Discard
    then \<exists>st1 d. discard_remaining_rings clk st = (st1, d) \<and> same_but_flags st1 st' else same_but_flags st st'"
proof (cases "effective_drain_policy (in_config st)")
  case Persist
  then show ?thesis
    using assms by (auto simp: finalize_shutdown_timeout_def finalize_shutdown_timeout_async_def intro: flags_on_disk)
next
  case Discard
  obtain st1 d where run: "discard_remaining_rings clk st = (st1, d)" by fastforce
  then have "same_but_flags st1 st'"
    using assms Discard
    by (auto simp: finalize_shutdown_timeout_def finalize_shutdown_timeout_async_def split: prod.splits sum.splits
        intro: flags_on_disk)
  then show ?thesis using Discard run by auto
qed

lemma moves_shutdown:
  assumes inv: "sys_inv sy"
    and run: "finalize_shutdown_timeout clk reply (sy_inner sy) = (res, st') \<or>
      finalize_shutdown_timeout_async clk reply outcome (sy_inner sy) = (res, st')"
  shows "moves (\<lambda>_ _. effective_drain_policy (in_config (sy_inner sy)) = Discard) sy
    \<lparr>sy_inner = st', sy_leases = sy_leases sy, sy_res = sy_res sy\<rparr>"
proof (cases "effective_drain_policy (in_config (sy_inner sy)) = Discard")
  case True
  then obtain st1 d where 1: "discard_remaining_rings clk (sy_inner sy) = (st1, d)" "same_but_flags st1 st'"
    using shutdown_effect [OF run] by auto
  show ?thesis using moves_then_flags [OF moves_discard [OF inv 1(1)] 1(2)] True by (auto elim: moves_weaken)
next
  case False
  then show ?thesis using shutdown_effect [OF run] moves_flags [OF inv] by auto
qed

lemma flags_receiver_drop: "same_but_flags st (receiver_drop sb st)"
  unfolding receiver_drop_def
proof (rule flags_fold)
  fix sig and st :: "('a, 'b) BufferInner"
  show "same_but_flags st (notify_space sig (upd_ring sig (\<lambda>r. r\<lparr>receiver_dropped := True\<rparr>) st))"
    by (rule same_but_flags_upd [where sig = sig and r = "(fst (rc st sig))\<lparr>receiver_dropped := True\<rparr>"]) (simp_all add: core_frame)
qed

lemma lease_quarantine_effect:
  assumes "lease_quarantine_batches ao to_json io join_ok clk reason bs le st = (res, le', st')"
  shows "same_but_flags st st' \<and> le_meta le' = le_meta le \<and> le_payloads le' = le_payloads le \<and> le_id le' = le_id le \<and>
    le_completed le' = le_completed le"
proof -
  let ?q = "quarantine_batches ao to_json io join_ok clk (li_signal (le_id le)) (li_first_seq (le_id le)) (li_last_seq (le_id le))
    (sat_add32 (le_attempt le) 1) reason bs st"
  have "same_but_flags st (snd ?q)" by (rule same_but_flagsI) (simp_all add: core_frame)
  moreover have "st' = snd ?q"
    using assms unfolding lease_quarantine_batches_def Let_def by (auto split: prod.splits sum.splits if_splits)
  moreover have "le_meta le' = le_meta le \<and> le_payloads le' = le_payloads le \<and> le_id le' = le_id le \<and> le_completed le' = le_completed le"
    using assms unfolding lease_quarantine_batches_def Let_def by (auto split: prod.splits sum.splits if_splits)
  ultimately show ?thesis by simp
qed

section \<open>All events\<close>

text \<open>The batches an event is meant to resolve.\<close>

definition resolved_by ::
  "('b, 's) arrow_ops \<Rightarrow> (DeadLetterMetadata \<Rightarrow> byte list) \<Rightarrow> ('b, 's) event \<Rightarrow> ('b, 's) sys \<Rightarrow> SignalKind \<Rightarrow> nat \<Rightarrow> bool" where
  "resolved_by ao to_json ev sy sig s =
     (case ev of
        Sent g _ \<Rightarrow> sig = g \<and> overflow_policy (in_config (sy_inner sy)) = DropOldest \<and> slot_of sy g s = Some Queued
      | Appended res e \<Rightarrow> e \<noteq> None \<and> sig = ar_signal res \<and> s = ar_seq_id res
      | Finished res outcome \<Rightarrow> (\<exists>e. outcome = Inl e) \<and> sig = ar_signal res \<and> s = ar_seq_id res
      | ReservationDropped res \<Rightarrow> sig = ar_signal res \<and> s = ar_seq_id res
      | AckCommitted le \<Rightarrow> seqs_of le sig s
      | Acked le \<Rightarrow> seqs_of le sig s
      | Nacked io clk cls le \<Rightarrow> seqs_of le sig s \<and> stored_in_dead_letter ao to_json io clk cls le (sy_inner sy)
      | ShutDown \<Rightarrow> effective_drain_policy (in_config (sy_inner sy)) = Discard
      | _ \<Rightarrow> False)"

lemma sys_step_moves:
  assumes "sys_step ao to_json sy ev sy'" and inv: "sys_inv sy"
  shows "moves (resolved_by ao to_json ev sy) sy sy'"
  using assms(1)
proof cases
  case (st_send clk ok sig bb br m active out active' st' rs' rows sch)
  show ?thesis unfolding st_send(2)
    by (rule moves_weaken [OF moves_send [OF inv st_send(3-7)]]) (simp add: resolved_by_def st_send(1))
next
  case (st_append xs res ys clk wm_ok send_ok bytes e st')
  show ?thesis
  proof (cases "e = None")
    case True
    then have "same_but_flags (sy_inner sy) st'" using append_effect [OF st_append(4)] by (simp add: same_but_flagsI)
    then show ?thesis using moves_flags [OF inv] True by (simp add: st_append(2))
  next
    case False
    then have "st' = rollback_slot clk wm_ok res (sy_inner sy)" using append_effect [OF st_append(4)] by simp
    then show ?thesis using moves_rollback [OF inv st_append(3), of clk wm_ok] False
      by (auto simp: st_append(2) resolved_by_def st_append(1) elim!: moves_weaken)
  qed
next
  case (st_finish xs res ys outcome clk ok)
  show ?thesis unfolding st_finish(2)
    by (rule moves_weaken [OF moves_finish [OF inv st_finish(3,4)]]) (simp_all add: resolved_by_def st_finish(1))
next
  case (st_drop_reservation xs res ys clk ok)
  show ?thesis unfolding st_drop_reservation(2) drop_reservation_def
    by (rule moves_weaken [OF moves_rollback [OF inv st_drop_reservation(3)]]) (simp add: resolved_by_def st_drop_reservation(1))
next
  case (st_lease clk sb ans sb' st')
  from lease_turn_effect [OF st_lease(3)] show ?thesis
  proof
    assume "\<exists>le sig t d. ans = GotLease le \<and> try_pop_signal_lease ao clk sig (clk_now clk) (sy_inner sy) = ((Some le, t, d), st')"
    then show ?thesis using moves_pop [OF inv] by (auto simp: st_lease(2))
  next
    assume no: "(\<forall>le. ans \<noteq> GotLease le) \<and> st' = sy_inner sy"
    then have "sy' = \<lparr>sy_inner = st', sy_leases = sy_leases sy, sy_res = sy_res sy\<rparr>"
      by (auto simp: st_lease(2) split: lease_answer.splits)
    then show ?thesis using moves_flags [OF inv, of st'] no by (simp add: same_but_flagsI)
  qed
next
  case (st_ack_commit xs le ys clk rows st')
  show ?thesis unfolding st_ack_commit(2)
    by (rule moves_weaken [OF moves_ack_commit [OF inv st_ack_commit(3) refl st_ack_commit(4) refl refl]])
      (simp add: resolved_by_def st_ack_commit(1))
next
  case (st_ack_persist reply sig rows res st')
  then have "same_but_flags (sy_inner sy) st'" using flags_ack_persist [of "sy_inner sy" reply sig rows] by simp
  then show ?thesis unfolding st_ack_persist(2) by (rule moves_flags [OF inv])
next
  case (st_ack xs le ys clk reply res st')
  obtain rows st1 where a: "ack_commit clk (li_signal (le_id le)) (le_meta le) True (sy_inner sy) = (rows, st1)" "same_but_flags st1 st'"
    using ack_effect [OF st_ack(4)] .
  show ?thesis unfolding st_ack(2)
    by (rule moves_weaken [OF moves_then_flags [OF moves_ack_commit [OF inv st_ack(3) refl a(1) refl refl] a(2)]])
      (simp add: resolved_by_def st_ack(1))
next
  case (st_nack xs le ys io clk cls res st')
  have "lease_ok le" using sys_invD(3) [OF inv, of le] by (simp add: st_nack(3))
  from nack_effect [OF st_nack(4) this] show ?thesis
  proof
    assume "requeues le (sy_inner sy) st'"
    then show ?thesis unfolding st_nack(2) by (rule moves_requeues [OF inv st_nack(3)])
  next
    assume "stored_in_dead_letter ao to_json io clk cls le (sy_inner sy) \<and>
      (\<exists>st0 rows st1. rc st0 = rc (sy_inner sy) \<and> in_config st0 = in_config (sy_inner sy) \<and>
         ack_commit clk (li_signal (le_id le)) (le_meta le) False st0 = (rows, st1) \<and> same_but_flags st1 st')"
    then obtain st0 rows st1 where a: "stored_in_dead_letter ao to_json io clk cls le (sy_inner sy)"
      "rc st0 = rc (sy_inner sy)" "in_config st0 = in_config (sy_inner sy)"
      "ack_commit clk (li_signal (le_id le)) (le_meta le) False st0 = (rows, st1)" "same_but_flags st1 st'" by blast
    show ?thesis unfolding st_nack(2)
      by (rule moves_weaken [OF moves_then_flags [OF moves_ack_commit [OF inv st_nack(3) refl a(4,2,3)] a(5)]])
        (simp add: resolved_by_def st_nack(1) a(1))
  qed
next
  case (st_drop_lease xs le ys clk)
  have "lease_ok le" using sys_invD(3) [OF inv, of le] by (simp add: st_drop_lease(3))
  then show ?thesis unfolding st_drop_lease(2)
    by (intro moves_requeues [OF inv st_drop_lease(3)] requeues_drop_lease) simp_all
next
  case (st_quarantine xs le ys io join_ok clk reason bs res le' st')
  note Q = lease_quarantine_effect [OF st_quarantine(4)]
  have m: "moves (resolved_by ao to_json ev sy) sy \<lparr>sy_inner = st', sy_leases = sy_leases sy, sy_res = sy_res sy\<rparr>"
    by (rule moves_flags [OF inv]) (use Q in simp)
  have "leases_of sig (xs @ le' # ys) = leases_of sig (xs @ le # ys)" for sig using Q by simp
  moreover have "lease_ok le' = lease_ok le" using Q by (simp add: lease_ok_def)
  ultimately show ?thesis using m by (simp add: st_quarantine(2,3) moves_def sys_inv_def)
next
  case (st_shutdown clk reply res st')
  then show ?thesis using moves_shutdown [OF inv, of clk reply res st'] by (auto simp: resolved_by_def elim!: moves_weaken)
next
  case (st_shutdown_async clk reply outcome res st')
  then show ?thesis using moves_shutdown [OF inv, of clk reply res st' outcome] by (auto simp: resolved_by_def elim!: moves_weaken)
next
  case (st_flush reply res st')
  then have "same_but_flags (sy_inner sy) st'" unfolding sb_flush_and_sync_watermark_def by (auto intro: flags_on_disk)
  then show ?thesis unfolding st_flush(2) by (rule moves_flags [OF inv])
next
  case (st_sender_new scope)
  have "same_but_flags (sy_inner sy) (sender_new scope (sy_inner sy))"
    unfolding sender_new_def by (rule same_but_flagsI) (simp_all add: core_frame)
  then show ?thesis unfolding st_sender_new(2) by (rule moves_flags [OF inv])
next
  case (st_sender_drop scope)
  show ?thesis unfolding st_sender_drop(2) sender_drop_def by (rule moves_flags [OF inv flags_decrement_senders])
next
  case (st_receiver_drop sb)
  show ?thesis unfolding st_receiver_drop(2) by (rule moves_flags [OF inv flags_receiver_drop])
next
  case (st_cancel_send sig active)
  have "same_but_flags (sy_inner sy) (leave_guard sig active (sy_inner sy))"
    by (rule same_but_flagsI) (simp_all add: core_frame)
  then show ?thesis unfolding st_cancel_send(2) by (rule moves_flags [OF inv])
qed

section \<open>Reachable states\<close>

text \<open>Rings as a start leaves them: nothing leased or reserved, the ledger balanced.\<close>

definition clean_rings :: "('b, 's) rings \<Rightarrow> bool" where
  "clean_rings rs \<longleftrightarrow>
     (\<forall>sig. ring_inv (ring (rs sig)) (committed_seq (rs sig)) [] [] \<and> next_seq (ring (rs sig)) \<le> u64_max)"

definition started :: "('b, 's) BufferInner \<Rightarrow> bool" where
  "started st \<longleftrightarrow>
     (\<exists>clk name config fresh recovered dlq dlqd sb. config_in_range config \<and>
        sink_buffer_new clk name config fresh recovered dlq dlqd = Inr (sb, st) \<and>
        (\<forall>id rs. mode config = Disk \<longrightarrow> recovered = Inr (id, rs) \<longrightarrow> clean_rings rs)) \<or>
     (\<exists>fresh dlq files sb. passthrough_pair fresh dlq files = (sb, st))"

definition sys_init :: "('b, 's) sys \<Rightarrow> bool" where
  "sys_init sy \<longleftrightarrow> started (sy_inner sy) \<and> sy_leases sy = [] \<and> sy_res sy = []"

lemma clean_rings_new: "clean_rings (\<lambda>_. ring_state_new)"
  using ring_inv_new by (simp add: clean_rings_def ring_state_new_def ring_new_def u64_max_def)

lemma rc_sender_new [core_frame]: "rc (sender_new scope st) = rc st" "in_config (sender_new scope st) = in_config st"
  by (simp_all add: sender_new_def core_frame)

lemma started_clean:
  assumes "started st"
  shows "clean_rings (in_rings st) \<and> config_in_range (in_config st)"
proof -
  have clean: "clean_rings (in_rings st) \<longleftrightarrow> clean_rings (in_rings st0)" if "rc st = rc st0" for st0 :: "('a, 'b) BufferInner"
    using that by (simp add: clean_rings_def ring_rc committed_rc)
  from assms consider (new) clk name config fresh recovered dlq dlqd sb where "config_in_range config"
      "sink_buffer_new clk name config fresh recovered dlq dlqd = Inr (sb, st)"
      "\<forall>id rs. mode config = Disk \<longrightarrow> recovered = Inr (id, rs) \<longrightarrow> clean_rings rs"
    | (pass) fresh dlq files sb where "passthrough_pair fresh dlq files = (sb, st)"
    unfolding started_def by blast
  then show ?thesis
  proof cases
    case new
    obtain inner where i: "inner_new clk name config fresh recovered dlq dlqd = Inr inner" "st = sender_new None inner"
      using new(2) by (auto simp: sink_buffer_new_def try_bind_def split: sum.splits)
    then have "clean_rings (in_rings inner)" "in_config inner = config"
      using new(3) clean_rings_new by (auto simp: inner_new_def try_bind_def split: sum.splits if_splits)
    then show ?thesis using clean [of inner] i(2) new(1) by (simp add: core_frame)
  next
    case pass
    then have i: "st = sender_new None (new_passthrough fresh dlq files)" by (simp add: passthrough_pair_def)
    have "clean_rings (in_rings (new_passthrough fresh dlq files :: ('a, 'b) BufferInner))"
      using clean_rings_new by (simp add: new_passthrough_def)
    moreover have "config_in_range passthrough"
      by (simp add: config_in_range_def passthrough_def default_config_def u64_max_def)
    ultimately show ?thesis using clean [of "new_passthrough fresh dlq files"] i
      by (simp add: core_frame) (simp add: new_passthrough_def)
  qed
qed

lemma init_inv: "sys_init sy \<Longrightarrow> sys_inv sy"
  using started_clean [of "sy_inner sy"] by (simp add: sys_init_def sys_inv_def clean_rings_def rc_def)

text \<open>The buffer is a system whose committed watermarks never decrease.\<close>

interpretation buffer: monotone_system sys_init "sys_step ao to_json" sys_inv "\<lambda>sy. snd (rc (sy_inner sy) sig)"
  for ao :: "('b, 's) arrow_ops" and to_json :: "DeadLetterMetadata \<Rightarrow> byte list" and sig :: SignalKind
  by unfold_locales (auto intro: init_inv dest: sys_step_moves [unfolded moves_def])

lemma watermark_covers_prefix:
  assumes "ring_inv r c ls rs" and "c + 1 < next_seq r"
  shows "view r (c + 1) \<noteq> None"
proof (cases "bt_first (slots r)")
  case None
  then have "c = next_seq r - 1" using ring_invD(12) [OF assms(1)] by (simp add: watermark_candidate_def)
  with assms(2) show ?thesis by simp
next
  case (Some p)
  obtain a w where p: "p = (a, w)" by (cases p)
  have v: "view r a = Some w" by (rule bt.first_get [OF ring_invD(1) [OF assms(1)]]) (simp add: Some p)
  then have "1 \<le> a" using view_range(1) [OF assms(1)] by blast
  then have "a = c + 1" using ring_invD(12) [OF assms(1)] by (simp add: watermark_candidate_def Some p)
  with v show ?thesis by simp
qed

text \<open>
  C2. In every reachable state and for every signal the committed sequence number is exact: it is
  below every batch that is queued, leased or on its way to disk, and the batch after it, if one
  was ever admitted, is still unfinished. So the watermark the buffer persists acknowledges all
  finished batches of the contiguous prefix and not one unfinished batch.
\<close>

theorem watermark_exact:
  assumes "reach sys_init (sys_step ao to_json) sy"
  shows "(\<forall>s. slot_of sy sig s \<noteq> None \<longrightarrow> sb_committed_seq sig (sy_inner sy) < s) \<and>
    sb_committed_seq sig (sy_inner sy) < next_seq (the_ring sig (sy_inner sy)) \<and>
    (sb_committed_seq sig (sy_inner sy) + 1 < next_seq (the_ring sig (sy_inner sy)) \<longrightarrow>
      slot_of sy sig (sb_committed_seq sig (sy_inner sy) + 1) \<noteq> None)"
proof -
  note I = sys_invD(1) [OF buffer.reach_inv [OF assms], of sig]
  show ?thesis
    using ring_inv_watermark_below [OF I] ring_inv_watermark_next [OF I] watermark_covers_prefix [OF I]
    by (auto simp: sb_committed_seq_def to_rc)
qed

text \<open>
  C6. In every reachable state the accounting of every ring is exact: bytes and rows in flight are the
  sums over its unfinished batches, each of which is owned by exactly one of the queue, the leases
  and the reservations; the number of leases in flight counts the leases that hold unfinished
  batches; and no bytes of evicted frames are left uncounted.
\<close>

theorem ledger_balanced:
  assumes "reach sys_init (sys_step ao to_json) sy"
  shows "let r = the_ring sig (sy_inner sy);
             E = entries r (leases_of sig (sy_leases sy)) (res_of sig (sy_res sy))
         in bytes_in_flight r = charge e_bytes (slot_of sy sig) E \<and> rows_in_flight r = charge e_rows (slot_of sy sig) E \<and>
            distinct (map e_seq E) \<and> (\<forall>s k. slot_of sy sig s = Some k \<longrightarrow> (\<exists>e \<in> set E. e_seq e = s \<and> e_kind e = k)) \<and>
            inflight_leases r = count_live (slot_of sy sig) (leases_of sig (sy_leases sy)) \<and>
            unreclaimed_disk_bytes r = 0 \<and> sorted_wrt (<) (map qb_seq_id (queue r))"
proof -
  note D = ring_invD [OF sys_invD(1) [OF buffer.reach_inv [OF assms], of sig]]
  show ?thesis
    using D(3,4,7,8,9,14) unfolding owner_inv_def Let_def the_ring_rc by blast
qed

text \<open>
  C7. The committed sequence number of a signal never decreases, whatever happens.
\<close>

theorem watermark_never_regresses:
  assumes "reach sys_init (sys_step ao to_json) sy" and "run (sys_step ao to_json) sy tr"
  shows "sb_committed_seq sig (sy_inner sy) \<le> sb_committed_seq sig (sy_inner (last_state sy tr))"
  using buffer.run_mono [OF buffer.reach_inv [OF assms(1)] assms(2), of sig]
  by (simp add: sb_committed_seq_def committed_rc)

text \<open>
  C1. No batch is lost silently. If a batch is unfinished at some point of a run and finished at a
  later one, one event between them finished it and was meant to: it was acknowledged as part of its
  lease, stored in the dead-letter directory after its last attempt, evicted under \<open>DropOldest\<close> while
  it was queued, given up because its frame could not be written, or discarded by a shutdown under
  the \<open>Discard\<close> policy.
\<close>

theorem no_silent_loss:
  assumes "reach sys_init (sys_step ao to_json) sy" and "run (sys_step ao to_json) sy tr"
    and "slot_of sy sig s \<noteq> None" and "slot_of (last_state sy tr) sig s = None"
  shows "\<exists>sy1 ev sy2. (ev, sy2) \<in> set tr \<and> sys_step ao to_json sy1 ev sy2 \<and> slot_of sy1 sig s \<noteq> None \<and>
    slot_of sy2 sig s = None \<and> resolved_by ao to_json ev sy1 sig s"
proof -
  obtain sy1 ev sy2 where e: "sys_inv sy1" "slot_of sy1 sig s \<noteq> None" "sys_step ao to_json sy1 ev sy2"
    "slot_of sy2 sig s = None" "(ev, sy2) \<in> set tr"
    using buffer.run_loses [OF buffer.reach_inv [OF assms(1)] assms(2), where P = "\<lambda>sy. slot_of sy sig s \<noteq> None"] assms(3,4)
    by auto
  then have "resolved_by ao to_json ev sy1 sig s" using sys_step_moves [OF e(3,1)] by (simp add: moves_def)
  with e show ?thesis by blast
qed

section \<open>A run\<close>

text \<open>A passthrough buffer that admits one batch and is shut down under \<open>Discard\<close>.\<close>

definition demo_start :: "(byte list, unit) BufferInner" where
  "demo_start = snd (passthrough_pair 1 (Inl DownstreamClosed) Map.empty)"

lemma demo_start_facts:
  "started demo_start" "rc demo_start = (\<lambda>_. (ring_new, 0))" "in_config demo_start = passthrough" "fatal_reason demo_start = None"
proof -
  show "started demo_start" unfolding started_def demo_start_def by (metis prod.collapse)
  show "rc demo_start = (\<lambda>_. (ring_new, 0))" "in_config demo_start = passthrough"
    by (simp_all add: demo_start_def passthrough_pair_def core_frame)
       (simp_all add: rc_def new_passthrough_def ring_state_new_def fun_eq_iff)
  show "fatal_reason demo_start = None"
    by (simp add: demo_start_def passthrough_pair_def fatal_reason_def sender_new_def increment_senders_def
        scope_signals_def ALL_SIGNALS_def upd_rs_def new_passthrough_def)
qed

lemma demo_admits:
  "\<exists>a st1. admit_turn clk True Logs 2 2 (Some b) False demo_start = (Admitted None, a, st1)"
proof -
  note F = demo_start_facts
  have p: "overflow_policy passthrough = Block" by (simp add: passthrough_def default_config_def)
  have room: "make_room True Logs 2 demo_start = demo_start" by (simp add: make_room_def F p)
  have "can_admit (the_ring Logs demo_start) 2 (per_signal_budget passthrough)"
    by (simp add: can_admit_def the_ring_rc F ring_new_def sat_add_def)
  then show ?thesis
    by (simp add: admit_turn_def F the_ring_rc ring_new_def room split: prod.split)
qed

lemma demo_run:
  obtains sy1 sy2 where "reach sys_init (sys_step byte_ops (\<lambda>_. [])) sy1" "sys_step byte_ops (\<lambda>_. []) sy1 ShutDown sy2"
    "slot_of sy1 Logs 1 = Some Queued" "slot_of sy2 Logs 1 = None" "next_seq (the_ring Logs (sy_inner sy1)) = 2"
proof -
  note F = demo_start_facts
  let ?clk = "\<lparr>clk_now = 0, clk_unix_ms = 0\<rparr>"
  let ?sy0 = "\<lparr>sy_inner = demo_start, sy_leases = [], sy_res = []\<rparr>"
  obtain a st1 where run: "admit_turn ?clk True Logs 2 2 (Some [7, 8]) False demo_start = (Admitted None, a, st1)"
    using demo_admits by blast
  have room: "make_room True Logs 2 demo_start = demo_start"
    by (simp add: make_room_def F passthrough_def default_config_def)
  have rc1: "rc st1 = (\<lambda>_. (ring_new, 0))(Logs := (admit_ring ?clk 2 2 (Some [7, 8]) ring_new, 0))"
    and cfg: "in_config st1 = passthrough"
    using admit_turn_rc [OF run] room by (simp_all add: F)
  let ?sy1 = "\<lparr>sy_inner = st1, sy_leases = [], sy_res = []\<rparr>"
  have "reach sys_init (sys_step byte_ops (\<lambda>_. [])) ?sy0" by (rule reach_init) (simp add: sys_init_def F)
  moreover have "sys_step byte_ops (\<lambda>_. []) ?sy0 (Sent Logs 2) ?sy1"
    using st_send [of ?clk True Logs 2 2 "Some [7, 8]" False ?sy0 "Admitted None" a st1] run
    by (simp add: the_ring_rc F ring_new_def u64_max_def)
  ultimately have r1: "reach sys_init (sys_step byte_ops (\<lambda>_. [])) ?sy1" by (rule reach_step)
  obtain res st2 where fin: "finalize_shutdown_timeout ?clk SendFails st1 = (res, st2)" by fastforce
  let ?sy2 = "\<lparr>sy_inner = st2, sy_leases = [], sy_res = []\<rparr>"
  have s2: "sys_step byte_ops (\<lambda>_. []) ?sy1 ShutDown ?sy2" using st_shutdown [of ?clk SendFails ?sy1 res st2] fin by simp
  have pol: "effective_drain_policy (in_config st1) = Discard"
    by (simp add: cfg effective_drain_policy_def passthrough_def default_config_def)
  then obtain st3 d where d: "discard_remaining_rings ?clk st1 = (st3, d)" "same_but_flags st3 st2"
    using shutdown_effect [of ?clk SendFails st1 res st2] fin by auto
  have "flags_only (fst (rc st3 Logs)) (fst (rc st2 Logs))" using d(2) by (simp add: same_but_flags_def)
  then have "slots (fst (rc st2 Logs)) = slots (fst (rc st3 Logs))" using flags_only_fields by blast
  also have "\<dots> = []" using discard_remaining_rings_rc(1) [OF d(1)] by (simp add: clear_ring_def)
  finally have v2: "slot_of ?sy2 Logs 1 = None" by (simp add: bt_get_def)
  show thesis
    by (rule that [OF r1 s2 _ v2])
      (simp_all add: rc1 admit_ring_def ring_new_def bt_get_def the_ring_rc sat_add_def u64_max_def)
qed

theorem watermark_exact_witness:
  "\<exists>sy :: (byte list, unit) sys. slot_of sy Logs 1 = Some Queued \<and> sb_committed_seq Logs (sy_inner sy) < 1"
proof (rule demo_run)
  fix sy1 sy2 :: "(byte list, unit) sys"
  assume "reach sys_init (sys_step byte_ops (\<lambda>_. [])) sy1" "slot_of sy1 Logs 1 = Some Queued"
  then show ?thesis using watermark_exact [of byte_ops "\<lambda>_. []" sy1 Logs] by auto
qed

theorem ledger_balanced_witness:
  "\<exists>sy :: (byte list, unit) sys. next_seq (the_ring Logs (sy_inner sy)) = 2 \<and>
     bytes_in_flight (the_ring Logs (sy_inner sy)) =
       charge e_bytes (slot_of sy Logs) (entries (the_ring Logs (sy_inner sy)) (leases_of Logs (sy_leases sy)) (res_of Logs (sy_res sy)))"
proof (rule demo_run)
  fix sy1 sy2 :: "(byte list, unit) sys"
  assume "reach sys_init (sys_step byte_ops (\<lambda>_. [])) sy1" "next_seq (the_ring Logs (sy_inner sy1)) = 2"
  then show ?thesis using ledger_balanced [of byte_ops "\<lambda>_. []" sy1 Logs] unfolding Let_def by blast
qed

theorem watermark_never_regresses_witness:
  "\<exists>(sy1 :: (byte list, unit) sys) sy2. sys_step byte_ops (\<lambda>_. []) sy1 ShutDown sy2 \<and>
     sb_committed_seq Logs (sy_inner sy1) \<le> sb_committed_seq Logs (sy_inner sy2)"
proof (rule demo_run)
  fix sy1 sy2 :: "(byte list, unit) sys"
  assume "reach sys_init (sys_step byte_ops (\<lambda>_. [])) sy1" "sys_step byte_ops (\<lambda>_. []) sy1 ShutDown sy2"
  then show ?thesis using watermark_never_regresses [of byte_ops "\<lambda>_. []" sy1 "[(ShutDown, sy2)]" Logs] by auto
qed

theorem no_silent_loss_witness:
  "\<exists>sy1 ev. resolved_by byte_ops (\<lambda>_. []) ev sy1 Logs 1"
proof (rule demo_run)
  fix sy1 sy2 :: "(byte list, unit) sys"
  assume "reach sys_init (sys_step byte_ops (\<lambda>_. [])) sy1" "sys_step byte_ops (\<lambda>_. []) sy1 ShutDown sy2"
    "slot_of sy1 Logs 1 = Some Queued" "slot_of sy2 Logs 1 = None"
  then show ?thesis using no_silent_loss [of byte_ops "\<lambda>_. []" sy1 "[(ShutDown, sy2)]" Logs 1] by auto
qed

section \<open>Admission\<close>



text \<open>
  C11. Eviction under \<open>DropOldest\<close> takes the oldest queued batches and no more of them than needed: with
  the last evicted batch still there the new one would not have fitted. It stops when there is room,
  when nothing is queued, or at a batch on disk that an earlier unfinished batch pins. The byte
  count is reduced by exactly the evicted sizes and the committed watermark stays exact.
\<close>

theorem eviction_minimal:
  assumes "evict_oldest bb budget r c 0 = (r', c', evicted_rows)" and "ring_inv r c ls rs"
  shows "\<exists>p. queue r = p @ queue r' \<and>
    bytes_in_flight r = bytes_in_flight r' + sum_list (map qb_byte_size p) \<and>
    evicted_rows = fold (\<lambda>b n. sat_add n (qb_row_count b)) p 0 \<and>
    (p \<noteq> [] \<longrightarrow> budget < bytes_in_flight r' + qb_byte_size (last p) + bb) \<and>
    (can_admit r' bb budget \<or> queue r' = [] \<or> front_is_pinned_on_disk (hd (queue r')) r') \<and>
    ring_inv r' c' ls rs \<and> c \<le> c'"
  using evict_oldest_inv [OF assms(2,1)] unfolding evicted_prefix_def by blast

theorem eviction_minimal_witness:
  "\<exists>r' c' n p. evict_oldest 2 4 demo_ring 0 0 = (r', c', n) \<and> queue demo_ring = p @ queue r' \<and>
     bytes_in_flight r' + sum_list (map qb_byte_size p) = 3"
proof -
  obtain r' c' n where run: "evict_oldest 2 4 demo_ring 0 0 = (r', c', n)" by (cases "evict_oldest 2 4 demo_ring 0 0") auto
  have "bytes_in_flight demo_ring = 3" by (simp add: demo_ring_def)
  then show ?thesis using eviction_minimal [OF run demo_ring_inv] run by auto
qed

end
