(* ===== verification/Recovery.thy ===== *)
theory Recovery
  imports BufferSystem
begin

text \<open>
  Start-up on what a crashed process left behind: recovery ends, and on segments that hold intact
  frames, the last one possibly torn, it queues exactly the frames the watermark does not cover, at the places
  where they can be read, in rings from which the buffer can run (\<open>clean_rings\<close>).
\<close>

section \<open>Putting a frame back\<close>

lemma insert_inv:
  assumes inv: "ring_inv r (watermark_candidate r) [] []" and new: "qb_seq_id x \<notin> qb_seq_id ` set (queue r)"
    and s: "1 \<le> qb_seq_id x"
    and fit: "bytes_in_flight r + qb_byte_size x \<le> u64_max" "rows_in_flight r + qb_row_count x \<le> u64_max"
    and r': "queue r' = enqueue_ordered x (queue r)" "slots r' = bt_insert (qb_seq_id x) Queued (slots r)"
      "next_seq r' = max (next_seq r) (Suc (qb_seq_id x))" "bytes_in_flight r' = bytes_in_flight r + qb_byte_size x"
      "rows_in_flight r' = rows_in_flight r + qb_row_count x" "inflight_leases r' = inflight_leases r"
      "inflight_enqueued_at r' = inflight_enqueued_at r" "evicted_unreclaimed_bytes r' = evicted_unreclaimed_bytes r"
      "unreclaimed_disk_bytes r' = unreclaimed_disk_bytes r"
  shows "ring_inv r' (watermark_candidate r') [] []"
proof -
  note D = ring_invD [OF inv]
  let ?s = "qb_seq_id x" and ?e = "(qb_seq_id x, Queued, qb_byte_size x, qb_row_count x)"
  have E: "entries r [] [] = q_entries (queue r)" "mset (entries r' [] []) = mset (?e # q_entries (queue r))"
    by (simp_all add: entries_def outstanding_def r' mset_q_entries_enqueue)
  have free: "?s \<notin> e_seq ` set (q_entries (queue r))" using new unfolding seqs_entries .
  have v: "view r' = (view r)(?s \<mapsto> Queued)" by (simp add: r' bt_get_bt_insert)
  have own: "owner_inv (view r') (entries r' [] [])"
    using owner_inv_perm [OF E(2) [symmetric]] owner_inv_admit [OF D(4), of ?s Queued "qb_byte_size x" "qb_row_count x"] free
    by (simp add: v E(1))
  have ch: "charge w (view r') (entries r' [] []) = w ?e + charge w (view r) (entries r [] [])" for w
    using charge_perm [OF E(2), of w "view r'"] charge_upd_other [OF free, of w "view r" "Some Queued"] by (simp add: v E(1))
  show ?thesis
  proof (rule ring_invI)
    show "sorted_wrt (<) (map qb_seq_id (queue r'))" using sorted_enqueue_ordered [OF D(3) new] by (simp add: r')
    show "view r' (qb_seq_id b) = Some Queued" if "b \<in> set (queue r')" for b
      using that D(5) by (auto simp: r' bt_get_bt_insert)
    show "1 \<le> t \<and> t < next_seq r'" if "t \<in> e_seq ` set (entries r' [] [])" for t
      using that mset_eq_setD [OF E(2)] D(10) [of t] s unfolding E(1) by (auto simp: r')
  qed (use own ch D fit in \<open>simp_all add: r' bt_inv_bt_insert\<close>)
qed

lemma raise_next_seq_inv:
  assumes inv: "ring_inv r (watermark_candidate r) ls rs" and "next_seq r \<le> n"
  shows "ring_inv (r\<lparr>next_seq := n\<rparr>) (watermark_candidate (r\<lparr>next_seq := n\<rparr>)) ls rs"
proof -
  note D = ring_invD [OF inv]
  have E: "entries (r\<lparr>next_seq := n\<rparr>) ls rs = entries r ls rs" by (simp add: entries_def)
  show ?thesis
  proof (rule ring_invI)
    show "1 \<le> s \<and> s < next_seq (r\<lparr>next_seq := n\<rparr>)" if "s \<in> e_seq ` set (entries (r\<lparr>next_seq := n\<rparr>) ls rs)" for s
      using D(10) [of s] that assms(2) unfolding E by simp
  qed (use D assms(2) in \<open>simp_all add: E\<close>)
qed

section \<open>Replaying frames\<close>

text \<open>Frames with the place where they are stored, and the queue entry recovery makes of one.\<close>

fun locate :: "nat \<Rightarrow> nat \<Rightarrow> 'b seg_frame list \<Rightarrow> (nat \<times> nat \<times> 'b seg_frame) list" where
  "locate num off [] = []"
| "locate num off ((sg, sq, n, p, b) # fs) = (num, off, sg, sq, n, p, b) # locate num (off + (28 + length p)) fs"

definition recovered :: "('b, 's) arrow_ops \<Rightarrow> instant \<Rightarrow> nat \<times> nat \<times> 'b seg_frame \<Rightarrow> ('b, 's) QueuedBatch" where
  "recovered ao now f = (case f of (num, off, sg, sq, n, p, b) \<Rightarrow>
     \<lparr>qb_seq_id = sq, qb_payload = OnDisk num off (28 + length p) n (ao_schema ao b), qb_byte_size = 28 + length p,
      qb_row_count = n, qb_enqueued_at = now, qb_first_failed_at = None, qb_attempt = 0, qb_ready_at = None\<rparr>)"

definition pending :: "DiskWatermark \<Rightarrow> SignalKind \<Rightarrow> (nat \<times> nat \<times> 'b seg_frame) list \<Rightarrow> (nat \<times> nat \<times> 'b seg_frame) list" where
  "pending wm sig F = filter (\<lambda>(num, off, sg, sq, n, p, b). sg = sig \<and> for_signal wm sig < sq) F"

lemma pending_simps [simp]:
  "pending wm sig [] = []" "pending wm sig (F @ G) = pending wm sig F @ pending wm sig G"
  "pending wm sig ((num, off, sg, sq, n, p, b) # F) =
     (if sg = sig \<and> for_signal wm sig < sq then (num, off, sg, sq, n, p, b) # pending wm sig F else pending wm sig F)"
  by (simp_all add: pending_def)

text \<open>The rings after the frames \<open>F\<close> were replayed.\<close>

definition replayed ::
  "('b, 's) arrow_ops \<Rightarrow> instant \<Rightarrow> DiskWatermark \<Rightarrow> (nat \<times> nat \<times> 'b seg_frame) list \<Rightarrow> ('b, 's) rings \<Rightarrow> bool" where
  "replayed ao now wm F rings \<longleftrightarrow>
     (\<forall>sig. let r = ring (rings sig) in
        ring_inv r (watermark_candidate r) [] [] \<and>
        mset (queue r) = mset (map (recovered ao now) (pending wm sig F)) \<and>
        bytes_in_flight r = sum_list (map qb_byte_size (queue r)) \<and> rows_in_flight r = sum_list (map qb_row_count (queue r)) \<and>
        committed_seq (rings sig) = for_signal wm sig \<and> for_signal wm sig < next_seq r \<and> next_seq r \<le> u64_max)"

text \<open>What recovery relies on: distinct sequence numbers in range, and sums that fit.\<close>

definition recoverable :: "('b, 's) arrow_ops \<Rightarrow> instant \<Rightarrow> DiskWatermark \<Rightarrow> (nat \<times> nat \<times> 'b seg_frame) list \<Rightarrow> bool" where
  "recoverable ao now wm F \<longleftrightarrow>
     (\<forall>(num, off, sg, sq, n, p, b) \<in> set F. sq < u64_max) \<and>
     (\<forall>sig. distinct (map (qb_seq_id \<circ> recovered ao now) (pending wm sig F)) \<and>
        sum_list (map (qb_byte_size \<circ> recovered ao now) (pending wm sig F)) \<le> u64_max \<and>
        sum_list (map (qb_row_count \<circ> recovered ao now) (pending wm sig F)) \<le> u64_max)"

lemma sum_list_mset_map: "mset xs = mset (map g ys) \<Longrightarrow> sum_list (map f xs) = sum_list (map (f \<circ> g) ys)"
  for f :: "'a \<Rightarrow> nat"
  by (metis (no_types, lifting) list.map_comp mset_map sum_mset_sum_list)

lemma replay_step:
  assumes R: "replayed ao now wm F rings" and F: "recoverable ao now wm (F @ [(num, off, sg, sq, n, p, b)])"
    and rec: "record_recovered_frame ao now num off (28 + length p) (header_of ao sg sq n p) b wm (rings sg) = (rs, fresh)"
  shows "replayed ao now wm (F @ [(num, off, sg, sq, n, p, b)]) (rings(sg := rs))"
proof -
  let ?f = "(num, off, sg, sq, n, p, b)" and ?r = "ring (rings sg)"
  let ?x = "recovered ao now ?f"
  have S: "ring_inv ?r (watermark_candidate ?r) [] []" "mset (queue ?r) = mset (map (recovered ao now) (pending wm sg F))"
    "bytes_in_flight ?r = sum_list (map qb_byte_size (queue ?r))" "rows_in_flight ?r = sum_list (map qb_row_count (queue ?r))"
    "committed_seq (rings sg) = for_signal wm sg" "for_signal wm sg < next_seq ?r" "next_seq ?r \<le> u64_max"
    using R unfolding replayed_def Let_def by blast+
  have lt: "sat_add sq 1 = Suc sq" "sq < u64_max" using F by (auto simp: recoverable_def sat_add_def)
  let ?n = "max (next_seq ?r) (Suc sq)"
  have new: "ring_inv (ring rs) (watermark_candidate (ring rs)) [] [] \<and>
      mset (queue (ring rs)) = mset (map (recovered ao now) (pending wm sg (F @ [?f]))) \<and>
      bytes_in_flight (ring rs) = sum_list (map qb_byte_size (queue (ring rs))) \<and>
      rows_in_flight (ring rs) = sum_list (map qb_row_count (queue (ring rs))) \<and>
      committed_seq rs = for_signal wm sg \<and> for_signal wm sg < next_seq (ring rs) \<and> next_seq (ring rs) \<le> u64_max"
  proof (cases "sq \<le> for_signal wm sg")
    case True
    then have "ring rs = ?r\<lparr>next_seq := ?n\<rparr>" "committed_seq rs = committed_seq (rings sg)"
      using rec lt by (auto simp: record_recovered_frame_def Let_def header_of_def)
    then show ?thesis
      using S raise_next_seq_inv [OF S(1), of ?n] lt(2) True by auto
  next
    case False
    then have rs: "queue (ring rs) = enqueue_ordered ?x (queue ?r)" "slots (ring rs) = bt_insert sq Queued (slots ?r)"
      "next_seq (ring rs) = ?n" "bytes_in_flight (ring rs) = sat_add (bytes_in_flight ?r) (28 + length p)"
      "rows_in_flight (ring rs) = sat_add (rows_in_flight ?r) n" "inflight_leases (ring rs) = inflight_leases ?r"
      "inflight_enqueued_at (ring rs) = inflight_enqueued_at ?r"
      "evicted_unreclaimed_bytes (ring rs) = evicted_unreclaimed_bytes ?r"
      "unreclaimed_disk_bytes (ring rs) = unreclaimed_disk_bytes ?r" "committed_seq rs = committed_seq (rings sg)"
      using rec lt by (auto simp: record_recovered_frame_def Let_def header_of_def recovered_def)
    have x: "qb_seq_id ?x = sq" "qb_byte_size ?x = 28 + length p" "qb_row_count ?x = n" by (simp_all add: recovered_def)
    have P: "pending wm sg (F @ [?f]) = pending wm sg F @ [?f]" using False by simp
    have ids: "qb_seq_id ` set (queue ?r) = set (map (qb_seq_id \<circ> recovered ao now) (pending wm sg F))"
      using mset_eq_setD [OF S(2)] by (simp add: image_comp comp_def)
    have G: "distinct (map (qb_seq_id \<circ> recovered ao now) (pending wm sg F @ [?f]))"
      "sum_list (map (qb_byte_size \<circ> recovered ao now) (pending wm sg F @ [?f])) \<le> u64_max"
      "sum_list (map (qb_row_count \<circ> recovered ao now) (pending wm sg F @ [?f])) \<le> u64_max"
      using F unfolding recoverable_def P [symmetric] by blast+
    have dist: "sq \<notin> qb_seq_id ` set (queue ?r)" using G(1) x(1) unfolding ids by simp
    have fit: "bytes_in_flight ?r + (28 + length p) \<le> u64_max" "rows_in_flight ?r + n \<le> u64_max"
      using G(2,3) S(3,4) by (simp_all add: sum_list_mset_map [OF S(2)] x)
    have "ring_inv (ring rs) (watermark_candidate (ring rs)) [] []"
      by (rule insert_inv [OF S(1), of ?x])
        (use rs x dist fit False in \<open>simp_all add: sat_add_exact\<close>)
    moreover have "sum_list (map g (enqueue_ordered ?x (queue ?r))) = g ?x + sum_list (map g (queue ?r))" for g :: "('a, 'b) QueuedBatch \<Rightarrow> nat"
      by (metis (no_types) image_mset_add_mset mset_enqueue_ordered mset_map sum_mset.insert sum_mset_sum_list)
    ultimately show ?thesis
      using rs x fit S lt(2) P by (simp add: sat_add_exact mset_enqueue_ordered)
  qed
  show ?thesis
    unfolding replayed_def Let_def
  proof
    fix sig
    show "ring_inv (ring ((rings(sg := rs)) sig)) (watermark_candidate (ring ((rings(sg := rs)) sig))) [] [] \<and>
      mset (queue (ring ((rings(sg := rs)) sig))) = mset (map (recovered ao now) (pending wm sig (F @ [?f]))) \<and>
      bytes_in_flight (ring ((rings(sg := rs)) sig)) = sum_list (map qb_byte_size (queue (ring ((rings(sg := rs)) sig)))) \<and>
      rows_in_flight (ring ((rings(sg := rs)) sig)) = sum_list (map qb_row_count (queue (ring ((rings(sg := rs)) sig)))) \<and>
      committed_seq ((rings(sg := rs)) sig) = for_signal wm sig \<and> for_signal wm sig < next_seq (ring ((rings(sg := rs)) sig)) \<and>
      next_seq (ring ((rings(sg := rs)) sig)) \<le> u64_max"
      using new R by (cases "sig = sg") (simp_all add: replayed_def Let_def)
  qed
qed

lemma recoverable_prefix: "recoverable ao now wm (F @ G) \<Longrightarrow> recoverable ao now wm F"
  by (auto simp: recoverable_def dest: add_leD1)

lemma replay_replayed:
  assumes "replayed ao now wm F rings" and "recoverable ao now wm (F @ locate num off fs)"
  shows "replayed ao now wm (F @ locate num off fs) (snd (snd (replay ao now num wm off fs (ms, u, rings))))"
  using assms
proof (induction fs arbitrary: F off ms u rings)
  case (Cons f fs)
  obtain sg sq n p b where f: "f = (sg, sq, n, p, b)" by (cases f)
  obtain rs fresh where rec: "record_recovered_frame ao now num off (28 + length p) (header_of ao sg sq n p) b wm (rings sg) = (rs, fresh)"
    by fastforce
  let ?F = "F @ [(num, off, sg, sq, n, p, b)]"
  have G: "F @ locate num off (f # fs) = ?F @ locate num (off + (28 + length p)) fs" by (simp add: f)
  have "recoverable ao now wm ?F" using Cons.prems(2) unfolding G by (rule recoverable_prefix)
  then have "replayed ao now wm ?F (rings(sg := rs))" by (rule replay_step [OF Cons.prems(1) _ rec])
  from Cons.IH [OF this Cons.prems(2) [unfolded G], of "ms(sg := max (ms sg) sq)" "if fresh then sat_add u 1 else u"]
  show ?case unfolding G by (simp only: f replay.simps rec prod.case)
qed simp

lemma replay_unacked:
  "fst (snd (replay ao now num wm off fs (ms, u, rings))) = 0 \<longleftrightarrow> u = 0 \<and> (\<forall>(sg, sq, n, p, b) \<in> set fs. sq \<le> for_signal wm sg)"
proof (induction fs arbitrary: off ms u rings)
  case (Cons f fs)
  obtain sg sq n p b where f: "f = (sg, sq, n, p, b)" by (cases f)
  obtain rs fresh where rec: "record_recovered_frame ao now num off (28 + length p) (header_of ao sg sq n p) b wm (rings sg) = (rs, fresh)"
    by fastforce
  have "fresh \<longleftrightarrow> \<not> sq \<le> for_signal wm sg"
    using rec by (auto simp: record_recovered_frame_def Let_def header_of_def split: if_splits)
  moreover have "sat_add u 1 \<noteq> 0" by (simp add: sat_add_def u64_max_def)
  ultimately have "((if fresh then sat_add u 1 else u) = 0 \<and> (\<forall>(sg, sq, n, p, b) \<in> set fs. sq \<le> for_signal wm sg)) \<longleftrightarrow>
      (u = 0 \<and> (\<forall>(sg, sq, n, p, b) \<in> set (f # fs). sq \<le> for_signal wm sg))"
    by (auto simp: f)
  then show ?case by (simp only: f replay.simps rec prod.case Cons.IH)
qed simp

section \<open>All segments\<close>

text \<open>The segment files \<open>segs\<close> hold the frames \<open>fs\<close> and possibly a torn one.\<close>

definition intact ::
  "('b, 's) arrow_ops \<Rightarrow> nat \<Rightarrow> dir \<Rightarrow> (nat \<Rightarrow> 'b seg_frame list) \<Rightarrow> nat \<times> string \<Rightarrow> bool" where
  "intact ao m files fs seg = (case seg of (num, path) \<Rightarrow>
     list_all (frame_fits ao) (fs num) \<and>
     (\<exists>tail. torn_tail ao m tail \<and> files path = Some (concat (map (frame_bytes ao) (fs num)) @ tail) \<and>
        length (concat (map (frame_bytes ao) (fs num)) @ tail) \<le> u64_max))"

definition frames_of :: "(nat \<Rightarrow> 'b seg_frame list) \<Rightarrow> (nat \<times> string) list \<Rightarrow> (nat \<times> nat \<times> 'b seg_frame) list" where
  "frames_of fs segs = concat (map (\<lambda>(num, path). locate num 0 (fs num)) segs)"

definition all_acked :: "DiskWatermark \<Rightarrow> 'b seg_frame list \<Rightarrow> bool" where
  "all_acked wm fs \<longleftrightarrow> (\<forall>(sg, sq, n, p, b) \<in> set fs. sq \<le> for_signal wm sg)"

lemma frames_le_bytes: "length fs \<le> length (concat (map (frame_bytes ao) fs))"
proof (induction fs)
  case (Cons f fs)
  obtain sg sq n p b where f: "f = (sg, sq, n, p, b)" by (cases f)
  show ?case using Cons by (simp add: f)
qed simp

lemma recover_single_intact:
  assumes "crc_ok ao" and "io_works io" and int: "intact ao m files fs (num, path)" and frs: "frs = fs num"
    and "replayed ao now wm F rings" and "recoverable ao now wm (F @ locate num 0 frs)"
  shows "\<exists>meta rings'. recover_single_segment ao now io num path m wm (files, rings) =
      Some (Inr (meta, files(path \<mapsto> concat (map (frame_bytes ao) frs)), rings')) \<and>
    replayed ao now wm (F @ locate num 0 frs) rings' \<and> (meta = None \<longleftrightarrow> all_acked wm frs)"
proof -
  let ?c = "concat (map (frame_bytes ao) frs)"
  obtain tail where t: "torn_tail ao m tail" "files path = Some (?c @ tail)" "length (?c @ tail) \<le> u64_max"
    and fit: "list_all (frame_fits ao) frs"
    using int by (auto simp: intact_def frs)
  obtain ms' u' rings' where rp: "replay ao now num wm 0 frs (\<lambda>_. 0, 0, rings) = (ms', u', rings')"
    by (metis surj_pair)
  have scan: "scan_segment (length (?c @ tail) + 1) ao now io num (?c @ tail) m wm 0 (\<lambda>_. 0) 0 rings =
      Some (Inr (ms', u', rings', ?c))"
    using scan_intact [OF assms(1,2) t(1,3), of "[]" frs "length (?c @ tail) + 1" now num wm "\<lambda>_. 0" 0 rings]
      fit frames_le_bytes [of frs ao] by (simp add: rp del: scan_segment.simps)
  let ?meta = "if u' > 0 then Some \<lparr>sg_path = path, sg_max_seq = ms', sg_has_frames = True\<rparr> else None"
  have "recover_single_segment ao now io num path m wm (files, rings) = Some (Inr (?meta, files(path \<mapsto> ?c), rings'))"
    using scan assms(2) t(2) by (simp add: recover_single_segment_def io_works_def del: scan_segment.simps)
  moreover have "replayed ao now wm (F @ locate num 0 frs) rings'"
    using replay_replayed [OF assms(5,6), of "\<lambda>_. 0" 0] by (simp add: rp)
  moreover have "?meta = None \<longleftrightarrow> all_acked wm frs"
    using replay_unacked [of ao now num wm 0 frs "\<lambda>_. 0" 0 rings] unfolding rp all_acked_def [symmetric] by auto
  ultimately show ?thesis by (intro exI [of _ ?meta] exI [of _ rings']) simp
qed

lemma recover_each_intact:
  assumes "crc_ok ao" and "\<And>num path. (num, path) \<in> set segs \<Longrightarrow> io_works (ri_segment io num)"
    and "\<And>seg. seg \<in> set segs \<Longrightarrow> intact ao m files fs seg" and "distinct (map snd segs)"
    and "replayed ao now wm F rings" and "recoverable ao now wm (F @ frames_of fs segs)"
  shows "\<exists>max_id' sealed' rings'. recover_each ao now io m wm segs (max_id, sealed, obsolete) (files, rings) =
      Some (Inr ((max_id', sealed', obsolete @ map snd (filter (\<lambda>(num, _). all_acked wm (fs num)) segs)),
        (\<lambda>p. case map_of (map (\<lambda>(num, path). (path, num)) segs) p of
               Some num \<Rightarrow> Some (concat (map (frame_bytes ao) (fs num))) | None \<Rightarrow> files p), rings')) \<and>
      replayed ao now wm (F @ frames_of fs segs) rings'"
  using assms
proof (induction segs arbitrary: max_id sealed obsolete files rings F)
  case Nil
  then show ?case by (simp add: frames_of_def)
next
  case (Cons seg segs)
  obtain num path where seg: "seg = (num, path)" by (cases seg)
  let ?c = "concat (map (frame_bytes ao) (fs num))"
  let ?F = "F @ locate num 0 (fs num)"
  have G: "F @ frames_of fs (seg # segs) = ?F @ frames_of fs segs" by (simp add: frames_of_def seg)
  have rec: "recoverable ao now wm (?F @ frames_of fs segs)" using Cons.prems(6) unfolding G .
  obtain meta rings1 where one: "recover_single_segment ao now (ri_segment io num) num path m wm (files, rings) =
      Some (Inr (meta, files(path \<mapsto> ?c), rings1))" "replayed ao now wm ?F rings1" "meta = None \<longleftrightarrow> all_acked wm (fs num)"
    using recover_single_intact [of ao "ri_segment io num" m files fs num path "fs num" now wm F rings] recoverable_prefix [OF rec]
      Cons.prems(1,5) Cons.prems(2) [of num path] Cons.prems(3) [of seg] seg by auto
  have notin: "path \<notin> snd ` set segs" "distinct (map snd segs)" using Cons.prems(4) by (simp_all add: seg)
  have int: "intact ao m (files(path \<mapsto> ?c)) fs s" if "s \<in> set segs" for s
  proof -
    have "snd s \<noteq> path" using that notin(1) by auto
    then show ?thesis using Cons.prems(3) [of s] that by (auto simp: intact_def)
  qed
  have nomap: "map_of (map (\<lambda>(num, path). (path, num)) segs) path = None"
    using notin(1) by (force simp: map_of_eq_None_iff)
  note IH = Cons.IH [OF Cons.prems(1) _ int notin(2) one(2) rec, of "max max_id num"
      "case meta of Some m \<Rightarrow> sealed @ [m] | None \<Rightarrow> sealed" "case meta of Some _ \<Rightarrow> obsolete | None \<Rightarrow> obsolete @ [path]"]
  obtain max_id' sealed' rings' where all: "recover_each ao now io m wm segs (max max_id num,
        case meta of Some m \<Rightarrow> sealed @ [m] | None \<Rightarrow> sealed, case meta of Some _ \<Rightarrow> obsolete | None \<Rightarrow> obsolete @ [path])
        (files(path \<mapsto> ?c), rings1) =
      Some (Inr ((max_id', sealed', (case meta of Some _ \<Rightarrow> obsolete | None \<Rightarrow> obsolete @ [path]) @
          map snd (filter (\<lambda>(num, _). all_acked wm (fs num)) segs)),
        (\<lambda>p. case map_of (map (\<lambda>(num, path). (path, num)) segs) p of
               Some num \<Rightarrow> Some (concat (map (frame_bytes ao) (fs num))) | None \<Rightarrow> (files(path \<mapsto> ?c)) p), rings'))"
      "replayed ao now wm (?F @ frames_of fs segs) rings'"
    using IH Cons.prems(2) by fastforce
  have files: "(\<lambda>p. case map_of (map (\<lambda>(num, path). (path, num)) (seg # segs)) p of
        Some num \<Rightarrow> Some (concat (map (frame_bytes ao) (fs num))) | None \<Rightarrow> files p) =
      (\<lambda>p. case map_of (map (\<lambda>(num, path). (path, num)) segs) p of
        Some num \<Rightarrow> Some (concat (map (frame_bytes ao) (fs num))) | None \<Rightarrow> (files(path \<mapsto> ?c)) p)"
    using nomap by (auto simp: seg fun_eq_iff split: option.split)
  show ?case
    unfolding G files using all one(1,3)
    by (intro exI [of _ max_id'] exI [of _ sealed'] exI [of _ rings']) (auto simp: seg split: option.splits)
qed

section \<open>The rings recovery hands over\<close>

lemma replayed_init:
  assumes "\<And>sig. for_signal wm sig < u64_max"
  shows "replayed ao now wm [] (\<lambda>sig. init_ring wm sig ring_state_new)"
proof -
  have n: "sat_add (for_signal wm sig) (Suc 0) = Suc (for_signal wm sig)" for sig
    using assms [of sig] by (simp add: sat_add_def)
  let ?new = "ring_new :: ('a, 'b) SignalRing"
  have z: "watermark_candidate ?new = 0" "next_seq ?new = 1" by (simp_all add: ring_new_def watermark_candidate_def bt_first_def)
  have "ring_inv (?new\<lparr>next_seq := Suc k\<rparr>) (watermark_candidate (?new\<lparr>next_seq := Suc k\<rparr>)) [] []" for k
    by (rule raise_next_seq_inv) (use ring_inv_new in \<open>simp_all add: z\<close>)
  then show ?thesis
    using assms by (simp add: replayed_def init_ring_def ring_state_new_def n Let_def Suc_leI) (simp add: ring_new_def)
qed

lemma replayed_advance:
  assumes "replayed ao now wm F rings"
  shows "ring_inv (ring (advance_ring_state (rings sig))) (committed_seq (advance_ring_state (rings sig))) [] []"
    and "mset (queue (ring (advance_ring_state (rings sig)))) = mset (map (recovered ao now) (pending wm sig F))"
    and "next_seq (ring (advance_ring_state (rings sig))) \<le> u64_max"
    and "for_signal wm sig \<le> committed_seq (advance_ring_state (rings sig))"
proof -
  let ?r = "ring (rings sig)"
  have S: "ring_inv ?r (watermark_candidate ?r) [] []" "mset (queue ?r) = mset (map (recovered ao now) (pending wm sig F))"
    "committed_seq (rings sig) = for_signal wm sig" "for_signal wm sig < next_seq ?r" "next_seq ?r \<le> u64_max"
    using assms unfolding replayed_def Let_def by blast+
  have above: "for_signal wm sig < s" if "view ?r s = Some k" for s k
  proof -
    have "s \<in> qb_seq_id ` set (queue ?r)"
      unfolding seqs_entries [symmetric] using view_entry [OF S(1) that] by (auto simp: entries_def outstanding_def simp del: seqs_entries)
    then show ?thesis using mset_eq_setD [OF S(2)] by (auto simp: pending_def recovered_def)
  qed
  have c: "for_signal wm sig \<le> watermark_candidate ?r"
    by (rule candidate_least [OF ring_invD(1) [OF S(1)]]) (use above S(4) in auto)
  note A = advance_watermark_inv [OF c S(1)]
  have e: "fst (advance_watermark ?r (for_signal wm sig)) = ?r"
    by (rule advance_watermark_none_evicted) (rule ring_invD(13) [OF S(1)])
  show "ring_inv (ring (advance_ring_state (rings sig))) (committed_seq (advance_ring_state (rings sig))) [] []"
    "mset (queue (ring (advance_ring_state (rings sig)))) = mset (map (recovered ao now) (pending wm sig F))"
    "next_seq (ring (advance_ring_state (rings sig))) \<le> u64_max"
    "for_signal wm sig \<le> committed_seq (advance_ring_state (rings sig))"
    using A e S by (simp_all add: advance_ring_state_def case_prod_beta)
qed

section \<open>The files recovery leaves\<close>

lemma list_segments_names:
  "list_segments es = Inr segs \<Longrightarrow> (n, name) \<in> set segs \<Longrightarrow> name = segment_path n"
proof (induction es arbitrary: segs)
  case (Cons e es)
  then show ?case
    by (cases e) (auto simp: try_bind_def segment_path_def bind_eq_Some_conv split: sum.splits option.splits
        dest: parse_segment_id_inverse(1))
qed simp

lemma locate_stored:
  assumes "(num', off', sg, sq, n, p, b) \<in> set (locate num off fs)"
  shows "num' = num \<and> (sg, sq, n, p, b) \<in> set fs \<and> off \<le> off' \<and>
    (\<exists>pre post. concat (map (frame_bytes ao) fs) = pre @ frame_of ao sg sq n p @ post \<and> off' = off + length pre)"
  using assms
proof (induction fs arbitrary: off)
  case (Cons f fs)
  obtain sg1 sq1 n1 p1 b1 where f: "f = (sg1, sq1, n1, p1, b1)" by (cases f)
  show ?case
  proof (cases "(num', off', sg, sq, n, p, b) = (num, off, sg1, sq1, n1, p1, b1)")
    case True
    then show ?thesis by (auto simp: f intro: exI [of _ "[]"])
  next
    case False
    with Cons.prems f have "(num', off', sg, sq, n, p, b) \<in> set (locate num (off + (28 + length p1)) fs)" by auto
    from Cons.IH [OF this] obtain pre post where "num' = num" "(sg, sq, n, p, b) \<in> set fs"
      "concat (map (frame_bytes ao) fs) = pre @ frame_of ao sg sq n p @ post" "off' = off + (28 + length p1) + length pre"
      by blast
    then show ?thesis
      by (intro conjI exI [of _ "frame_of ao sg1 sq1 n1 p1 @ pre"] exI [of _ post]) (simp_all add: f)
  qed
qed simp

lemma frames_of_sorted:
  "mset (pending wm sig (frames_of fs (sort_key k segs))) = mset (pending wm sig (frames_of fs segs))"
proof -
  have "mset (frames_of fs xs) = sum_mset (image_mset (\<lambda>(num, path). mset (locate num 0 (fs num))) (mset xs))" for xs
    by (induction xs) (auto simp: frames_of_def)
  then show ?thesis by (simp add: pending_def)
qed

lemma removed_files:
  "foldl (\<lambda>d p. if rm p then d(p := None) else d) d ps q = (if q \<in> set ps \<and> rm q then None else d q)"
  by (induction ps arbitrary: d) auto

section \<open>Recovery ends\<close>

lemma scan_segment_shrinks:
  "scan_segment fuel ao now io num content m wm offset ms u rings = Some (Inr (ms', u', rings', content')) \<Longrightarrow>
   length content' \<le> length content"
proof (induction fuel arbitrary: offset ms u rings)
  case (Suc fuel)
  then show ?case
    by (auto simp: Let_def truncate_torn_segment_def split: if_splits sum.splits option.splits FrameDecodeError.splits prod.splits)
qed simp

definition files_in_range :: "dir \<Rightarrow> bool" where
  "files_in_range d \<longleftrightarrow> (\<forall>p c. d p = Some c \<longrightarrow> length c \<le> u64_max)"

lemma recover_single_segment_total:
  assumes "files_in_range files"
  shows "recover_single_segment ao now io num path m wm (files, rings) \<noteq> None"
    and "recover_single_segment ao now io num path m wm (files, rings) = Some (Inr (meta, files', rings')) \<Longrightarrow> files_in_range files'"
proof -
  have tot: "scan_segment (length c + 1) ao now io num c m wm 0 (\<lambda>_. 0) 0 rings \<noteq> None" if "files path = Some c" for c
    by (rule scan_segment_total) (use assms that in \<open>auto simp: files_in_range_def\<close>)
  then show "recover_single_segment ao now io num path m wm (files, rings) \<noteq> None"
    by (auto simp: recover_single_segment_def simp del: scan_segment.simps split: option.splits sum.splits if_splits)
  show "files_in_range files'"
    if run: "recover_single_segment ao now io num path m wm (files, rings) = Some (Inr (meta, files', rings'))"
  proof -
    obtain c ms' u' content' where c: "files path = Some c" and f': "files' = files(path \<mapsto> content')"
      and sc: "scan_segment (length c + 1) ao now io num c m wm 0 (\<lambda>_. 0) 0 rings = Some (Inr (ms', u', rings', content'))"
      using run
      by (auto simp: recover_single_segment_def simp del: scan_segment.simps split: option.splits sum.splits if_splits prod.splits)
    show ?thesis
      using scan_segment_shrinks [OF sc] assms c unfolding files_in_range_def f'
      by (metis fun_upd_apply le_trans option.inject)
  qed
qed

lemma recover_each_total:
  "files_in_range files \<Longrightarrow> recover_each ao now io m wm segs acc (files, rings) \<noteq> None"
proof (induction segs arbitrary: acc files rings)
  case (Cons seg segs)
  obtain num path max_id sealed obsolete where e: "seg = (num, path)" "acc = (max_id, sealed, obsolete)"
    by (metis surj_pair)
  let ?one = "recover_single_segment ao now (ri_segment io num) num path m wm (files, rings)"
  show ?case
    using recover_single_segment_total [OF Cons.prems, of ao now "ri_segment io num" num path m wm rings] Cons.IH
    by (auto simp: e split: option.split sum.split prod.split)
qed simp

text \<open>
  What a crash leaves behind: segment files under distinct names that hold whole frames, then nothing
  or the torn prefix of one; sequence numbers and sums that fit; and a file system that answers.
\<close>

definition crash_image ::
  "('b, 's) arrow_ops \<Rightarrow> instant \<Rightarrow> recover_io \<Rightarrow> BufferConfig \<Rightarrow> (unit + string option) list \<Rightarrow> DiskWatermark \<Rightarrow> dir \<Rightarrow>
   (nat \<Rightarrow> 'b seg_frame list) \<Rightarrow> (nat \<times> string) list \<Rightarrow> bool" where
  "crash_image ao now io config listing wm files fs segs \<longleftrightarrow>
     crc_ok ao \<and> ri_read_dir io \<and> ri_merge_fault io = NoFault \<and> (\<forall>num. io_works (ri_segment io num)) \<and>
     list_segments listing = Inr segs \<and> distinct (map snd segs) \<and> (\<forall>sig. for_signal wm sig < u64_max) \<and>
     (\<forall>seg \<in> set segs. intact ao (max_disk_frame_payload_bytes config) files fs seg) \<and>
     recoverable ao now wm (frames_of fs (sort_key fst segs))"

lemma recover_segments_run:
  assumes C: "crash_image ao now io config listing wm files fs segs"
  obtains max_id sealed wm' files' rings where
    "recover_segments ao to_json now io config listing wm (files, \<lambda>sig. init_ring wm sig ring_state_new) =
       Some (Inr (max_id, sealed, wm', files', \<lambda>sig. advance_ring_state (rings sig)))"
    and "replayed ao now wm (frames_of fs (sort_key fst segs)) rings"
    and "\<And>sig. for_signal wm' sig = committed_seq (advance_ring_state (rings sig))"
    and "\<And>num. (num, segment_path num) \<in> set segs \<Longrightarrow> files' (segment_path num) =
       (if all_acked wm (fs num) \<and> ri_rm io (segment_path num) then None else Some (concat (map (frame_bytes ao) (fs num))))"
proof -
  let ?segs = "sort_key fst segs" and ?m = "max_disk_frame_payload_bytes config"
  have io: "ri_read_dir io" "ri_merge_fault io = NoFault" "list_segments listing = Inr segs" and dist: "distinct (map snd ?segs)"
    using C by (auto simp: crash_image_def distinct_map)
  have one: "n = n'" if "(n, p) \<in> set segs" "(n', p) \<in> set segs" for n n' p
    using C that unfolding crash_image_def by (metis Pair_inject distinct_map inj_onD snd_conv)
  obtain max_id sealed rings where run: "recover_each ao now io ?m wm ?segs (0, [], []) (files, \<lambda>sig. init_ring wm sig ring_state_new) =
      Some (Inr ((max_id, sealed, map snd (filter (\<lambda>(num, _). all_acked wm (fs num)) ?segs)),
        (\<lambda>p. case map_of (map (\<lambda>(num, path). (path, num)) ?segs) p of
               Some num \<Rightarrow> Some (concat (map (frame_bytes ao) (fs num))) | None \<Rightarrow> files p), rings))"
      (is "_ = Some (Inr ((_, _, ?obs), ?files, _))")
    and rep: "replayed ao now wm (frames_of fs ?segs) rings"
    using recover_each_intact [of ao ?segs io ?m files fs now wm "[]" "\<lambda>sig. init_ring wm sig ring_state_new" 0 "[]" "[]"]
      replayed_init [of wm ao now] C dist by (auto simp: crash_image_def)
  let ?rings = "\<lambda>sig. advance_ring_state (rings sig)"
  obtain wm' changed where mg: "merge_monotonic wm (from_rings (wm_instance_id wm) ?rings) = (wm', changed)" by fastforce
  have wm': "for_signal wm' sig = committed_seq (?rings sig)" for sig
    using for_signal_merge [of wm "from_rings (wm_instance_id wm) ?rings" sig] replayed_advance(4) [OF rep, of sig] by (simp add: mg)
  obtain files1 where f1: "\<And>n. files1 (segment_path n) = ?files (segment_path n)"
    and seg: "recover_segments ao to_json now io config listing wm (files, \<lambda>sig. init_ring wm sig ring_state_new) =
      Some (Inr (max_id, sealed, wm', foldl (\<lambda>d p. if ri_rm io p then d(p := None) else d) files1 ?obs, ?rings))"
  proof (cases changed)
    case True
    obtain ds where w: "write_watermark_atomic to_json NoFault wm' ?files = (Inr (), ds)"
      by (simp add: write_watermark_atomic_def Let_def)
    show ?thesis
      by (rule that [of "after ?files ds"])
        (use watermark_write_segments [OF w] w in \<open>simp_all add: recover_segments_def io run mg True try_bind_def\<close>)
  qed (rule that [of ?files]; simp add: recover_segments_def io run mg try_bind_def)
  have "?files (segment_path num) = Some (concat (map (frame_bytes ao) (fs num)))" if "(num, segment_path num) \<in> set segs" for num
  proof -
    have "map_of (map (\<lambda>(num, path). (path, num)) ?segs) (segment_path num) = Some num"
      by (rule map_of_is_SomeI) (use dist that in \<open>auto simp: comp_def case_prod_beta intro: rev_image_eqI\<close>)
    then show ?thesis by simp
  qed
  moreover have "segment_path num \<in> set ?obs \<longleftrightarrow> all_acked wm (fs num)" if "(num, segment_path num) \<in> set segs" for num
    using that one by (force simp: image_iff)
  ultimately show thesis by (intro that [OF seg rep wm']) (auto simp: removed_files f1)
qed

lemma recovered_frame_readable:
  assumes C: "crash_image ao now io config listing wm files fs segs"
    and files': "\<And>num. (num, segment_path num) \<in> set segs \<Longrightarrow> files' (segment_path num) =
       (if all_acked wm (fs num) \<and> ri_rm io (segment_path num) then None else Some (concat (map (frame_bytes ao) (fs num))))"
    and P: "(num, off, sg, sq, n, p, b) \<in> set (pending wm sig (frames_of fs segs))"
  shows "read_frame_at ao True [] files' num off (28 + length p) m = Inr b"
proof -
  have "(num, off, sg, sq, n, p, b) \<in> set (frames_of fs segs)" "for_signal wm sg < sq" using P by (auto simp: pending_def)
  then obtain pt where pt: "(num, pt) \<in> set segs" "(num, off, sg, sq, n, p, b) \<in> set (locate num 0 (fs num))"
    using locate_stored [of num off sg sq n p b _ 0] by (fastforce simp: frames_of_def)
  note L = locate_stored [OF pt(2), of ao]
  have in_segs: "(num, segment_path num) \<in> set segs"
    using pt(1) C list_segments_names [of listing segs num pt] by (auto simp: crash_image_def)
  have fit: "frame_fits ao (sg, sq, n, p, b)" using C pt(1) L by (auto simp: crash_image_def intact_def list_all_iff)
  obtain pre post where c: "concat (map (frame_bytes ao) (fs num)) = pre @ frame_of ao sg sq n p @ post" "off = length pre"
    using L by auto
  have "\<not> all_acked wm (fs num)" using L \<open>for_signal wm sg < sq\<close> unfolding all_acked_def by force
  then have "files' (segment_path num) = Some (pre @ frame_of ao sg sq n p @ post)"
    using files' [OF in_segs] c(1) by simp
  then have "frame_at files' \<lparr>sf_signal = sg, sf_seq = sq, sf_segment = num, sf_offset = off, sf_bytes = frame_of ao sg sq n p\<rparr>"
    by (simp add: frame_at_def c(2))
  from read_stored_frame [OF this, of ao sg sq n p b "[]"] C fit show ?thesis
    by (simp add: frame_fits_def crash_image_def)
qed

section \<open>Properties\<close>

text \<open>
  C8. Start-up ends: whatever bytes the segment files hold (garbage, forged lengths, torn or
  corrupt frames), whatever the file system answers and however reads are cut into pieces,
  \<open>open_and_recover\<close> returns, with the buffer or with an error, as long as every file is shorter than \<open>2^64\<close> bytes.
\<close>

theorem recovery_terminates:
  assumes "files_in_range files" and "\<And>wm. length (to_json wm) \<le> u64_max"
  shows "\<exists>res. open_and_recover ao to_json from_json fresh_id now io config listing (files, rings) = Some res"
proof -
  have "recover_segments ao to_json now io config listing wm (files1, rings1) \<noteq> None"
    if "load_initial_watermark to_json from_json fresh_id io (files, rings) = Inr (wm, files1, rings1)" for wm files1 rings1
  proof -
    have w: "files_in_range (after d ds)" if "write_watermark_atomic to_json f wm d = (Inr (), ds)" "files_in_range d" for f wm d ds
      using that assms(2)
      by (cases f) (auto simp: write_watermark_atomic_def Let_def after_def files_in_range_def split: if_splits)
    define files0 where "files0 = (if files ''watermark.json.tmp'' \<noteq> None \<and> ri_rm io ''watermark.json.tmp''
        then files(''watermark.json.tmp'' := None) else files)"
    have "files_in_range files0" using assms(1) by (auto simp: files0_def files_in_range_def)
    moreover have "files1 = files0 \<or> (\<exists>f wm ds. write_watermark_atomic to_json f wm files0 = (Inr (), ds) \<and> files1 = after files0 ds)"
      using that unfolding load_initial_watermark_def prod.case Let_def files0_def [symmetric]
      by (auto simp: try_bind_def simp del: fun_upd_apply split: sum.splits if_splits prod.splits)
    ultimately have "files_in_range files1" using w by blast
    then have "recover_each ao now io m wm segs (0, [], []) (files1, rings1) \<noteq> None" for m segs by (rule recover_each_total)
    then show ?thesis
      by (auto simp: recover_segments_def Let_def simp del: not_None_eq split: sum.split option.split prod.split)
  qed
  then show ?thesis
    by (auto simp: open_and_recover_def split: sum.split option.split prod.split)
qed

text \<open>A file system on which every call succeeds, for the witnesses.\<close>

definition sound_segment_io :: segment_io where
  "sound_segment_io = \<lparr>si_open = True, si_stat = True, si_seek = \<lambda>_. True, si_read = \<lambda>_. [], si_truncate = True, si_sync = True\<rparr>"

definition sound_io :: recover_io where
  "sound_io = \<lparr>ri_create_dir = True, ri_lock_open = True, ri_lock = True, ri_read_watermark = True, ri_watermark_fault = NoFault,
     ri_read_dir = True, ri_segment = \<lambda>_. sound_segment_io, ri_merge_fault = NoFault, ri_rm = \<lambda>_. True, ri_spawn = True\<rparr>"

theorem recovery_terminates_witness:
  "\<exists>res. open_and_recover byte_ops (\<lambda>wm. []) (\<lambda>_. Inl ''bad'') 7 0 sound_io
      default_config [Inr (Some (segment_file_name 0))] ([segment_file_name 0 \<mapsto> [1, 2, 3]], \<lambda>_. ring_state_new) = Some res"
  by (rule recovery_terminates) (simp_all add: files_in_range_def u64_max_def)

text \<open>
  C3. Recovery after a crash is exact: on segment files that hold whole frames followed by nothing or by
  the torn prefix of one, with the stored watermark \<open>wm\<close>, the recovered queue of every signal holds
  exactly the frames above the watermark, each with its segment, offset and length; the rings satisfy the
  ring invariant with nothing leased; each queued frame can be read back from the files
  recovery left (no unacknowledged data is deleted); and a segment with no unacknowledged frame is deleted.
\<close>

theorem recovery_exact:
  assumes "crash_image ao now io config listing wm files fs segs"
  shows "\<exists>max_id sealed wm' files' rings'.
    recover_segments ao to_json now io config listing wm (files, \<lambda>sig. init_ring wm sig ring_state_new) =
      Some (Inr (max_id, sealed, wm', files', rings')) \<and> clean_rings rings' \<and>
    (\<forall>sig. mset (queue (ring (rings' sig))) = mset (map (recovered ao now) (pending wm sig (frames_of fs segs))) \<and>
       for_signal wm' sig = committed_seq (rings' sig) \<and> for_signal wm sig \<le> for_signal wm' sig \<and>
       (\<forall>(num, off, sg, sq, n, p, b) \<in> set (pending wm sig (frames_of fs segs)).
          read_frame_at ao True [] files' num off (28 + length p) (max_disk_frame_payload_bytes config) = Inr b)) \<and>
    (\<forall>(num, path) \<in> set segs. all_acked wm (fs num) \<longrightarrow> ri_rm io path \<longrightarrow> files' path = None)"
proof (rule recover_segments_run [where to_json = to_json, OF assms])
  fix max_id sealed wm' files' rings
  assume run: "recover_segments ao to_json now io config listing wm (files, \<lambda>sig. init_ring wm sig ring_state_new) =
       Some (Inr (max_id, sealed, wm', files', \<lambda>sig. advance_ring_state (rings sig)))"
    and rep: "replayed ao now wm (frames_of fs (sort_key fst segs)) rings"
    and wm': "\<And>sig. for_signal wm' sig = committed_seq (advance_ring_state (rings sig))"
    and f: "\<And>num. (num, segment_path num) \<in> set segs \<Longrightarrow> files' (segment_path num) =
       (if all_acked wm (fs num) \<and> ri_rm io (segment_path num) then None else Some (concat (map (frame_bytes ao) (fs num))))"
  have "files' path = None" if "(num, path) \<in> set segs" "all_acked wm (fs num)" "ri_rm io path" for num path
    using that f [of num] list_segments_names [of listing segs num path] assms by (auto simp: crash_image_def)
  then show ?thesis
    using run replayed_advance [OF rep] recovered_frame_readable [OF assms f] wm' frames_of_sorted [of wm _ fs fst segs]
    by (intro exI conjI) (auto simp: clean_rings_def)
qed

text \<open>One segment with a committed frame, a pending frame and the first bytes of a third.\<close>

definition demo_frames :: "nat \<Rightarrow> byte list seg_frame list" where
  "demo_frames num = [(Logs, 1, 1, [5], [5]), (Logs, 2, 1, [6], [6])]"

definition demo_image :: dir where
  "demo_image = [segment_path 0 \<mapsto> concat (map (frame_bytes byte_ops) (demo_frames 0)) @ take 3 (frame_of byte_ops Logs 3 1 [7])]"

lemma demo_crash_image:
  "crash_image byte_ops 0 sound_io default_config [Inr (Some (segment_file_name 0))] (default_watermark\<lparr>wm_logs := 1\<rparr>)
     demo_image demo_frames [(0, segment_path 0)]"
proof -
  have l: "list_segments [Inr (Some (segment_file_name 0))] = Inr [(0, segment_path 0)]"
    by (simp add: parse_segment_file_name segment_path_def try_bind_def u64_max_def)
  have t: "torn_tail byte_ops (max_disk_frame_payload_bytes default_config) (take 3 (frame_of byte_ops Logs 3 1 [7]))"
    unfolding torn_tail_def
    by (rule disjI2, rule exI [of _ Logs], rule exI [of _ 3], rule exI [of _ 1], rule exI [of _ "[7]"], rule exI [of _ 3])
      (simp add: u64_max_def u32_max_def max_disk_frame_payload_bytes_def default_config_def sat_mul_def)
  have i: "intact byte_ops (max_disk_frame_payload_bytes default_config) demo_image demo_frames (0, segment_path 0)"
    unfolding intact_def prod.case
    by (intro conjI exI [of _ "take 3 (frame_of byte_ops Logs 3 1 [7])"])
      (use t in \<open>simp_all add: demo_image_def demo_frames_def frame_fits_def byte_ops_def u64_max_def u32_max_def\<close>)
  have r: "recoverable byte_ops 0 (default_watermark\<lparr>wm_logs := 1\<rparr>) (frames_of demo_frames [(0, segment_path 0)])"
    by (auto simp: recoverable_def frames_of_def demo_frames_def recovered_def u64_max_def default_watermark_def)
  have w: "for_signal (default_watermark\<lparr>wm_logs := 1\<rparr>) sig < u64_max" for sig
    by (cases sig) (simp_all add: default_watermark_def u64_max_def)
  show ?thesis
    using l i r w byte_ops_ok(1) by (simp add: crash_image_def sound_io_def sound_segment_io_def io_works_def)
qed

theorem recovery_exact_witness:
  "\<exists>max_id sealed wm' files' rings'.
     recover_segments byte_ops (\<lambda>wm. []) 0 sound_io default_config [Inr (Some (segment_file_name 0))] (default_watermark\<lparr>wm_logs := 1\<rparr>)
       (demo_image, \<lambda>sig. init_ring (default_watermark\<lparr>wm_logs := 1\<rparr>) sig ring_state_new) = Some (Inr (max_id, sealed, wm', files', rings')) \<and>
     map qb_seq_id (queue (ring (rings' Logs))) = [2] \<and> read_frame_at byte_ops True [] files' 0 29 29 (max_disk_frame_payload_bytes default_config) = Inr [6]"
proof -
  have p: "pending (default_watermark\<lparr>wm_logs := 1\<rparr>) Logs (frames_of demo_frames [(0, segment_path 0)]) = [(0, 29, Logs, 2, 1, [6], [6])]"
    by (simp add: frames_of_def demo_frames_def)
  obtain max_id sealed wm' files' rings' where
    run: "recover_segments byte_ops (\<lambda>wm. []) 0 sound_io default_config [Inr (Some (segment_file_name 0))] (default_watermark\<lparr>wm_logs := 1\<rparr>)
       (demo_image, \<lambda>sig. init_ring (default_watermark\<lparr>wm_logs := 1\<rparr>) sig ring_state_new) = Some (Inr (max_id, sealed, wm', files', rings'))"
    and q: "mset (queue (ring (rings' Logs))) = mset [recovered byte_ops 0 (0, 29, Logs, 2, 1, [6], [6])]"
    and f: "read_frame_at byte_ops True [] files' 0 29 29 (max_disk_frame_payload_bytes default_config) = Inr [6]"
    using recovery_exact [OF demo_crash_image, of "\<lambda>wm. []"]
    by (elim exE conjE) (drule spec [of _ Logs], simp add: p [simplified])
  have "queue (ring (rings' Logs)) = [recovered byte_ops 0 (0, 29, Logs, 2, 1, [6], [6])]"
    using q by (metis mset_single_iff mset.simps)
  then show ?thesis using run f by (simp add: recovered_def)
qed

end
