(* ===== verification/Fanout.thy ===== *)
theory Fanout
  imports SenderRings
begin

text \<open>
  Fan-out of one batch to the buffers of several sinks (\<open>Fanout\<close> of \<open>crates/core/src/pipeline.rs\<close>).

  An output is the buffer behind a \<open>BufferSender\<close> in the state in which the call on it starts,
  with what the environment does during that call.
\<close>

record ('b, 's) fan_output =
  fo_io :: "nat \<Rightarrow> ('b, 's) send_io"
  fo_join_ok :: bool
  fo_inner :: "('b, 's) BufferInner"

type_synonym ('b, 's) Fanout = "('b, 's) fan_output list"

definition fanout_try_new :: "('b, 's) fan_output list \<Rightarrow> ('b, 's) Fanout result" where
  "fanout_try_new outputs =
     (if outputs = [] then Inl (Internal ''Fanout requires at least one output'') else Inr outputs)"

text \<open>One call of \<open>send\<close> with its \<open>map_err\<close>; \<open>None\<close> while it waits for room.\<close>

definition output_send :: "('b, 's) arrow_ops \<Rightarrow> 'b SignalBatch \<Rightarrow> ('b, 's) fan_output \<Rightarrow> unit result option \<times> ('b, 's) BufferInner" where
  "output_send ao batch out =
     (case send ao (fo_io out) (fo_join_ok out) batch (fo_inner out) of
        (res, st) \<Rightarrow> (map_option (\<lambda>r. case r of Inl _ \<Rightarrow> Inl DownstreamClosed | Inr _ \<Rightarrow> Inr ()) res, st))"

fun send_rest ::
  "('b, 's) arrow_ops \<Rightarrow> 'b SignalBatch \<Rightarrow> ('b, 's) fan_output list \<Rightarrow> unit result option \<times> ('b, 's) BufferInner list" where
  "send_rest ao batch [] = (Some (Inr ()), [])"
| "send_rest ao batch (out # outs) =
     (case output_send ao batch out of
        (Some (Inr _), st) \<Rightarrow> (case send_rest ao batch outs of (res, sts) \<Rightarrow> (res, st # sts))
      | (res, st) \<Rightarrow> (res, st # map fo_inner outs))"

definition fanout_send ::
  "('b, 's) arrow_ops \<Rightarrow> 'b SignalBatch \<Rightarrow> ('b, 's) Fanout \<Rightarrow> unit result option \<times> ('b, 's) BufferInner list" where
  "fanout_send ao batch outputs =
     (if outputs = [] then (Some (Inr ()), [])
      else case send_rest ao batch (butlast outputs) of
             (Some (Inr _), sts) \<Rightarrow> (case output_send ao batch (last outputs) of (res, st) \<Rightarrow> (res, sts @ [st]))
           | (res, sts) \<Rightarrow> (res, sts @ [fo_inner (last outputs)]))"

lemma output_send_results: "output_send ao batch out = (res, st) \<Longrightarrow> res = None \<or> res = Some (Inl DownstreamClosed) \<or> res = Some (Inr ())"
  by (auto simp: output_send_def split: prod.splits option.splits sum.splits)

text \<open>How far a sequence of sends got.\<close>

definition stopped_at ::
  "('b, 's) arrow_ops \<Rightarrow> 'b SignalBatch \<Rightarrow> ('b, 's) fan_output list \<Rightarrow> unit result option \<Rightarrow> ('b, 's) BufferInner list \<Rightarrow> nat \<Rightarrow> bool" where
  "stopped_at ao batch outs res sts k \<longleftrightarrow>
     k \<le> length outs \<and> length sts = length outs \<and>
     (\<forall>i < k. output_send ao batch (outs ! i) = (Some (Inr ()), sts ! i)) \<and>
     (\<forall>i. k < i \<longrightarrow> i < length outs \<longrightarrow> sts ! i = fo_inner (outs ! i)) \<and>
     (if k = length outs then res = Some (Inr ())
      else (res = None \<or> res = Some (Inl DownstreamClosed)) \<and> output_send ao batch (outs ! k) = (res, sts ! k))"

lemma stopped_at_end:
  "stopped_at ao batch outs res sts k \<Longrightarrow> (res = Some (Inr ()) \<longleftrightarrow> k = length outs) \<and> length sts = length outs"
  by (auto simp: stopped_at_def split: if_splits)

lemma stopped_at_Cons:
  "output_send ao batch out = (Some (Inr ()), st) \<Longrightarrow> stopped_at ao batch outs res sts k \<Longrightarrow>
   stopped_at ao batch (out # outs) res (st # sts) (Suc k)"
  by (auto simp: stopped_at_def nth_Cons less_Suc_eq_0_disj split: nat.split if_splits)

lemma fanout_send_Cons:
  "fanout_send ao batch (out # outs) =
     (case output_send ao batch out of
        (Some (Inr _), st) \<Rightarrow> (case fanout_send ao batch outs of (res, sts) \<Rightarrow> (res, st # sts))
      | (res, st) \<Rightarrow> (res, st # map fo_inner outs))"
proof -
  have "map fo_inner outs = map fo_inner (butlast outs) @ [fo_inner (last outs)]" if "outs \<noteq> []"
    using that by (metis append_butlast_last_id list.simps(8,9) map_append)
  then show ?thesis
    by (cases "outs = []") (auto simp: fanout_send_def split: prod.splits option.splits sum.splits)
qed

text \<open>In a memory buffer an accepted batch is at the tail of the ring of its signal.\<close>

definition accepted :: "'b SignalBatch \<Rightarrow> ('b, 's) BufferInner \<Rightarrow> bool" where
  "accepted batch st = (case signal_of batch of (sig, b) \<Rightarrow>
     \<exists>q x. queue (the_ring sig st) = q @ [x] \<and> qb_payload x = InMemory b \<and> view (the_ring sig st) (qb_seq_id x) = Some Queued)"

lemma admitted_queued:
  assumes "admit_turn clk ok sig bb br (Some b) active st = (Admitted s, active', st')"
  shows "\<exists>q x. queue (the_ring sig st') = q @ [x] \<and> qb_payload x = InMemory b \<and> view (the_ring sig st') (qb_seq_id x) = Some Queued"
  using admit_turn_rc(1) [OF assms] by (auto simp: to_rc admit_ring_def Let_def new_batch_def bt_get_bt_insert)

lemma reserved_queued:
  "reserve_or_enqueue_slot turns sig bb br (Some b) active st = (Some (Inr s), st') \<Longrightarrow>
   \<exists>q x. queue (the_ring sig st') = q @ [x] \<and> qb_payload x = InMemory b \<and> view (the_ring sig st') (qb_seq_id x) = Some Queued"
proof (induction turns arbitrary: active st)
  case (Cons t turns)
  obtain clk ok env out a st1 where t: "t = (clk, ok, env)" and run: "admit_turn clk ok sig bb br (Some b) active st = (out, a, st1)"
    by (metis surj_pair)
  show ?case
    using Cons admitted_queued [of clk ok sig bb br b active st _ a st1] run by (cases out) (auto simp: t)
qed simp

lemma memory_send_accepted:
  "output_send ao batch out = (Some (Inr ()), st) \<Longrightarrow> in_disk (fo_inner out) = None \<Longrightarrow> accepted batch st"
  by (auto simp: output_send_def send_def accepted_def try_bind_def Let_def split: prod.splits option.splits sum.splits
      dest!: reserved_queued)

section \<open>Properties\<close>

text \<open>
  C32. Fan-out is sequential and stops at the first output that refuses: the outputs before it have
  accepted this very batch, those behind it are untouched, and the call succeeds exactly when
  every output has accepted. An accepted batch is in the queue of its signal in every memory buffer.
  A fan-out without outputs cannot be built.
\<close>

theorem fanout_sequential:
  assumes "fanout_send ao batch outs = (res, sts)"
  shows "(\<exists>k. stopped_at ao batch outs res sts k) \<and> (res = Some (Inr ()) \<longleftrightarrow> stopped_at ao batch outs res sts (length outs)) \<and>
    (res = Some (Inr ()) \<longrightarrow> (\<forall>i < length outs. in_disk (fo_inner (outs ! i)) = None \<longrightarrow> accepted batch (sts ! i))) \<and>
    (fanout_try_new outs = Inr outs \<longleftrightarrow> outs \<noteq> [])"
proof -
  have "\<exists>k. stopped_at ao batch outs res sts k"
    using assms
  proof (induction outs arbitrary: sts)
    case Nil
    then show ?case by (simp add: fanout_send_def stopped_at_def)
  next
    case (Cons out outs)
    obtain r st where o: "output_send ao batch out = (r, st)" by fastforce
    show ?case
    proof (cases "r = Some (Inr ())")
      case True
      then obtain sts' where "fanout_send ao batch outs = (res, sts')" "sts = st # sts'"
        using Cons.prems o by (auto simp: fanout_send_Cons split: prod.splits)
      then show ?thesis using Cons.IH stopped_at_Cons o True by blast
    next
      case False
      then have "res = r \<and> sts = st # map fo_inner outs" and "r = None \<or> r = Some (Inl DownstreamClosed)"
        using Cons.prems o output_send_results [OF o] by (auto simp: fanout_send_Cons)
      then have "stopped_at ao batch (out # outs) res sts 0"
        using o by (auto simp: stopped_at_def nth_Cons split: nat.split)
      then show ?thesis by blast
    qed
  qed
  then have iff: "res = Some (Inr ()) \<longleftrightarrow> stopped_at ao batch outs res sts (length outs)"
    using stopped_at_end by blast
  have "accepted batch (sts ! i)" if "res = Some (Inr ())" "i < length outs" "in_disk (fo_inner (outs ! i)) = None" for i
  proof -
    have "output_send ao batch (outs ! i) = (Some (Inr ()), sts ! i)" using iff that(1,2) by (simp add: stopped_at_def)
    then show ?thesis using memory_send_accepted that(3) by blast
  qed
  then show ?thesis using \<open>\<exists>k. stopped_at ao batch outs res sts k\<close> iff by (simp add: fanout_try_new_def)
qed

theorem fanout_sequential_witness:
  "\<exists>res sts k. fanout_send byte_ops (LogsBatch [7]) (replicate 2
       \<lparr>fo_io = (\<lambda>_. \<lparr>si_turns = [(\<lparr>clk_now = 0, clk_unix_ms = 0\<rparr>, True, id)], si_clock = \<lparr>clk_now = 0, clk_unix_ms = 0\<rparr>,
           si_wm_ok = True, si_send_ok = True, si_meanwhile = id, si_reply = AppendPending\<rparr>),
        fo_join_ok = True, fo_inner = new_passthrough 1 (Inl DownstreamClosed) Map.empty\<rparr>) = (res, sts) \<and>
     (res = Some (Inr ()) \<longleftrightarrow> k = (2 :: nat)) \<and> length sts = 2"
  (is "\<exists>res sts k. fanout_send _ _ ?outs = _ \<and> _")
proof -
  obtain res sts where run: "fanout_send byte_ops (LogsBatch [7]) ?outs = (res, sts)" by fastforce
  from fanout_sequential [OF this] obtain k where "stopped_at byte_ops (LogsBatch [7]) ?outs res sts k" by blast
  then have e: "res = Some (Inr ()) \<longleftrightarrow> k = length ?outs" "length sts = length ?outs" using stopped_at_end by blast+
  have n: "length ?outs = 2" by (simp only: length_replicate)
  show ?thesis
    by (rule exI [of _ res], rule exI [of _ sts], rule exI [of _ k], intro conjI, rule run) (simp_all only: e n)
qed

end
