(* ===== verification/Sort.thy ===== *)
theory Sort
  imports Signals
begin

text \<open>
  Pre-sorting of record batches (\<open>crates/core/src/sort.rs\<close>): the shorthand syntax of a sort column
  (\<open>parse_shorthand\<close>), the normalisation of a \<open>SortConfig\<close> and \<open>BatchSorter\<close>.

  A string is a sequence of characters below 256; \<open>split_whitespace\<close> splits at the Unicode white
  space among them. The Arrow functions the sorter calls are the record \<open>sort_ops\<close>; \<open>sort_ops_ok\<close>
  states what their documentation promises, over the cells of a column.
\<close>

section \<open>Configuration\<close>

datatype SortDirection = Asc | Desc

datatype NullsPosition = NullsFirst | NullsLast

datatype MissingColumnAction = Skip | MissingError

datatype SortColumnDef = Shorthand string | Structured string SortDirection NullsPosition

record SortConfig =
  sc_on_missing_column :: MissingColumnAction
  sc_logs :: "SortColumnDef list"
  sc_metrics :: "SortColumnDef list"
  sc_traces :: "SortColumnDef list"

record SortOptions =
  descending :: bool
  nulls_first :: bool

record NormalizedSortKey =
  nk_column :: string
  nk_options :: SortOptions

section \<open>The shorthand\<close>

definition is_whitespace :: "char \<Rightarrow> bool" where
  "is_whitespace c \<longleftrightarrow>
     (let n = of_char c :: nat in (9 \<le> n \<and> n \<le> 13) \<or> n = 32 \<or> n = 133 \<or> n = 160)"

function split_whitespace :: "string \<Rightarrow> string list" where
  "split_whitespace [] = []"
| "split_whitespace (c # cs) =
     (if is_whitespace c then split_whitespace cs
      else (c # takeWhile (\<lambda>x. \<not> is_whitespace x) cs) # split_whitespace (dropWhile (\<lambda>x. \<not> is_whitespace x) cs))"
  by pat_completeness auto
termination
  by (relation "measure length") (auto simp: less_Suc_eq_le length_dropWhile_le)

definition to_ascii_uppercase :: "string \<Rightarrow> string" where
  "to_ascii_uppercase s =
     map (\<lambda>c. let n = of_char c :: nat in if 97 \<le> n \<and> n \<le> 122 then char_of (n - 32) else c) s"

text \<open>The loop over the tokens behind the column name.\<close>

fun parse_options :: "string list \<Rightarrow> bool \<Rightarrow> bool \<Rightarrow> (bool \<times> bool) result" where
  "parse_options [] desc nf = Inr (desc, nf)"
| "parse_options (t # ts) desc nf =
     (if to_ascii_uppercase t = ''ASC'' then parse_options ts False nf
      else if to_ascii_uppercase t = ''DESC'' then parse_options ts True nf
      else if to_ascii_uppercase t = ''NULLS'' then
        (case ts of
           [] \<Rightarrow> Inl (Internal ''Expected FIRST or LAST after NULLS in shorthand'')
         | u # us \<Rightarrow>
             if to_ascii_uppercase u = ''FIRST'' then parse_options us desc True
             else if to_ascii_uppercase u = ''LAST'' then parse_options us desc False
             else Inl (Internal ''Invalid NULLS option in shorthand''))
      else Inl (Internal ''Unexpected token in sort column shorthand''))"

definition parse_shorthand :: "string \<Rightarrow> NormalizedSortKey result" where
  "parse_shorthand input =
     (case split_whitespace input of
        [] \<Rightarrow> Inl (Internal ''Sort column shorthand cannot be empty'')
      | column # tokens \<Rightarrow>
          try_bind (parse_options tokens False False) (\<lambda>(desc, nf).
            Inr \<lparr>nk_column = column, nk_options = \<lparr>descending = desc, nulls_first = nf\<rparr>\<rparr>))"

fun normalize_column_defs :: "SortColumnDef list \<Rightarrow> NormalizedSortKey list result" where
  "normalize_column_defs [] = Inr []"
| "normalize_column_defs (d # ds) =
     try_bind (case d of
         Shorthand s \<Rightarrow> parse_shorthand s
       | Structured column direction nulls \<Rightarrow>
           Inr \<lparr>nk_column = column, nk_options = \<lparr>descending = (direction = Desc), nulls_first = (nulls = NullsFirst)\<rparr>\<rparr>)
       (\<lambda>k. try_bind (normalize_column_defs ds) (\<lambda>ks. Inr (k # ks)))"

section \<open>The sorter\<close>

record BatchSorter =
  bs_on_missing_column :: MissingColumnAction
  bs_logs_keys :: "NormalizedSortKey list"
  bs_metrics_keys :: "NormalizedSortKey list"
  bs_traces_keys :: "NormalizedSortKey list"

definition from_config :: "SortConfig \<Rightarrow> BatchSorter result" where
  "from_config config =
     try_bind (normalize_column_defs (sc_logs config)) (\<lambda>l.
     try_bind (normalize_column_defs (sc_metrics config)) (\<lambda>m.
     try_bind (normalize_column_defs (sc_traces config)) (\<lambda>t.
       Inr \<lparr>bs_on_missing_column = sc_on_missing_column config, bs_logs_keys = l, bs_metrics_keys = m, bs_traces_keys = t\<rparr>)))"

text \<open>Arrow: the batch with its columns, \<open>lexsort_to_indices\<close>, \<open>take\<close> and \<open>RecordBatch::try_new\<close>.\<close>

record ('b, 's, 'c) sort_ops =
  so_num_rows :: "'b \<Rightarrow> nat"
  so_schema :: "'b \<Rightarrow> 's"
  so_columns :: "'b \<Rightarrow> 'c list"
  so_column_by_name :: "'b \<Rightarrow> string \<Rightarrow> 'c option"
  so_lexsort_to_indices :: "('c \<times> SortOptions) list \<Rightarrow> string + nat list"
  so_take :: "'c \<Rightarrow> nat list \<Rightarrow> string + 'c"
  so_try_new :: "'s \<Rightarrow> 'c list \<Rightarrow> string + 'b"

definition map_arrow :: "string + 'a \<Rightarrow> 'a result" where
  "map_arrow r = (case r of Inl e \<Rightarrow> Inl (Arrow e) | Inr x \<Rightarrow> Inr x)"

definition sorter_keys :: "BatchSorter \<Rightarrow> SignalKind \<Rightarrow> NormalizedSortKey list" where
  "sorter_keys bs sig = (case sig of Logs \<Rightarrow> bs_logs_keys bs | Metrics \<Rightarrow> bs_metrics_keys bs | Traces \<Rightarrow> bs_traces_keys bs)"

definition lead_columns :: "('b, 's, 'c) sort_ops \<Rightarrow> BatchSorter \<Rightarrow> 'b \<Rightarrow> string option \<Rightarrow> ('c \<times> SortOptions) list result" where
  "lead_columns so bs batch lead_column =
     (case lead_column of
        None \<Rightarrow> Inr []
      | Some lead \<Rightarrow>
          (case so_column_by_name so batch lead of
             Some col \<Rightarrow> Inr [(col, \<lparr>descending = False, nulls_first = False\<rparr>)]
           | None \<Rightarrow>
               (case bs_on_missing_column bs of
                  MissingError \<Rightarrow> Inl (Internal ''Missing configured lead sort column'')
                | Skip \<Rightarrow> Inr [])))"

fun key_columns :: "('b, 's, 'c) sort_ops \<Rightarrow> MissingColumnAction \<Rightarrow> 'b \<Rightarrow> NormalizedSortKey list \<Rightarrow> ('c \<times> SortOptions) list result" where
  "key_columns so missing batch [] = Inr []"
| "key_columns so missing batch (key # keys) =
     (case so_column_by_name so batch (nk_column key) of
        Some col \<Rightarrow> try_bind (key_columns so missing batch keys) (\<lambda>cols. Inr ((col, nk_options key) # cols))
      | None \<Rightarrow>
          (case missing of
             MissingError \<Rightarrow> Inl (Internal ''Missing configured sort column'')
           | Skip \<Rightarrow> key_columns so missing batch keys))"

fun take_all :: "('b, 's, 'c) sort_ops \<Rightarrow> nat list \<Rightarrow> 'c list \<Rightarrow> string + 'c list" where
  "take_all so indices [] = Inr []"
| "take_all so indices (c # cs) =
     try_bind (so_take so c indices) (\<lambda>c'. try_bind (take_all so indices cs) (\<lambda>cs'. Inr (c' # cs')))"

definition sort_with_extra_lead_column ::
  "('b, 's, 'c) sort_ops \<Rightarrow> BatchSorter \<Rightarrow> 'b \<Rightarrow> SignalKind \<Rightarrow> string option \<Rightarrow> 'b result" where
  "sort_with_extra_lead_column so bs batch sig lead_column =
     (if so_num_rows so batch \<le> 1 then Inr batch
      else
        try_bind (lead_columns so bs batch lead_column) (\<lambda>lead.
        try_bind (key_columns so (bs_on_missing_column bs) batch (sorter_keys bs sig)) (\<lambda>keys.
          let sort_cols = lead @ keys
          in if sort_cols = [] then Inr batch
             else
               try_bind (map_arrow (so_lexsort_to_indices so sort_cols)) (\<lambda>indices.
               try_bind (map_arrow (take_all so indices (so_columns so batch))) (\<lambda>columns.
                 map_arrow (so_try_new so (so_schema so batch) columns))))))"

definition sort_batch :: "('b, 's, 'c) sort_ops \<Rightarrow> BatchSorter \<Rightarrow> 'b \<Rightarrow> SignalKind \<Rightarrow> 'b result" where
  "sort_batch so bs batch sig = sort_with_extra_lead_column so bs batch sig None"

section \<open>Lemmas on the shorthand\<close>

definition valid_column :: "string \<Rightarrow> bool" where
  "valid_column c \<longleftrightarrow> c \<noteq> [] \<and> list_all (\<lambda>x. \<not> is_whitespace x) c"

text \<open>The canonical spelling of a key, and the table that means the same.\<close>

definition show_key :: "NormalizedSortKey \<Rightarrow> string" where
  "show_key k = nk_column k @ (if descending (nk_options k) then '' DESC'' else '' ASC'') @
     (if nulls_first (nk_options k) then '' NULLS FIRST'' else '' NULLS LAST'')"

definition table_key :: "NormalizedSortKey \<Rightarrow> SortColumnDef" where
  "table_key k = Structured (nk_column k) (if descending (nk_options k) then Desc else Asc)
     (if nulls_first (nk_options k) then NullsFirst else NullsLast)"

lemma split_whitespace_valid: "t \<in> set (split_whitespace s) \<Longrightarrow> valid_column t"
proof (induction s rule: split_whitespace.induct)
  case (2 c cs)
  show ?case
  proof (cases "is_whitespace c")
    case True
    then show ?thesis using 2 by simp
  next
    case False
    then have "t = c # takeWhile (\<lambda>x. \<not> is_whitespace x) cs \<or> t \<in> set (split_whitespace (dropWhile (\<lambda>x. \<not> is_whitespace x) cs))"
      using 2(3) by simp
    moreover have "valid_column (c # takeWhile (\<lambda>x. \<not> is_whitespace x) cs)"
      using False set_takeWhileD [of _ "\<lambda>x. \<not> is_whitespace x" cs] by (simp add: valid_column_def list_all_iff)
    ultimately show ?thesis using 2(2) [OF False] by blast
  qed
qed simp

lemma split_whitespace_word:
  assumes "valid_column w" and "is_whitespace x"
  shows "split_whitespace (w @ x # rest) = w # split_whitespace rest"
proof -
  obtain c cs where w: "w = c # cs" "\<not> is_whitespace c" "\<forall>y \<in> set cs. \<not> is_whitespace y"
    using assms(1) by (cases w) (auto simp: valid_column_def list_all_iff)
  then have "takeWhile (\<lambda>y. \<not> is_whitespace y) (cs @ x # rest) = cs"
    "dropWhile (\<lambda>y. \<not> is_whitespace y) (cs @ x # rest) = x # rest"
    using assms(2) by auto
  then show ?thesis using w assms(2) by simp
qed

lemma parse_show_key:
  assumes "valid_column (nk_column k)"
  shows "parse_shorthand (show_key k) = Inr k"
proof -
  let ?ops = "[if descending (nk_options k) then ''DESC'' else ''ASC'', ''NULLS'', if nulls_first (nk_options k) then ''FIRST'' else ''LAST'']"
  have sp: "split_whitespace (show_key k) = nk_column k # ?ops"
    unfolding show_key_def
    by (cases "descending (nk_options k)"; cases "nulls_first (nk_options k)")
      (simp_all add: split_whitespace_word [OF assms] is_whitespace_def)
  have "parse_options ?ops False False = Inr (descending (nk_options k), nulls_first (nk_options k))"
    by (simp add: to_ascii_uppercase_def)
  then show ?thesis by (simp add: parse_shorthand_def sp)
qed

lemma parse_shorthand_column: "parse_shorthand s = Inr k \<Longrightarrow> valid_column (nk_column k)"
  using split_whitespace_valid [of _ s]
  by (auto simp: parse_shorthand_def try_bind_Inr split: list.splits)

section \<open>What the Arrow functions promise\<close>

text \<open>
  The order of two cells under \<open>SortOptions\<close> (nulls are placed independently of the direction),
  the lexicographic order of two rows, and the documented behaviour of the functions: \<open>cell\<close> reads
  a cell (\<open>None\<close> for null), \<open>clen\<close> is the length of a column, \<open>index_of\<close> looks a name up in a schema.
\<close>

fun cell_less :: "SortOptions \<Rightarrow> 'v::linorder option \<Rightarrow> 'v option \<Rightarrow> bool" where
  "cell_less ops None None = False"
| "cell_less ops None (Some y) = nulls_first ops"
| "cell_less ops (Some x) None = (\<not> nulls_first ops)"
| "cell_less ops (Some x) (Some y) = (if descending ops then y < x else x < y)"

fun row_le :: "('c \<Rightarrow> nat \<Rightarrow> 'v::linorder option) \<Rightarrow> ('c \<times> SortOptions) list \<Rightarrow> nat \<Rightarrow> nat \<Rightarrow> bool" where
  "row_le cell [] i j = True"
| "row_le cell ((c, ops) # ks) i j =
     (cell_less ops (cell c i) (cell c j) \<or> (cell c i = cell c j \<and> row_le cell ks i j))"

definition sort_ops_ok ::
  "('b, 's, 'c) sort_ops \<Rightarrow> ('c \<Rightarrow> nat \<Rightarrow> 'v::linorder option) \<Rightarrow> ('c \<Rightarrow> nat) \<Rightarrow> ('s \<Rightarrow> string \<Rightarrow> nat option) \<Rightarrow> bool" where
  "sort_ops_ok so cell clen index_of \<longleftrightarrow>
     (\<forall>b n. so_column_by_name so b n =
        (case index_of (so_schema so b) n of
           Some i \<Rightarrow> if i < length (so_columns so b) then Some (so_columns so b ! i) else None | None \<Rightarrow> None)) \<and>
     (\<forall>b. \<forall>c \<in> set (so_columns so b). clen c = so_num_rows so b) \<and>
     (\<forall>ks idx n. so_lexsort_to_indices so ks = Inr idx \<longrightarrow> ks \<noteq> [] \<longrightarrow> (\<forall>(c, ops) \<in> set ks. clen c = n) \<longrightarrow>
        mset idx = mset [0..<n] \<and> sorted_wrt (row_le cell ks) idx) \<and>
     (\<forall>c idx c'. so_take so c idx = Inr c' \<longrightarrow> clen c' = length idx \<and> (\<forall>i < length idx. cell c' i = cell c (idx ! i))) \<and>
     (\<forall>sch cs b. so_try_new so sch cs = Inr b \<longrightarrow> so_schema so b = sch \<and> so_columns so b = cs)"

lemma take_cell:
  "sort_ops_ok so cell clen index_of \<Longrightarrow> so_take so c idx = Inr c' \<Longrightarrow> i < length idx \<Longrightarrow> cell c' i = cell c (idx ! i)"
  unfolding sort_ops_ok_def by meson

lemma take_all_nth:
  "take_all so idx cs = Inr cs' \<Longrightarrow> list_all2 (\<lambda>c' c. so_take so c idx = Inr c') cs' cs"
proof (induction cs arbitrary: cs')
  case (Cons c cs)
  then show ?case by (auto simp: try_bind_Inr)
qed simp

definition taken :: "('b, 's, 'c) sort_ops \<Rightarrow> nat list \<Rightarrow> 'c \<times> SortOptions \<Rightarrow> 'c \<times> SortOptions \<Rightarrow> bool" where
  "taken so idx k' k \<longleftrightarrow> snd k' = snd k \<and> so_take so (fst k) idx = Inr (fst k')"

lemma key_columns_taken:
  assumes "\<And>n. rel_option (\<lambda>c' c. so_take so c idx = Inr c') (so_column_by_name so b' n) (so_column_by_name so b n)"
  shows "key_columns so missing b' keys = Inr ks' \<Longrightarrow> key_columns so missing b keys = Inr ks \<Longrightarrow> list_all2 (taken so idx) ks' ks"
proof (induction keys arbitrary: ks' ks)
  case (Cons k keys)
  then show ?case
    using assms [of "nk_column k"]
    by (cases missing) (auto simp: try_bind_Inr taken_def option_rel_Some1 split: option.splits)
qed simp

lemma lead_columns_taken:
  assumes "\<And>n. rel_option (\<lambda>c' c. so_take so c idx = Inr c') (so_column_by_name so b' n) (so_column_by_name so b n)"
    and "lead_columns so bs b' lead = Inr ks'" and "lead_columns so bs b lead = Inr ks"
  shows "list_all2 (taken so idx) ks' ks"
  using assms(2,3) assms(1) [of "the lead"]
  by (auto simp: lead_columns_def taken_def split: option.splits MissingColumnAction.splits)

lemma row_le_taken:
  assumes "list_all2 (taken so idx) ks' ks" and "sort_ops_ok so cell clen index_of" and "i < length idx" "j < length idx"
  shows "row_le cell ks' i j \<longleftrightarrow> row_le cell ks (idx ! i) (idx ! j)"
  using assms(1)
proof (induction rule: list_all2_induct)
  case (Cons k' ks' k ks)
  obtain c' ops c where k: "k' = (c', ops)" "k = (c, ops)" "so_take so c idx = Inr c'"
    using Cons(1) by (cases k', cases k) (auto simp: taken_def)
  then have "cell c' i = cell c (idx ! i)" "cell c' j = cell c (idx ! j)"
    using take_cell [OF assms(2)] assms(3,4) by blast+
  then show ?case using Cons.IH by (simp add: k)
qed simp

lemma sort_columns_of:
  assumes "lead_columns so bs b lead = Inr ls" and "key_columns so missing b keys = Inr ks"
    and "sort_ops_ok so cell clen index_of" and "(c, ops) \<in> set (ls @ ks)"
  shows "clen c = so_num_rows so b"
proof -
  have len: "clen c = so_num_rows so b" if "so_column_by_name so b n = Some c" for n c
    using assms(3) that unfolding sort_ops_ok_def by (auto split: option.splits if_splits)
  have "\<exists>n. so_column_by_name so b n = Some c" if "(c, ops) \<in> set ls"
    using assms(1) that by (auto simp: lead_columns_def split: option.splits MissingColumnAction.splits)
  moreover have "\<exists>n. so_column_by_name so b n = Some c" if "(c, ops) \<in> set ks"
    using assms(2) that
  proof (induction keys arbitrary: ks)
    case (Cons k keys)
    then show ?case by (auto simp: try_bind_Inr split: option.splits MissingColumnAction.splits)
  qed simp
  ultimately show ?thesis using assms(4) len by auto
qed

section \<open>Properties\<close>

text \<open>
  The shorthand syntax and the table syntax of a sort column describe the same keys: every key
  with a non-empty column name without white space is the meaning of its canonical spelling and of
  its table, and no shorthand means any other key.
\<close>

lemma shorthand_roundtrip:
  "(valid_column (nk_column k) \<longrightarrow> parse_shorthand (show_key k) = Inr k \<and>
      normalize_column_defs [Shorthand (show_key k)] = normalize_column_defs [table_key k]) \<and>
   (parse_shorthand s = Inr k \<longrightarrow> valid_column (nk_column k))"
  using parse_show_key [of k] parse_shorthand_column [of s k] by (simp add: table_key_def)


text \<open>
  An instance of the Arrow functions for the witness: rows of numbers under named columns, sorted by one
  ascending column without nulls.
\<close>

definition index_in :: "string list \<Rightarrow> string \<Rightarrow> nat option" where
  "index_in names n = List.find (\<lambda>i. names ! i = n) [0..<length names]"

definition cell_at :: "nat option list \<Rightarrow> nat \<Rightarrow> nat option" where
  "cell_at c i = (if i < length c then c ! i else None)"

definition table_ops :: "(string list \<times> (nat \<Rightarrow> nat option) list, string list, nat option list) sort_ops" where
  "table_ops =
     \<lparr>so_num_rows = (\<lambda>(names, rows). length rows), so_schema = fst,
      so_columns = (\<lambda>(names, rows). map (\<lambda>k. map (\<lambda>r. r k) rows) [0..<length names]),
      so_column_by_name = (\<lambda>(names, rows) n. case index_in names n of
          Some i \<Rightarrow> if i < length names then Some (map (\<lambda>r. r i) rows) else None | None \<Rightarrow> None),
      so_lexsort_to_indices = (\<lambda>ks. case ks of
          [(c, ops)] \<Rightarrow> if descending ops \<or> None \<in> set c then Inl ''unsupported''
                       else Inr (sort_key (\<lambda>i. the (c ! i)) [0..<length c])
        | _ \<Rightarrow> Inl ''unsupported''),
      so_take = (\<lambda>c idx. Inr (map (cell_at c) idx)),
      so_try_new = (\<lambda>names cs. let n = Max (insert 0 (set (map length cs)))
          in if length cs = length names \<and> list_all (\<lambda>c. length c = n) cs
             then Inr (names, map (\<lambda>i k. cs ! k ! i) [0..<n]) else Inl ''ragged'')\<rparr>"

lemma table_ops_ok: "sort_ops_ok table_ops cell_at length index_in"
proof -
  have lex: "mset idx = mset [0..<n] \<and> sorted_wrt (row_le cell_at ks) idx"
    if run: "so_lexsort_to_indices table_ops ks = Inr idx" and n: "\<forall>(c, ops) \<in> set ks. length c = n" for ks idx n
  proof -
    obtain c ops where k: "ks = [(c, ops)]" "\<not> descending ops" "None \<notin> set c" "idx = sort_key (\<lambda>i. the (c ! i)) [0..<length c]"
      using run by (cases ks; cases "tl ks"; cases "hd ks") (auto simp: table_ops_def split: if_splits)
    have "sorted (map (\<lambda>i. the (c ! i)) idx)" by (simp add: k(4))
    then have "sorted_wrt (\<lambda>i j. the (c ! i) \<le> the (c ! j)) idx" by (simp add: sorted_wrt_map)
    moreover have "row_le cell_at ks i j" if "i \<in> set idx" "j \<in> set idx" "the (c ! i) \<le> the (c ! j)" for i j
    proof -
      have "i < length c" "j < length c" using that(1,2) by (simp_all add: k(4))
      then obtain x y where "c ! i = Some x" "c ! j = Some y" using k(3) by (metis not_None_eq nth_mem)
      then show ?thesis using that(3) k(2) \<open>i < length c\<close> \<open>j < length c\<close> by (auto simp: k(1) cell_at_def)
    qed
    ultimately have "sorted_wrt (row_le cell_at ks) idx" by (rule sorted_wrt_mono_rel [rotated]) auto
    then show ?thesis using n by (simp add: k(1,4))
  qed
  have new: "so_schema table_ops b = names \<and> so_columns table_ops b = cs" if "so_try_new table_ops names cs = Inr b" for names cs b
  proof -
    define n where "n = Max (insert 0 (set (map length cs)))"
    have c: "length cs = length names" "list_all (\<lambda>c. length c = n) cs" "b = (names, map (\<lambda>i k. cs ! k ! i) [0..<n])"
      using that unfolding table_ops_def n_def by (simp_all add: Let_def split: if_splits)
    have "map (\<lambda>i. cs ! k ! i) [0..<n] = cs ! k" if "k < length cs" for k
      using map_nth [of "cs ! k"] c(2) that by (simp add: list_all_length)
    then have "map (\<lambda>k. map (\<lambda>i. cs ! k ! i) [0..<n]) [0..<length cs] = cs"
      by (intro nth_equalityI) simp_all
    then show ?thesis using c(1,3) by (simp add: table_ops_def comp_def)
  qed
  show ?thesis
    unfolding sort_ops_ok_def using lex new
    by (auto simp: table_ops_def cell_at_def split: option.split)
qed


end
