(* ===== verification/Quantities.thy ===== *)
theory Quantities
  imports Decimal Sort
begin

text \<open>
  Human-readable sizes and durations of the transformer's configuration
  (\<open>parse_byte_size\<close>, \<open>parse_duration\<close>, \<open>parse_duration_ms\<close> of \<open>crates/wasm-transformer/src/worker.rs\<close>).
  A duration is a number of milliseconds: the code builds no other ones from text.
\<close>

section \<open>Definitions\<close>

text \<open>\<open>str::trim\<close> and \<open>parse::<usize>\<close>, which accepts a plus sign.\<close>

definition trim :: "string \<Rightarrow> string" where
  "trim s = rev (dropWhile is_whitespace (rev (dropWhile is_whitespace s)))"

definition parse_uint :: "string \<Rightarrow> nat option" where
  "parse_uint s = (case s of CHR ''+'' # ds \<Rightarrow> parse_u64 ds | _ \<Rightarrow> parse_u64 s)"

definition scaled :: "nat \<Rightarrow> string \<Rightarrow> nat option" where
  "scaled unit num = Option.bind (parse_uint (trim num)) (\<lambda>n. checked_mul n unit)"

definition parse_byte_size :: "string \<Rightarrow> nat option" where
  "parse_byte_size s =
     (let trimmed = trim s
      in case strip_suffix ''GiB'' trimmed of Some num \<Rightarrow> scaled (1024 * 1024 * 1024) num | None \<Rightarrow>
         case strip_suffix ''GB'' trimmed of Some num \<Rightarrow> scaled (1000 * 1000 * 1000) num | None \<Rightarrow>
         case strip_suffix ''MiB'' trimmed of Some num \<Rightarrow> scaled (1024 * 1024) num | None \<Rightarrow>
         case strip_suffix ''MB'' trimmed of Some num \<Rightarrow> scaled (1000 * 1000) num | None \<Rightarrow>
         case strip_suffix ''KiB'' trimmed of Some num \<Rightarrow> scaled 1024 num | None \<Rightarrow>
         case strip_suffix ''KB'' trimmed of Some num \<Rightarrow> scaled 1000 num | None \<Rightarrow>
         case strip_suffix ''B'' trimmed of Some num \<Rightarrow> parse_uint (trim num) | None \<Rightarrow>
         parse_uint trimmed)"

definition parse_duration :: "string \<Rightarrow> nat option" where
  "parse_duration s =
     (let trimmed = trim s
      in case strip_suffix ''ms'' trimmed of Some num \<Rightarrow> parse_uint (trim num) | None \<Rightarrow>
         case strip_suffix ''s'' trimmed of Some num \<Rightarrow> map_option (\<lambda>n. n * 1000) (parse_uint (trim num)) | None \<Rightarrow>
         case strip_suffix ''m'' trimmed of
           Some num \<Rightarrow> map_option (\<lambda>n. n * 1000) (Option.bind (parse_uint (trim num)) (\<lambda>m. checked_mul m 60)) | None \<Rightarrow>
         map_option (\<lambda>n. n * 1000) (parse_uint trimmed))"

definition parse_duration_ms :: "string \<Rightarrow> nat option" where
  "parse_duration_ms s =
     (let trimmed = trim s
      in case strip_suffix ''ms'' trimmed of Some num \<Rightarrow> parse_uint (trim num) | None \<Rightarrow>
         case strip_suffix ''s'' trimmed of Some num \<Rightarrow> Option.bind (parse_uint (trim num)) (\<lambda>n. checked_mul n 1000) | None \<Rightarrow>
         parse_uint trimmed)"

text \<open>The number of 10 ms epochs granted for a duration, rounded up and at least one.\<close>

definition epoch_ticks :: "nat \<Rightarrow> nat" where
  "epoch_ticks millis = (let t = (millis + 9) div 10 in max 1 (if t \<le> u64_max then t else u64_max))"

section \<open>Lemmas\<close>

lemma trim_digits:
  assumes "list_all is_ascii_digit s"
  shows "trim s = s"
proof -
  have ws: "\<not> is_whitespace c" if "is_ascii_digit c" for c
    using that by (auto simp: is_ascii_digit_def is_whitespace_def Let_def)
  have "dropWhile is_whitespace t = t" if "list_all is_ascii_digit t" for t
    using that ws by (cases t) auto
  then show ?thesis using assms by (simp add: trim_def list_all_rev)
qed

lemma parse_uint_bound: "parse_uint s = Some n \<Longrightarrow> n \<le> u64_max"
  by (auto simp: parse_uint_def parse_u64_def split: list.splits char.splits bool.splits if_splits)

lemma parse_byte_size_bound: "parse_byte_size s = Some n \<Longrightarrow> n \<le> u64_max"
  by (auto simp: parse_byte_size_def scaled_def bind_eq_Some_conv checked_mul_def Let_def
      dest!: parse_uint_bound split: option.splits if_splits)

end
