(* ===== verification/SchemaGuard.thy ===== *)
theory SchemaGuard
  imports Signals "HOL-Library.Sublist"
begin

text \<open>
  The schema guard of the WebAssembly transformer (\<open>crates/wasm-transformer/src/guard.rs\<close>): what a
  guest may and may not do to a batch.

  Arrow's schema types are modelled by the shape the guard inspects: a field with its name, data
  type, nullability and metadata, and the data types that have child fields; every other data type
  is a \<open>DOther\<close>. A hash map of metadata is the list of its entries. Arrays are a type variable, with the
  Arrow functions on them in the record \<open>array_ops\<close>.
\<close>

section \<open>Errors, schemas and batches\<close>

datatype WasmTransformError =
    Wasmtime string
  | Oom string nat
  | AbiVersionMismatch nat
  | MissingExport string
  | Sha256Mismatch string string
  | InitFailed string
  | ExecutionTimeout nat
  | WasmIo string
  | Pipeline string
  | ArrowIpc string
  | InvalidMemoryBounds nat nat nat
  | Unrecoverable string

type_synonym metadata = "(string \<times> string) list"

datatype DataType =
    DStruct "Field list"
  | DList Field
  | DLargeList Field
  | DFixedSizeList Field int
  | DListView Field
  | DLargeListView Field
  | DMap Field bool
  | DOther string
and Field = Field (f_name: string) (f_type: DataType) (f_nullable: bool) (f_metadata: metadata)

record 'c RecordBatch =
  rb_fields :: "Field list"
  rb_metadata :: metadata
  rb_columns :: "'c list"
  rb_num_rows :: nat

record 'c array_ops =
  ar_len :: "'c \<Rightarrow> nat"
  ar_null_count :: "'c \<Rightarrow> nat"
  ar_data_type :: "'c \<Rightarrow> DataType"
  ar_new_null :: "DataType \<Rightarrow> nat \<Rightarrow> 'c"
  ar_try_new :: "Field list \<Rightarrow> metadata \<Rightarrow> 'c list \<Rightarrow> string + 'c RecordBatch"

text \<open>\<open>Schema::index_of\<close> (the first field of that name), \<open>get\<close> on a slice and equality of hash maps.\<close>

definition index_of :: "Field list \<Rightarrow> string \<Rightarrow> nat option" where
  "index_of flds name = List.find (\<lambda>i. f_name (flds ! i) = name) [0..<length flds]"

definition get_at :: "'a list \<Rightarrow> nat \<Rightarrow> 'a option" where
  "get_at xs i = (if i < length xs then Some (xs ! i) else None)"

definition metadata_eq :: "metadata \<Rightarrow> metadata \<Rightarrow> bool" where
  "metadata_eq a b \<longleftrightarrow> list_all (\<lambda>k. map_of a k = map_of b k) (map fst a @ map fst b)"

section \<open>Recursive nullability\<close>

fun make_field_recursively_nullable :: "Field \<Rightarrow> Field"
  and make_type_nullable :: "DataType \<Rightarrow> DataType" where
  "make_field_recursively_nullable (Field name ty nullable md) = Field name (make_type_nullable ty) True md"
| "make_type_nullable (DStruct subfields) = DStruct (map make_field_recursively_nullable subfields)"
| "make_type_nullable (DList child) = DList (make_field_recursively_nullable child)"
| "make_type_nullable (DLargeList child) = DLargeList (make_field_recursively_nullable child)"
| "make_type_nullable (DFixedSizeList child n) = DFixedSizeList (make_field_recursively_nullable child) n"
| "make_type_nullable (DListView child) = DListView (make_field_recursively_nullable child)"
| "make_type_nullable (DLargeListView child) = DLargeListView (make_field_recursively_nullable child)"
| "make_type_nullable (DMap child keys_sorted) = DMap (make_field_recursively_nullable child) keys_sorted"
| "make_type_nullable (DOther t) = DOther t"

section \<open>Structural immutability\<close>

definition IMMUTABLE_COLUMNS :: "string list" where
  "IMMUTABLE_COLUMNS = [''trace_id'', ''span_id'', ''timestamp'', ''observed_timestamp'', ''name'', ''type'']"

definition all_null :: "'c array_ops \<Rightarrow> 'c \<Rightarrow> bool" where
  "all_null ar col \<longleftrightarrow> ar_null_count ar col = ar_len ar col"

definition column_info :: "'c array_ops \<Rightarrow> string \<Rightarrow> 'c RecordBatch \<Rightarrow> WasmTransformError + (DataType \<times> bool) option" where
  "column_info ar col_name input =
     (case index_of (rb_fields input) col_name of
        None \<Rightarrow> Inr None
      | Some idx \<Rightarrow>
          (case get_at (rb_columns input) idx of
             None \<Rightarrow> Inl (Pipeline ''Column index out of bounds in input'')
           | Some col \<Rightarrow> Inr (Some (ar_data_type ar col, all_null ar col))))"

definition verify_column :: "'c array_ops \<Rightarrow> 'c RecordBatch \<Rightarrow> 'c RecordBatch \<Rightarrow> string \<Rightarrow> WasmTransformError + unit" where
  "verify_column ar input output col_name =
     try_bind (column_info ar col_name input) (\<lambda>input_col_info.
       let input_was_null = (case input_col_info of None \<Rightarrow> True | Some (_, was_null) \<Rightarrow> was_null)
       in case index_of (rb_fields output) col_name of
            Some idx \<Rightarrow>
              (case get_at (rb_columns output) idx of
                 None \<Rightarrow> Inl (Pipeline ''Column index out of bounds in output'')
               | Some col \<Rightarrow>
                   if (case input_col_info of Some (in_dtype, _) \<Rightarrow> ar_data_type ar col \<noteq> in_dtype | None \<Rightarrow> False)
                   then Inl (Pipeline ''Immutability violation: core field data type mutated'')
                   else if all_null ar col \<and> ar_len ar col \<noteq> 0 \<and> \<not> input_was_null
                   then Inl (Pipeline ''Immutability violation: core field is entirely null in output'')
                   else Inr ())
          | None \<Rightarrow>
              if \<not> input_was_null \<and> rb_num_rows output > 0
              then Inl (Pipeline ''Immutability violation: core field was dropped by guest'')
              else Inr ())"

fun verify_columns :: "'c array_ops \<Rightarrow> 'c RecordBatch \<Rightarrow> 'c RecordBatch \<Rightarrow> string list \<Rightarrow> WasmTransformError + unit" where
  "verify_columns ar input output [] = Inr ()"
| "verify_columns ar input output (c # cs) =
     try_bind (verify_column ar input output c) (\<lambda>_. verify_columns ar input output cs)"

definition verify_structural_immutability ::
  "'c array_ops \<Rightarrow> 'c RecordBatch \<Rightarrow> 'c RecordBatch \<Rightarrow> WasmTransformError + unit" where
  "verify_structural_immutability ar input output = verify_columns ar input output IMMUTABLE_COLUMNS"

definition verify_strict_schema_equality :: "'c RecordBatch \<Rightarrow> 'c RecordBatch \<Rightarrow> WasmTransformError + unit" where
  "verify_strict_schema_equality input output =
     (if rb_fields input \<noteq> rb_fields output \<or> \<not> metadata_eq (rb_metadata input) (rb_metadata output)
      then Inl (Pipeline ''Strict schema guard violation: output schema does not match input schema'')
      else Inr ())"

section \<open>Backfilling\<close>

text \<open>The lookup map is built by inserting the output fields in order: the last field of a name wins.\<close>

definition output_field_index :: "Field list \<Rightarrow> string \<Rightarrow> nat option" where
  "output_field_index flds name = List.find (\<lambda>i. f_name (flds ! i) = name) (rev [0..<length flds])"

fun keep_or_backfill ::
  "'c array_ops \<Rightarrow> 'c RecordBatch \<Rightarrow> Field list \<Rightarrow> WasmTransformError + (Field \<times> 'c) list \<times> bool" where
  "keep_or_backfill ar output [] = Inr ([], False)"
| "keep_or_backfill ar output (field # flds) =
     (case output_field_index (rb_fields output) (f_name field) of
        Some idx \<Rightarrow>
          (case get_at (rb_fields output) idx of
             None \<Rightarrow> Inl (Pipeline ''Field index out of bounds in output schema'')
           | Some out_field \<Rightarrow>
               if f_type out_field \<noteq> f_type field
               then Inl (Pipeline ''Defensive schema guard violation: column data type mutated'')
               else if f_nullable field \<noteq> f_nullable out_field
               then Inl (Pipeline ''Defensive schema guard violation: column nullability mutated'')
               else (case get_at (rb_columns output) idx of
                       None \<Rightarrow> Inl (Pipeline ''Column index out of bounds in output'')
                     | Some col \<Rightarrow>
                         try_bind (keep_or_backfill ar output flds) (\<lambda>(rest, added). Inr ((out_field, col) # rest, added))))
      | None \<Rightarrow>
          let backfilled = make_field_recursively_nullable field
          in try_bind (keep_or_backfill ar output flds) (\<lambda>(rest, added).
               Inr ((backfilled, ar_new_null ar (f_type backfilled) (rb_num_rows output)) # rest, True)))"

fun new_columns ::
  "Field list \<Rightarrow> 'c RecordBatch \<Rightarrow> (nat \<times> Field) list \<Rightarrow> WasmTransformError + (Field \<times> 'c) list" where
  "new_columns input_fields output [] = Inr []"
| "new_columns input_fields output ((idx, field) # rest) =
     (if index_of input_fields (f_name field) = None
      then if \<not> f_nullable field
           then Inl (Pipeline ''Defensive schema guard violation: newly added column must be nullable'')
           else (case get_at (rb_columns output) idx of
                   None \<Rightarrow> Inl (Pipeline ''Column index out of bounds in output'')
                 | Some col \<Rightarrow> try_bind (new_columns input_fields output rest) (\<lambda>r. Inr ((field, col) # r)))
      else new_columns input_fields output rest)"

definition is_compliance_key :: "string \<Rightarrow> bool" where
  "is_compliance_key k \<longleftrightarrow> prefix ''otel::compliance::'' k"

definition compliance_mutated :: "metadata \<Rightarrow> metadata \<Rightarrow> bool" where
  "compliance_mutated input_md output_md \<longleftrightarrow>
     list_ex (\<lambda>(k, v). is_compliance_key k \<and> (case map_of input_md k of Some u \<Rightarrow> u \<noteq> v | None \<Rightarrow> False)) output_md"

definition merge_metadata :: "metadata \<Rightarrow> metadata \<Rightarrow> metadata" where
  "merge_metadata input_md output_md =
     input_md @ filter (\<lambda>(k, v). \<not> is_compliance_key k \<and> map_of input_md k = None) output_md"

definition backfill_missing_columns ::
  "'c array_ops \<Rightarrow> Field list \<Rightarrow> metadata \<Rightarrow> 'c RecordBatch \<Rightarrow> WasmTransformError + 'c RecordBatch" where
  "backfill_missing_columns ar input_fields input_md output =
     try_bind (keep_or_backfill ar output input_fields) (\<lambda>(kept, added).
     try_bind (new_columns input_fields output (zip [0..<length (rb_fields output)] (rb_fields output))) (\<lambda>new.
       if compliance_mutated input_md (rb_metadata output)
       then Inl (Pipeline ''Defensive schema guard violation: guest attempted to mutate compliance metadata'')
       else
         let flds = map fst (kept @ new); columns = map snd (kept @ new);
             merged = merge_metadata input_md (rb_metadata output)
         in if \<not> added \<and> rb_fields output = flds \<and> metadata_eq (rb_metadata output) merged
            then Inr output
            else (case ar_try_new ar flds merged columns of
                    Inl e \<Rightarrow> Inl (Pipeline e) | Inr b \<Rightarrow> Inr b)))"

section \<open>Lemmas\<close>

lemma index_of_Some: "index_of flds name = Some i \<Longrightarrow> i < length flds \<and> f_name (flds ! i) = name"
  by (auto simp: index_of_def find_Some_iff)

lemma field_names_nth: "name \<in> f_name ` set flds \<longleftrightarrow> (\<exists>i < length flds. f_name (flds ! i) = name)"
  by (metis imageE imageI in_set_conv_nth)

lemma index_of_None: "index_of flds name = None \<longleftrightarrow> name \<notin> f_name ` set flds"
  unfolding field_names_nth by (auto simp: index_of_def find_None_iff)

lemma output_field_index_Some: "output_field_index flds name = Some i \<Longrightarrow> i < length flds \<and> f_name (flds ! i) = name"
  using List.find_Some_iff [of "\<lambda>i. f_name (flds ! i) = name" "rev [0..<length flds]" i]
  by (auto simp: output_field_index_def) (metis length_rev length_upt minus_nat.diff_0 nth_mem set_rev set_upt atLeastLessThan_iff)

lemma output_field_index_None: "output_field_index flds name = None \<longleftrightarrow> name \<notin> f_name ` set flds"
  unfolding field_names_nth by (auto simp: output_field_index_def find_None_iff)

text \<open>A field that is nullable at every depth.\<close>

fun fully_nullable :: "Field \<Rightarrow> bool" and type_fully_nullable :: "DataType \<Rightarrow> bool" where
  "fully_nullable (Field name ty nullable md) \<longleftrightarrow> nullable \<and> type_fully_nullable ty"
| "type_fully_nullable (DStruct subfields) \<longleftrightarrow> (\<forall>f \<in> set subfields. fully_nullable f)"
| "type_fully_nullable (DList child) \<longleftrightarrow> fully_nullable child"
| "type_fully_nullable (DLargeList child) \<longleftrightarrow> fully_nullable child"
| "type_fully_nullable (DFixedSizeList child n) \<longleftrightarrow> fully_nullable child"
| "type_fully_nullable (DListView child) \<longleftrightarrow> fully_nullable child"
| "type_fully_nullable (DLargeListView child) \<longleftrightarrow> fully_nullable child"
| "type_fully_nullable (DMap child keys_sorted) \<longleftrightarrow> fully_nullable child"
| "type_fully_nullable (DOther t) \<longleftrightarrow> True"

lemma make_nullable_full:
  "fully_nullable (make_field_recursively_nullable f)" "type_fully_nullable (make_type_nullable t)"
  by (induction f and t rule: make_field_recursively_nullable_make_type_nullable.induct) auto

lemma f_name_make_nullable [simp]: "f_name (make_field_recursively_nullable f) = f_name f"
  by (cases f) simp

text \<open>What the guard makes of an input field.\<close>

definition kept_field :: "Field list \<Rightarrow> Field \<Rightarrow> Field \<Rightarrow> bool" where
  "kept_field out_fields f g \<longleftrightarrow> f_name g = f_name f \<and>
     (if f_name f \<in> f_name ` set out_fields then g \<in> set out_fields \<and> f_type g = f_type f \<and> f_nullable g = f_nullable f
      else g = make_field_recursively_nullable f \<and> fully_nullable g)"

lemma keep_or_backfill_kept:
  "keep_or_backfill ar output flds = Inr (kept, added) \<Longrightarrow> list_all2 (kept_field (rb_fields output)) flds (map fst kept)"
proof (induction flds arbitrary: kept added)
  case (Cons f flds)
  show ?case
  proof (cases "output_field_index (rb_fields output) (f_name f)")
    case None
    then obtain rest a where "keep_or_backfill ar output flds = Inr (rest, a)" and k: "map fst kept = make_field_recursively_nullable f # map fst rest"
      using Cons.prems by (auto simp: Let_def try_bind_Inr)
    then show ?thesis
      using Cons.IH None make_nullable_full(1) [of f] by (simp add: kept_field_def output_field_index_None)
  next
    case (Some i)
    note F = output_field_index_Some [OF Some]
    then obtain col rest a where r: "keep_or_backfill ar output flds = Inr (rest, a)" and k: "map fst kept = rb_fields output ! i # map fst rest"
      and t: "f_type (rb_fields output ! i) = f_type f" "f_nullable (rb_fields output ! i) = f_nullable f"
      using Cons.prems Some by (auto simp: get_at_def try_bind_Inr split: if_splits)
    have "rb_fields output ! i \<in> set (rb_fields output)" and "f_name f \<in> f_name ` set (rb_fields output)"
      using F by (auto simp: field_names_nth)
    then have "kept_field (rb_fields output) f (rb_fields output ! i)" using F t by (simp add: kept_field_def)
    then show ?thesis using Cons.IH [OF r] by (simp add: k)
  qed
qed simp

lemma filter_enumerated: "length is = length xs \<Longrightarrow> map snd (filter (\<lambda>(i, f). P f) (zip is xs)) = filter P xs"
  by (induction "is" xs rule: list_induct2) auto

lemma new_columns_new:
  assumes "new_columns input_fields output ifs = Inr new" and "\<And>i f. (i, f) \<in> set ifs \<Longrightarrow> f \<in> set (rb_fields output)"
  shows "map fst new = map snd (filter (\<lambda>(i, f). f_name f \<notin> f_name ` set input_fields) ifs) \<and>
    (\<forall>f \<in> set (map fst new). f_nullable f \<and> f \<in> set (rb_fields output) \<and> f_name f \<notin> f_name ` set input_fields)"
  using assms
proof (induction ifs arbitrary: new)
  case (Cons x ifs)
  obtain i f where x: "x = (i, f)" by (cases x)
  show ?case
  proof (cases "index_of input_fields (f_name f) = None")
    case True
    then obtain col rest where "f_nullable f" "new_columns input_fields output ifs = Inr rest" "new = (f, col) # rest"
      using Cons.prems(1) by (auto simp: x try_bind_Inr split: if_splits option.splits)
    then show ?thesis using Cons.IH [of rest] Cons.prems(2) True by (auto simp: x index_of_None)
  next
    case False
    then show ?thesis using Cons.IH [of new] Cons.prems by (auto simp: x index_of_None)
  qed
qed simp

lemma map_of_merge_metadata:
  "map_of (merge_metadata input_md output_md) k =
     (case map_of input_md k of Some v \<Rightarrow> Some v
      | None \<Rightarrow> if is_compliance_key k then None else map_of output_md k)"
proof -
  have "map_of (filter (\<lambda>(k, v). P k) xs) k = (if P k then map_of xs k else None)" for P and xs :: metadata
    by (induction xs) auto
  from this [of "\<lambda>k. \<not> is_compliance_key k \<and> map_of input_md k = None" output_md]
  show ?thesis by (auto simp: merge_metadata_def map_add_def split: option.split)
qed

lemma metadata_eq_map_of: "metadata_eq a b \<Longrightarrow> map_of a = map_of b"
proof
  fix k assume e: "metadata_eq a b"
  show "map_of a k = map_of b k"
  proof (cases "k \<in> fst ` set a \<union> fst ` set b")
    case True
    then show ?thesis using e by (auto simp: metadata_eq_def list_all_iff)
  next
    case False
    then show ?thesis by (simp add: map_of_eq_None_iff [THEN iffD2])
  qed
qed

lemma verify_columns_iff:
  "verify_columns ar input output cs = Inr () \<longleftrightarrow> (\<forall>c \<in> set cs. verify_column ar input output c = Inr ())"
  by (induction cs) (auto simp: try_bind_def split: sum.split)

text \<open>\<open>RecordBatch::try_new\<close> builds the batch from the parts it is given or fails.\<close>

definition try_new_ok :: "'c array_ops \<Rightarrow> bool" where
  "try_new_ok ar \<longleftrightarrow> (\<forall>flds md cols b. ar_try_new ar flds md cols = Inr b \<longrightarrow>
     rb_fields b = flds \<and> rb_metadata b = md \<and> rb_columns b = cols)"

lemma backfill_result:
  assumes "try_new_ok ar" and "backfill_missing_columns ar input_fields input_md output = Inr b"
  obtains kept added new where "keep_or_backfill ar output input_fields = Inr (kept, added)"
    "new_columns input_fields output (zip [0..<length (rb_fields output)] (rb_fields output)) = Inr new"
    "rb_fields b = map fst (kept @ new)" "map_of (rb_metadata b) = map_of (merge_metadata input_md (rb_metadata output))"
proof -
  obtain kept added new where r: "keep_or_backfill ar output input_fields = Inr (kept, added)"
    "new_columns input_fields output (zip [0..<length (rb_fields output)] (rb_fields output)) = Inr new"
    using assms(2) by (auto simp: backfill_missing_columns_def try_bind_Inr)
  then have "rb_fields b = map fst (kept @ new) \<and> map_of (rb_metadata b) = map_of (merge_metadata input_md (rb_metadata output))"
    using assms by (auto simp: backfill_missing_columns_def try_new_ok_def Let_def metadata_eq_map_of split: if_splits sum.splits)
  with r show thesis by (intro that) auto
qed

section \<open>Properties\<close>

text \<open>
  C26. In defensive mode every batch that passes the guard keeps the schema the sinks rely on: the input
  fields come first, in order, with unchanged type and nullability; a dropped column is back as a column that
  is nullable at every depth; the columns behind them are the guest's new ones, in order and nullable;
  and no metadata of the input is lost or changed, nor is a compliance entry added.
\<close>

theorem backfill_schema:
  assumes "try_new_ok ar" and "backfill_missing_columns ar input_fields input_md output = Inr b"
  shows "(\<exists>kept. rb_fields b = kept @ filter (\<lambda>f. f_name f \<notin> f_name ` set input_fields) (rb_fields output) \<and>
        list_all2 (kept_field (rb_fields output)) input_fields kept) \<and>
    (\<forall>f \<in> set (rb_fields b). f_name f \<notin> f_name ` set input_fields \<longrightarrow> f_nullable f) \<and>
    (\<forall>k. (map_of input_md k \<noteq> None \<or> is_compliance_key k) \<longrightarrow> map_of (rb_metadata b) k = map_of input_md k)"
proof (rule backfill_result [OF assms])
  fix kept added new
  assume k: "keep_or_backfill ar output input_fields = Inr (kept, added)"
    and n: "new_columns input_fields output (zip [0..<length (rb_fields output)] (rb_fields output)) = Inr new"
    and b: "rb_fields b = map fst (kept @ new)" "map_of (rb_metadata b) = map_of (merge_metadata input_md (rb_metadata output))"
  note K = keep_or_backfill_kept [OF k]
  have N: "map fst new = map snd (filter (\<lambda>(i, f). f_name f \<notin> f_name ` set input_fields) (zip [0..<length (rb_fields output)] (rb_fields output)))"
    "\<forall>f \<in> set (map fst new). f_nullable f"
    using new_columns_new [OF n] by (auto dest: set_zip_rightD)
  have new: "map fst new = filter (\<lambda>f. f_name f \<notin> f_name ` set input_fields) (rb_fields output)"
    unfolding N(1) by (rule filter_enumerated) simp
  have names: "f_name f \<in> f_name ` set input_fields" if "f \<in> set (map fst kept)" for f
    using K that by (fastforce simp: list_all2_conv_all_nth in_set_conv_nth kept_field_def)
  have nul: "\<forall>f \<in> set (rb_fields b). f_name f \<notin> f_name ` set input_fields \<longrightarrow> f_nullable f"
    using names N(2) by (auto simp: b(1))
  show ?thesis
    using K nul by (intro conjI exI [of _ "map fst kept"]) (auto simp: b new map_of_merge_metadata split: option.splits)
qed

text \<open>Columns of numbers for the examples.\<close>

definition list_arrays :: "nat option list array_ops" where
  "list_arrays = \<lparr>ar_len = length, ar_null_count = (\<lambda>c. length (filter (\<lambda>x. x = None) c)), ar_data_type = (\<lambda>_. DOther ''UInt64''),
     ar_new_null = (\<lambda>_ n. replicate n None),
     ar_try_new = (\<lambda>flds md cols. Inr \<lparr>rb_fields = flds, rb_metadata = md, rb_columns = cols,
        rb_num_rows = (case cols of [] \<Rightarrow> 0 | c # _ \<Rightarrow> length c)\<rparr>)\<rparr>"

definition id_field :: Field where
  "id_field = Field ''trace_id'' (DOther ''UInt64'') True []"

definition id_batch :: "nat option list list \<Rightarrow> nat option list RecordBatch" where
  "id_batch cols = \<lparr>rb_fields = replicate (length cols) id_field, rb_metadata = [], rb_columns = cols, rb_num_rows = 1\<rparr>"

theorem backfill_schema_witness:
  "\<exists>b. backfill_missing_columns list_arrays [id_field] [(''otel::compliance::status'', ''verified'')] (id_batch []) = Inr b \<and>
     map f_name (rb_fields b) = [''trace_id''] \<and> map_of (rb_metadata b) ''otel::compliance::status'' = Some ''verified''"
proof -
  obtain b where run: "backfill_missing_columns list_arrays [id_field] [(''otel::compliance::status'', ''verified'')] (id_batch []) = Inr b"
    by (simp add: backfill_missing_columns_def id_batch_def output_field_index_def list_arrays_def compliance_mutated_def)
  have "try_new_ok list_arrays" by (simp add: try_new_ok_def list_arrays_def)
  from backfill_schema [OF this run] obtain kept where "rb_fields b = kept" "list_all2 (kept_field []) [id_field] kept"
    "map_of (rb_metadata b) ''otel::compliance::status'' = Some ''verified''"
    by (auto simp: id_batch_def)
  then show ?thesis using run by (auto simp: list_all2_Cons1 kept_field_def id_field_def)
qed

end
