(* ===== verification/WasmWorker.thy ===== *)
theory WasmWorker
  imports Quantities SchemaGuard
begin

text \<open>
  A worker of the WebAssembly transformer (\<open>crates/wasm-transformer/src/worker.rs\<close>) and the module
  cache it reads (\<open>engine.rs\<close>): instantiating a guest, handing a batch to it, checking the response it left in
  its linear memory, and replacing the instance.

  Wasmtime is third-party code. A guest is a state \<open>'g\<close> (store and instance); its exports are
  functions on that state, and its linear memory is the byte list \<open>wo_memory\<close>, out of which a read
  succeeds exactly when it is in bounds. Arrow IPC, JSON and UTF-8 decoding are arguments too.
\<close>

section \<open>Configuration\<close>

datatype OnErrorPolicy = RerouteErrors | DropErrors | PassErrors

datatype OnRejectPolicy = RerouteRejects | DropRejects

datatype SchemaGuardMode = Defensive | Strict

record WasmTransformerConfig =
  wt_id :: string
  wt_module_path :: string
  wt_sha256 :: "string option"
  wt_max_execution_duration :: string
  wt_drain_timeout :: string
  wt_max_batch_rows :: nat
  wt_concurrency :: nat
  wt_worker_channel_capacity :: nat
  wt_max_memory :: string
  wt_rejuvenate_threshold :: string
  wt_rejuvenate_batches :: nat
  wt_init_timeout :: string
  wt_on_error :: OnErrorPolicy
  wt_allow_unmasked_passthrough :: bool
  wt_on_reject :: OnRejectPolicy
  wt_schema_guard :: SchemaGuardMode
  wt_env_whitelist :: "string list"
  wt_env :: "(string \<times> string) list"
  wt_config :: "string option"
  wt_enable_sighup :: bool

section \<open>The module cache\<close>

record 'm EngineCache =
  ec_snapshot :: "('m \<times> nat) option"
  ec_generation :: nat

definition engine_new :: "'m EngineCache" where
  "engine_new = \<lparr>ec_snapshot = None, ec_generation = 0\<rparr>"

definition publish_module :: "'m \<Rightarrow> 'm EngineCache \<Rightarrow> nat \<times> 'm EngineCache" where
  "publish_module m ec =
     (let new_gen = ec_generation ec + 1
      in (new_gen, ec\<lparr>ec_snapshot := Some (m, new_gen), ec_generation := new_gen\<rparr>))"

definition advance_generation :: "'m EngineCache \<Rightarrow> nat \<times> 'm EngineCache" where
  "advance_generation ec =
     (let new_gen = atomic_add (ec_generation ec) 1
      in (new_gen, ec\<lparr>ec_generation := new_gen, ec_snapshot := map_option (\<lambda>(m, _). (m, new_gen)) (ec_snapshot ec)\<rparr>))"

section \<open>The guest\<close>

text \<open>A failed call: the error chain as text and whether it is an interrupt trap.\<close>

record call_error =
  ce_chain :: string
  ce_interrupt :: bool

datatype 'g TransformFn =
    TransformV1 "nat \<Rightarrow> nat \<Rightarrow> nat \<Rightarrow> 'g \<Rightarrow> (call_error + nat) \<times> 'g"
  | TransformLegacy "nat \<Rightarrow> nat \<Rightarrow> 'g \<Rightarrow> (call_error + nat) \<times> 'g"

record 'g GuestComponents =
  gc_store :: 'g
  gc_alloc :: "nat \<Rightarrow> 'g \<Rightarrow> (call_error + nat) \<times> 'g"
  gc_dealloc :: "nat \<Rightarrow> nat \<Rightarrow> 'g \<Rightarrow> (string + unit) \<times> 'g"
  gc_transform :: "'g TransformFn"

record ('c, 'g, 'm) wasm_ops =
  wo_array :: "'c array_ops"
  wo_serialize :: "'c RecordBatch \<Rightarrow> string + byte list"
  wo_read_stream :: "byte list \<Rightarrow> string + (string + 'c RecordBatch) list"
  wo_utf8_lossy :: "byte list \<Rightarrow> string"
  wo_init_json :: "string \<Rightarrow> (string \<times> string) list \<Rightarrow> string option \<Rightarrow> string + byte list"
  wo_env_var :: "string \<Rightarrow> string option"
  wo_instantiate :: "'m \<Rightarrow> nat \<Rightarrow> string + 'g"
  wo_abi_version :: "'g \<Rightarrow> ('g \<Rightarrow> (call_error + nat) \<times> 'g) option"
  wo_alloc :: "'g \<Rightarrow> (nat \<Rightarrow> 'g \<Rightarrow> (call_error + nat) \<times> 'g) option"
  wo_dealloc :: "'g \<Rightarrow> (nat \<Rightarrow> nat \<Rightarrow> 'g \<Rightarrow> (string + unit) \<times> 'g) option"
  wo_transform_v1 :: "'g \<Rightarrow> (nat \<Rightarrow> nat \<Rightarrow> nat \<Rightarrow> 'g \<Rightarrow> (call_error + nat) \<times> 'g) option"
  wo_transform_legacy :: "'g \<Rightarrow> (nat \<Rightarrow> nat \<Rightarrow> 'g \<Rightarrow> (call_error + nat) \<times> 'g) option"
  wo_has_memory :: "'g \<Rightarrow> bool"
  wo_init :: "'g \<Rightarrow> (nat \<Rightarrow> nat \<Rightarrow> 'g \<Rightarrow> (call_error + int) \<times> 'g) option"
  wo_memory :: "'g \<Rightarrow> byte list"
  wo_write :: "nat \<Rightarrow> byte list \<Rightarrow> 'g \<Rightarrow> (string + unit) \<times> 'g"
  wo_set_deadline :: "nat \<Rightarrow> 'g \<Rightarrow> 'g"
  wo_execution_phase :: "'g \<Rightarrow> 'g"

text \<open>\<open>Memory::read\<close>.\<close>

definition memory_read :: "byte list \<Rightarrow> nat \<Rightarrow> nat \<Rightarrow> byte list option" where
  "memory_read mem offset len = (if offset + len \<le> length mem then Some (take len (drop offset mem)) else None)"

subsection \<open>Instantiation\<close>

text \<open>\<open>filter_environment_variables\<close> of \<open>wasi_env.rs\<close>: later entries replace earlier ones.\<close>

definition filter_environment_variables :: "(string \<Rightarrow> string option) \<Rightarrow> string list \<Rightarrow> (string \<times> string) list \<Rightarrow> (string \<times> string) list" where
  "filter_environment_variables env_var whitelist static_env =
     (let ambient = List.map_filter (\<lambda>k. map_option (Pair k) (env_var k)) whitelist
      in static_env @ filter (\<lambda>(k, _). map_of static_env k = None) ambient)"

definition run_init :: "('c, 'g, 'm) wasm_ops \<Rightarrow> WasmTransformerConfig \<Rightarrow> 'g GuestComponents \<Rightarrow> WasmTransformError + 'g GuestComponents" where
  "run_init wo cfg gc =
     (case wo_init wo (gc_store gc) of
        None \<Rightarrow> Inr gc
      | Some init_fn \<Rightarrow>
          (case wo_init_json wo (case map_of (wt_env cfg) ''signal'' of Some s \<Rightarrow> s | None \<Rightarrow> ''unknown'')
                  (filter_environment_variables (wo_env_var wo) (wt_env_whitelist cfg) (wt_env cfg)) (wt_config cfg) of
             Inl e \<Rightarrow> Inl (InitFailed e)
           | Inr init_bytes \<Rightarrow>
               if length init_bytes > u32_max then Inl (InitFailed ''Config JSON exceeds u32 limit'')
               else (case gc_alloc gc (length init_bytes) (gc_store gc) of
                       (Inl e, _) \<Rightarrow> Inl (InitFailed (ce_chain e))
                     | (Inr ptr, g1) \<Rightarrow>
                         if ptr = 0 then Inl (InitFailed ''datalake_alloc returned null pointer during initialization'')
                         else (case wo_write wo ptr init_bytes g1 of
                                 (Inl e, _) \<Rightarrow> Inl (InitFailed e)
                               | (Inr _, g2) \<Rightarrow>
                                   (case init_fn ptr (length init_bytes) g2 of
                                      (Inl e, _) \<Rightarrow> Inl (InitFailed (ce_chain e))
                                    | (Inr init_status, g3) \<Rightarrow>
                                        let g4 = snd (gc_dealloc gc ptr (length init_bytes) g3)
                                        in if init_status \<noteq> 0 then Inl (InitFailed ''datalake_init returned non-zero status'')
                                           else Inr (gc\<lparr>gc_store := g4\<rparr>))))))"

definition find_transform :: "('c, 'g, 'm) wasm_ops \<Rightarrow> 'g \<Rightarrow> 'g TransformFn option" where
  "find_transform wo g =
     (case wo_transform_v1 wo g of
        Some f \<Rightarrow> Some (TransformV1 f)
      | None \<Rightarrow> map_option TransformLegacy (wo_transform_legacy wo g))"

definition instantiate_guest ::
  "('c, 'g, 'm) wasm_ops \<Rightarrow> 'm \<Rightarrow> WasmTransformerConfig \<Rightarrow> WasmTransformError + 'g GuestComponents" where
  "instantiate_guest wo m cfg =
     (let init_ticks = epoch_ticks (case parse_duration (wt_init_timeout cfg) of Some d \<Rightarrow> d | None \<Rightarrow> 2000)
      in case wo_instantiate wo m init_ticks of
           Inl e \<Rightarrow> Inl (Wasmtime e)
         | Inr g0 \<Rightarrow>
             (case wo_abi_version wo g0 of
                None \<Rightarrow> Inl (MissingExport ''datalake_abi_version'')
              | Some version_fn \<Rightarrow>
                  (case version_fn g0 of
                     (Inl e, _) \<Rightarrow> Inl (InitFailed ''Failed to call datalake_abi_version'')
                   | (Inr version, g) \<Rightarrow>
                       if version \<noteq> 1 then Inl (AbiVersionMismatch version)
                       else (case wo_alloc wo g of
                               None \<Rightarrow> Inl (MissingExport ''datalake_alloc'')
                             | Some alloc \<Rightarrow>
                                 (case wo_dealloc wo g of
                                    None \<Rightarrow> Inl (MissingExport ''datalake_dealloc'')
                                  | Some dealloc \<Rightarrow>
                                      (case find_transform wo g of
                                         None \<Rightarrow> Inl (MissingExport ''datalake_transform'')
                                       | Some transform \<Rightarrow>
                                           if \<not> wo_has_memory wo g then Inl (MissingExport ''memory'')
                                           else try_bind (run_init wo cfg \<lparr>gc_store = g, gc_alloc = alloc, gc_dealloc = dealloc,
                                                                           gc_transform = transform\<rparr>)
                                                  (\<lambda>gc. Inr (gc\<lparr>gc_store := wo_execution_phase wo (gc_store gc)\<rparr>))))))))"

section \<open>Reading the response\<close>

record ParsedHeader =
  ph_status :: nat
  ph_batch_count :: nat
  ph_batches_ptr :: nat
  ph_message_ptr :: nat
  ph_message_len :: nat

definition u32_at :: "byte list \<Rightarrow> nat \<Rightarrow> nat" where
  "u32_at bs i = le_nat (take 4 (drop i bs))"

definition read_response_header :: "byte list \<Rightarrow> nat \<Rightarrow> WasmTransformError + ParsedHeader" where
  "read_response_header mem header_ptr =
     (case memory_read mem header_ptr 20 of
        None \<Rightarrow> Inl (Pipeline ''out of bounds memory access'')
      | Some h \<Rightarrow> Inr \<lparr>ph_status = u32_at h 0, ph_batch_count = u32_at h 4, ph_batches_ptr = u32_at h 8,
                        ph_message_ptr = u32_at h 12, ph_message_len = u32_at h 16\<rparr>)"

definition MAX_GUEST_MESSAGE_LEN :: nat where
  "MAX_GUEST_MESSAGE_LEN = 64 * 1024"

definition read_guest_message :: "(byte list \<Rightarrow> string) \<Rightarrow> byte list \<Rightarrow> nat \<Rightarrow> nat \<Rightarrow> string" where
  "read_guest_message utf8_lossy mem message_ptr message_len =
     (if message_ptr = 0 \<or> message_len = 0 then []
      else case memory_read mem message_ptr (min message_len MAX_GUEST_MESSAGE_LEN) of
             None \<Rightarrow> [] | Some buf \<Rightarrow> utf8_lossy buf)"

definition MAX_GUEST_BATCH_COUNT :: nat where
  "MAX_GUEST_BATCH_COUNT = 1024"

definition push_in_bounds_alloc :: "(nat \<times> nat) list \<Rightarrow> nat \<Rightarrow> nat \<Rightarrow> nat \<Rightarrow> (nat \<times> nat) list" where
  "push_in_bounds_alloc allocs ptr len mem_size =
     (if ptr > 0 \<and> len > 0 \<and> sat_add ptr len \<le> mem_size then allocs @ [(ptr, len)] else allocs)"

text \<open>The batches of one IPC stream, up to the limit on all decoded batches.\<close>

fun collect_stream ::
  "nat \<Rightarrow> ('c RecordBatch \<Rightarrow> 'c RecordBatch SignalBatch) \<Rightarrow> (string + 'c RecordBatch) list \<Rightarrow> 'c RecordBatch SignalBatch list \<Rightarrow>
   WasmTransformError + 'c RecordBatch SignalBatch list" where
  "collect_stream limit wrap [] out = Inr out"
| "collect_stream limit wrap (r # rs) out =
     (if length out \<ge> limit then Inl (Pipeline ''Aggregate decoded batch count exceeds maximum allowed limit'')
      else case r of
             Inl e \<Rightarrow> Inl (ArrowIpc e)
           | Inr rb \<Rightarrow> collect_stream limit wrap rs (out @ [wrap rb]))"

text \<open>
  One turn of the loop over the batch descriptors: reading the descriptor, and checking and decoding the
  buffer it names. The buffers to free are kept also when the turn fails.
\<close>

definition read_descriptor :: "byte list \<Rightarrow> nat \<Rightarrow> nat \<Rightarrow> WasmTransformError + nat \<times> nat" where
  "read_descriptor mem batches_ptr i =
     (case checked_add batches_ptr (i * 8) of
        None \<Rightarrow> Inl (Pipeline ''Batch descriptor offset overflow'')
      | Some offset \<Rightarrow>
          (case memory_read mem offset 8 of
             None \<Rightarrow> Inl (Pipeline ''out of bounds memory access'')
           | Some desc \<Rightarrow> Inr (u32_at desc 0, u32_at desc 4)))"

definition decode_output ::
  "('c, 'g, 'm) wasm_ops \<Rightarrow> byte list \<Rightarrow> ('c RecordBatch \<Rightarrow> 'c RecordBatch SignalBatch) \<Rightarrow> nat \<Rightarrow> nat \<Rightarrow> nat \<Rightarrow>
   nat \<Rightarrow> (nat \<times> nat) list \<Rightarrow> 'c RecordBatch SignalBatch list \<Rightarrow>
   (nat \<times> nat) list \<times> (WasmTransformError + nat \<times> 'c RecordBatch SignalBatch list)" where
  "decode_output wo mem wrap ipc_ptr output_ptr output_len bytes allocs out =
     (let bytes' = sat_add bytes output_len
      in if output_ptr = 0
         then (allocs, Inl (Pipeline ''Protocol error: batch descriptor contained null IPC buffer pointer''))
         else if bytes' > 64 * 1024 * 1024
         then (allocs, Inl (Pipeline ''Cumulative batch output size exceeds maximum allowed 64MiB limit''))
         else if \<not> (output_ptr + output_len \<le> length mem)
         then (allocs, Inl (InvalidMemoryBounds output_ptr output_len (length mem)))
         else
           (if output_ptr \<noteq> ipc_ptr then push_in_bounds_alloc allocs output_ptr output_len (length mem) else allocs,
            case wo_read_stream wo (take output_len (drop output_ptr mem)) of
              Inl e \<Rightarrow> Inl (ArrowIpc e)
            | Inr rs \<Rightarrow> try_bind (collect_stream MAX_GUEST_BATCH_COUNT wrap rs out) (\<lambda>out'. Inr (bytes', out'))))"

fun extract_loop ::
  "('c, 'g, 'm) wasm_ops \<Rightarrow> byte list \<Rightarrow> nat \<Rightarrow> ('c RecordBatch \<Rightarrow> 'c RecordBatch SignalBatch) \<Rightarrow> nat \<Rightarrow> nat list \<Rightarrow>
   nat \<Rightarrow> (nat \<times> nat) list \<Rightarrow> 'c RecordBatch SignalBatch list \<Rightarrow>
   (nat \<times> nat) list \<times> (WasmTransformError + 'c RecordBatch SignalBatch list)" where
  "extract_loop wo mem batches_ptr wrap ipc_ptr [] bytes allocs out = (allocs, Inr out)"
| "extract_loop wo mem batches_ptr wrap ipc_ptr (i # js) bytes allocs out =
     (case read_descriptor mem batches_ptr i of
        Inl e \<Rightarrow> (allocs, Inl e)
      | Inr (output_ptr, output_len) \<Rightarrow>
          (case decode_output wo mem wrap ipc_ptr output_ptr output_len bytes allocs out of
             (allocs', Inl e) \<Rightarrow> (allocs', Inl e)
           | (allocs', Inr (bytes', out')) \<Rightarrow> extract_loop wo mem batches_ptr wrap ipc_ptr js bytes' allocs' out'))"

definition extract_output_batches ::
  "('c, 'g, 'm) wasm_ops \<Rightarrow> byte list \<Rightarrow> nat \<Rightarrow> nat \<Rightarrow> 'c RecordBatch SignalBatch \<Rightarrow> (nat \<times> nat) list \<Rightarrow> nat \<Rightarrow>
   (nat \<times> nat) list \<times> (WasmTransformError + 'c RecordBatch SignalBatch list)" where
  "extract_output_batches wo mem batches_ptr batch_count input_batch allocs ipc_ptr =
     (if batch_count > MAX_GUEST_BATCH_COUNT
      then (allocs, Inl (Pipeline ''Guest batch count exceeds maximum allowed limit''))
      else if sat_add batches_ptr (sat_mul batch_count 8) > length mem
      then (allocs, Inl (Pipeline ''Batch descriptors array bounds exceed guest memory size''))
      else extract_loop wo mem batches_ptr (to_signal_batch (fst (signal_of input_batch))) ipc_ptr [0..<batch_count] 0 allocs [])"

section \<open>The outcome\<close>

datatype 'b WorkerOutcome =
    Emitted "'b SignalBatch list"
  | Discarded
  | Rejected string "'b SignalBatch"
  | Errored string "'b SignalBatch"

fun guard_batches ::
  "'c array_ops \<Rightarrow> SchemaGuardMode \<Rightarrow> 'c RecordBatch \<Rightarrow> 'c RecordBatch SignalBatch list \<Rightarrow>
   WasmTransformError + 'c RecordBatch SignalBatch list" where
  "guard_batches ar mode in_rb [] = Inr []"
| "guard_batches ar mode in_rb (out_batch # rest) =
     (case signal_of out_batch of (sig, out_rb) \<Rightarrow>
        try_bind (verify_structural_immutability ar in_rb out_rb) (\<lambda>_.
        try_bind (case mode of
            Strict \<Rightarrow> try_bind (verify_strict_schema_equality in_rb out_rb) (\<lambda>_. Inr out_batch)
          | Defensive \<Rightarrow>
              try_bind (backfill_missing_columns ar (rb_fields in_rb) (rb_metadata in_rb) out_rb) (\<lambda>b. Inr (to_signal_batch sig b)))
          (\<lambda>guarded. try_bind (guard_batches ar mode in_rb rest) (\<lambda>bs. Inr (guarded # bs)))))"

definition dispatch_outcome ::
  "('c, 'g, 'm) wasm_ops \<Rightarrow> byte list \<Rightarrow> ParsedHeader \<Rightarrow> string \<Rightarrow> 'c RecordBatch SignalBatch \<Rightarrow> SchemaGuardMode \<Rightarrow>
   (nat \<times> nat) list \<Rightarrow> nat \<Rightarrow>
   (nat \<times> nat) list \<times> (('c RecordBatch SignalBatch \<times> WasmTransformError) + 'c RecordBatch WorkerOutcome)" where
  "dispatch_outcome wo mem header message batch mode allocs ipc_ptr =
     (if ph_status header = 0 then
        if ph_batch_count header = 0 then (allocs, Inr (Emitted []))
        else if ph_batches_ptr header = 0
        then (allocs, Inl (batch, Pipeline ''Protocol error: guest returned status 0 with batch_count > 0 but null batches_ptr''))
        else (case extract_output_batches wo mem (ph_batches_ptr header) (ph_batch_count header) batch allocs ipc_ptr of
                (allocs', Inl e) \<Rightarrow> (allocs', Inl (batch, e))
              | (allocs', Inr out_batches) \<Rightarrow>
                  (allocs', case guard_batches (wo_array wo) mode (snd (signal_of batch)) out_batches of
                              Inl e \<Rightarrow> Inl (batch, e)
                            | Inr bs \<Rightarrow> Inr (Emitted bs)))
      else if ph_status header = 1 then (allocs, Inr Discarded)
      else if ph_status header = 2
      then (allocs, Inr (Rejected (if message = [] then ''Guest rejected batch'' else message) batch))
      else (allocs, Inr (Errored (if message = [] then ''Guest returned error status'' else message) batch)))"

section \<open>The worker\<close>

record ('g, 'm) WasmWorker =
  ww_id :: nat
  ww_module :: 'm
  ww_config :: WasmTransformerConfig
  ww_guest :: "'g GuestComponents option"
  ww_batches_processed :: nat
  ww_local_generation :: nat
  ww_rejuvenate_threshold_bytes :: nat

definition rejuvenate :: "('c, 'g, 'm) wasm_ops \<Rightarrow> ('g, 'm) WasmWorker \<Rightarrow> (WasmTransformError + unit) \<times> ('g, 'm) WasmWorker" where
  "rejuvenate wo w =
     (case instantiate_guest wo (ww_module w) (ww_config w) of
        Inl e \<Rightarrow> (Inl (Unrecoverable ''Worker failed rejuvenation replacement''), w\<lparr>ww_batches_processed := 0\<rparr>)
      | Inr gc \<Rightarrow> (Inr (), w\<lparr>ww_guest := Some gc, ww_batches_processed := 0\<rparr>))"

definition check_rejuvenation :: "('c, 'g, 'm) wasm_ops \<Rightarrow> ('g, 'm) WasmWorker \<Rightarrow> (WasmTransformError + unit) \<times> ('g, 'm) WasmWorker" where
  "check_rejuvenation wo w =
     (let memory_exceeded = (case ww_guest w of
            Some gc \<Rightarrow> ww_rejuvenate_threshold_bytes w > 0 \<and> length (wo_memory wo (gc_store gc)) \<ge> ww_rejuvenate_threshold_bytes w
          | None \<Rightarrow> False)
      in if (wt_rejuvenate_batches (ww_config w) > 0 \<and> ww_batches_processed w \<ge> wt_rejuvenate_batches (ww_config w)) \<or> memory_exceeded
         then rejuvenate wo w else (Inr (), w))"

text \<open>
  \<open>check_hot_reload\<close>: each turn of the loop reads the generation and the snapshot of the cache, which
  other threads may change in between; \<open>None\<close> means that the loop goes on beyond the readings given.
\<close>

fun check_hot_reload ::
  "('c, 'g, 'm) wasm_ops \<Rightarrow> 'm EngineCache list \<Rightarrow> ('g, 'm) WasmWorker \<Rightarrow> ('g, 'm) WasmWorker option" where
  "check_hot_reload wo [] w = None"
| "check_hot_reload wo (ec # readings) w =
     (if \<not> ww_local_generation w < ec_generation ec then Some w
      else case ec_snapshot ec of
             None \<Rightarrow> Some w
           | Some (m, gen) \<Rightarrow>
               if ww_local_generation w \<ge> gen then Some w
               else (case instantiate_guest wo m (ww_config w) of
                       Inr gc \<Rightarrow> check_hot_reload wo readings
                                  (w\<lparr>ww_guest := Some gc, ww_module := m, ww_local_generation := gen, ww_batches_processed := 0\<rparr>)
                     | Inl e \<Rightarrow> Some (w\<lparr>ww_local_generation := gen\<rparr>)))"

definition worker_new ::
  "('c, 'g, 'm) wasm_ops \<Rightarrow> nat \<Rightarrow> 'm EngineCache \<Rightarrow> 'm EngineCache list \<Rightarrow> 'm \<Rightarrow> WasmTransformerConfig \<Rightarrow>
   (WasmTransformError + ('g, 'm) WasmWorker) option" where
  "worker_new wo wid ec readings m cfg =
     (let trimmed = trim (wt_rejuvenate_threshold cfg)
      in case (if trimmed = [] then Some 0 else parse_byte_size trimmed) of
           None \<Rightarrow> Some (Inl (Pipeline ''Invalid memory threshold''))
         | Some threshold \<Rightarrow>
             (case (case ec_snapshot ec of Some s \<Rightarrow> s | None \<Rightarrow> (m, ec_generation ec)) of
                (target_module, initial_generation) \<Rightarrow>
                  (case instantiate_guest wo target_module cfg of
                     Inl e \<Rightarrow> Some (Inl e)
                   | Inr gc \<Rightarrow>
                       map_option Inr (check_hot_reload wo readings
                         \<lparr>ww_id = wid, ww_module = target_module, ww_config = cfg, ww_guest = Some gc, ww_batches_processed = 0,
                          ww_local_generation = initial_generation, ww_rejuvenate_threshold_bytes = threshold\<rparr>))))"

definition call_failed :: "nat \<Rightarrow> call_error \<Rightarrow> WasmTransformError" where
  "call_failed timeout_ms e =
     (if str_contains ''interrupt'' (ce_chain e) \<or> str_contains ''epoch deadline'' (ce_chain e) \<or>
         str_contains ''deadline'' (ce_chain e) \<or> ce_interrupt e
      then ExecutionTimeout timeout_ms else Wasmtime (ce_chain e))"

text \<open>
  The call of \<open>datalake_transform\<close> with the checks on the pointer it returns: the guest after the call and
  the address and length of the response header.
\<close>

definition call_transform ::
  "('c, 'g, 'm) wasm_ops \<Rightarrow> nat \<Rightarrow> nat \<Rightarrow> nat \<Rightarrow> nat \<Rightarrow> 'g GuestComponents \<Rightarrow> (WasmTransformError + nat \<times> nat) \<times> 'g GuestComponents" where
  "call_transform wo timeout_ms signal_type ipc_ptr ipc_len gc =
     (let free = (\<lambda>g. gc\<lparr>gc_store := snd (gc_dealloc gc ipc_ptr ipc_len g)\<rparr>)
      in case gc_transform gc of
           TransformV1 f \<Rightarrow>
             (case f signal_type ipc_ptr ipc_len (gc_store gc) of
                (Inl e, g) \<Rightarrow> (Inl (call_failed timeout_ms e), gc\<lparr>gc_store := g\<rparr>)
              | (Inr packed, g) \<Rightarrow>
                  let ptr = packed div 4294967296; len = packed mod 4294967296
                  in if ptr = 0
                     then (Inl (Pipeline ''Malformed C-ABI v1 response header: returned null response header pointer''), free g)
                     else if len < 20
                     then (Inl (Pipeline ''Malformed C-ABI v1 response header: minimum header size is 20 bytes''), free g)
                     else if \<not> (ptr + len \<le> length (wo_memory wo g))
                     then (Inl (InvalidMemoryBounds ptr len (length (wo_memory wo g))), free g)
                     else (Inr (ptr, len), gc\<lparr>gc_store := g\<rparr>))
         | TransformLegacy f \<Rightarrow>
             (case f ipc_ptr ipc_len (gc_store gc) of
                (Inl e, g) \<Rightarrow> (Inl (call_failed timeout_ms e), gc\<lparr>gc_store := g\<rparr>)
              | (Inr ptr, g) \<Rightarrow>
                  if \<not> (ptr + 20 \<le> length (wo_memory wo g))
                  then (Inl (InvalidMemoryBounds ptr 20 (length (wo_memory wo g))), free g)
                  else (Inr (ptr, 20), gc\<lparr>gc_store := g\<rparr>)))"

fun free_all :: "(nat \<Rightarrow> nat \<Rightarrow> 'g \<Rightarrow> (string + unit) \<times> 'g) \<Rightarrow> (nat \<times> nat) list \<Rightarrow> 'g \<Rightarrow> string option \<times> 'g" where
  "free_all dealloc [] g = (None, g)"
| "free_all dealloc ((ptr, len) # allocs) g =
     (case dealloc ptr len g of (res, g1) \<Rightarrow>
      case free_all dealloc allocs g1 of (err, g2) \<Rightarrow>
        (case res of Inl e \<Rightarrow> Some e | Inr _ \<Rightarrow> err, g2))"

text \<open>What is freed after the call, before the output buffers are added.\<close>

definition initial_allocs :: "nat \<Rightarrow> nat \<Rightarrow> nat \<Rightarrow> nat \<Rightarrow> ParsedHeader \<Rightarrow> nat \<Rightarrow> (nat \<times> nat) list" where
  "initial_allocs ipc_ptr ipc_len header_ptr header_len header mem_size =
     push_in_bounds_alloc (push_in_bounds_alloc (push_in_bounds_alloc (push_in_bounds_alloc []
       ipc_ptr ipc_len mem_size) header_ptr header_len mem_size)
       (ph_message_ptr header) (ph_message_len header) mem_size)
       (ph_batches_ptr header) (min (ph_batch_count header * 8) u32_max) mem_size"

definition run_guest ::
  "('c, 'g, 'm) wasm_ops \<Rightarrow> 'c RecordBatch SignalBatch \<Rightarrow> byte list \<Rightarrow> ('g, 'm) WasmWorker \<Rightarrow> 'g GuestComponents \<Rightarrow>
   (('c RecordBatch SignalBatch \<times> WasmTransformError) + 'c RecordBatch WorkerOutcome) \<times> 'g GuestComponents" where
  "run_guest wo batch ipc_buf w gc0 =
     (let timeout = (case parse_duration (wt_max_execution_duration (ww_config w)) of Some d \<Rightarrow> d | None \<Rightarrow> 500);
          timeout_ms = (if timeout \<le> u64_max then timeout else 500);
          ipc_len = length ipc_buf;
          deadline = (\<lambda>gc. gc\<lparr>gc_store := wo_set_deadline wo (epoch_ticks timeout) (gc_store gc)\<rparr>);
          gc1 = deadline gc0
      in case gc_alloc gc1 ipc_len (gc_store gc1) of
           (Inl e, g) \<Rightarrow> (Inl (batch, call_failed timeout_ms e), gc1\<lparr>gc_store := g\<rparr>)
         | (Inr ipc_ptr, g) \<Rightarrow>
             if ipc_ptr = 0 \<and> ipc_len > 0
             then (Inl (batch, Oom (wt_module_path (ww_config w)) (ww_id w)), gc1\<lparr>gc_store := g\<rparr>)
             else (case wo_write wo ipc_ptr ipc_buf g of
                     (Inl e, g1) \<Rightarrow> (Inl (batch, Wasmtime e), gc1\<lparr>gc_store := snd (gc_dealloc gc1 ipc_ptr ipc_len g1)\<rparr>)
                   | (Inr _, g1) \<Rightarrow>
                       (case call_transform wo timeout_ms (unat (as_u8 (fst (signal_of batch)))) ipc_ptr ipc_len (deadline (gc1\<lparr>gc_store := g1\<rparr>)) of
                          (Inl e, gc2) \<Rightarrow> (Inl (batch, e), gc2)
                        | (Inr (header_ptr, header_len), gc2) \<Rightarrow>
                            let mem = wo_memory wo (gc_store gc2)
                            in case read_response_header mem header_ptr of
                                 Inl e \<Rightarrow> (Inl (batch, e), gc2)
                               | Inr header \<Rightarrow>
                                   let message = read_guest_message (wo_utf8_lossy wo) mem (ph_message_ptr header) (ph_message_len header);
                                       allocs = initial_allocs ipc_ptr ipc_len header_ptr header_len header (length mem)
                                   in case dispatch_outcome wo mem header message batch (wt_schema_guard (ww_config w)) allocs ipc_ptr of
                                        (allocs', outcome) \<Rightarrow>
                                          (case free_all (gc_dealloc gc2) allocs' (gc_store gc2) of
                                             (dealloc_err, g3) \<Rightarrow>
                                               (case outcome of
                                                  Inl e \<Rightarrow> Inl e
                                                | Inr oc \<Rightarrow> (case dealloc_err of Some e \<Rightarrow> Inl (batch, Wasmtime e) | None \<Rightarrow> Inr oc),
                                                gc2\<lparr>gc_store := g3\<rparr>)))))"

definition execute_batch ::
  "('c, 'g, 'm) wasm_ops \<Rightarrow> 'm EngineCache list \<Rightarrow> 'c RecordBatch SignalBatch \<Rightarrow> ('g, 'm) WasmWorker \<Rightarrow>
   ((('c RecordBatch SignalBatch \<times> WasmTransformError) + 'c RecordBatch WorkerOutcome) \<times> ('g, 'm) WasmWorker) option" where
  "execute_batch wo readings batch w0 =
     (case check_hot_reload wo readings w0 of
        None \<Rightarrow> None
      | Some w \<Rightarrow> Some (
          let rb = snd (signal_of batch)
          in if wt_max_batch_rows (ww_config w) > 0 \<and> rb_num_rows rb > wt_max_batch_rows (ww_config w)
             then (Inr (Rejected ''Batch row count exceeds configured maximum'' batch), w)
             else (case wo_serialize wo rb of
                     Inl e \<Rightarrow> (Inl (batch, ArrowIpc e), w)
                   | Inr ipc_buf \<Rightarrow>
                       if length ipc_buf > u32_max then (Inl (batch, Pipeline ''IPC payload exceeds u32::MAX''), w)
                       else (case ww_guest w of
                               None \<Rightarrow> (Inl (batch, Pipeline ''WASM worker guest components missing''), w)
                             | Some gc \<Rightarrow>
                                 (case run_guest wo batch ipc_buf w gc of
                                    (Inl e, gc') \<Rightarrow> (Inl e, w\<lparr>ww_guest := Some gc'\<rparr>)
                                  | (Inr outcome, gc') \<Rightarrow>
                                      (Inr outcome, snd (check_rejuvenation wo
                                         (w\<lparr>ww_guest := Some gc', ww_batches_processed := sat_add (ww_batches_processed w) 1\<rparr>))))))))"

end
