(* ===== verification/WasmGuarantees.thy ===== *)
theory WasmGuarantees
  imports WasmWorker
begin

text \<open>
  What the host promises about guests: it reads and frees guest memory only within bounds, an input batch is
  handed back whenever it is not transformed, whatever is emitted has passed the schema guard, and a
  worker adopts a published module. One attack on the guard goes through: duplicate column names.
\<close>

section \<open>Guest memory\<close>

definition in_bounds :: "byte list \<Rightarrow> nat \<times> nat \<Rightarrow> bool" where
  "in_bounds mem a = (case a of (ptr, len) \<Rightarrow> 0 < ptr \<and> 0 < len \<and> ptr + len \<le> length mem)"

lemma push_in_bounds:
  "length mem < u64_max \<Longrightarrow> list_all (in_bounds mem) allocs \<Longrightarrow> list_all (in_bounds mem) (push_in_bounds_alloc allocs ptr len (length mem))"
  by (auto simp: push_in_bounds_alloc_def in_bounds_def dest: sat_add_leD)

lemma initial_allocs_in_bounds:
  "length mem < u64_max \<Longrightarrow> list_all (in_bounds mem) (initial_allocs ipc_ptr ipc_len hp hl header (length mem))"
  unfolding initial_allocs_def by (intro push_in_bounds) auto

lemma collect_stream_bound:
  "collect_stream limit wrap rs out = Inr out' \<Longrightarrow> length out \<le> limit \<Longrightarrow>
   length out' \<le> limit \<and> (\<exists>bs. out' = out @ map wrap bs \<and> map Inr bs = rs)"
proof (induction rs arbitrary: out)
  case (Cons r rs)
  then obtain rb where r: "r = Inr rb" "length out < limit" "collect_stream limit wrap rs (out @ [wrap rb]) = Inr out'"
    by (auto split: if_splits sum.splits)
  from Cons.IH [OF r(3)] r(2) obtain bs where "length out' \<le> limit" "out' = (out @ [wrap rb]) @ map wrap bs" "map Inr bs = rs"
    by auto
  then show ?case by (intro conjI exI [of _ "rb # bs"]) (simp_all add: r(1))
qed simp

text \<open>The descriptors read, as pairs of address and length, and the decoded streams.\<close>

definition streams_at :: "('c, 'g, 'm) wasm_ops \<Rightarrow> byte list \<Rightarrow> (nat \<times> nat) list \<Rightarrow> 'c RecordBatch list list \<Rightarrow> bool" where
  "streams_at wo mem ds bss \<longleftrightarrow>
     list_all2 (\<lambda>(ptr, len) bs. 0 < ptr \<and> ptr + len \<le> length mem \<and> wo_read_stream wo (take len (drop ptr mem)) = Inr (map Inr bs)) ds bss"

lemma decode_output_sound:
  assumes "length mem < u64_max" and run: "decode_output wo mem wrap ipc_ptr ptr len bytes allocs out = (allocs', res)"
    and "list_all (in_bounds mem) allocs" and "length out \<le> MAX_GUEST_BATCH_COUNT"
  shows "list_all (in_bounds mem) allocs'"
    and "res = Inr (bytes', out') \<Longrightarrow> bytes' = bytes + len \<and> bytes' \<le> 64 * 1024 * 1024 \<and> length out' \<le> MAX_GUEST_BATCH_COUNT \<and>
      (\<exists>bs. out' = out @ map wrap bs \<and> streams_at wo mem [(ptr, len)] [bs])"
proof -
  show "list_all (in_bounds mem) allocs'"
    using run assms(3) push_in_bounds [OF assms(1,3)] by (auto simp: decode_output_def Let_def split: if_splits)
  assume r: "res = Inr (bytes', out')"
  then obtain rs where rs: "ptr \<noteq> 0" "sat_add bytes len \<le> 64 * 1024 * 1024" "ptr + len \<le> length mem" "bytes' = sat_add bytes len"
      "wo_read_stream wo (take len (drop ptr mem)) = Inr rs" "collect_stream MAX_GUEST_BATCH_COUNT wrap rs out = Inr out'"
    using run by (auto simp: decode_output_def Let_def try_bind_Inr split: if_splits sum.splits)
  have "sat_add bytes len = bytes + len" using rs(2) by (auto simp: sat_add_def u64_max_def min_def split: if_splits)
  then show "bytes' = bytes + len \<and> bytes' \<le> 64 * 1024 * 1024 \<and> length out' \<le> MAX_GUEST_BATCH_COUNT \<and>
      (\<exists>bs. out' = out @ map wrap bs \<and> streams_at wo mem [(ptr, len)] [bs])"
    using rs collect_stream_bound [OF rs(6) assms(4)] by (auto simp: streams_at_def)
qed

lemma extract_loop_sound:
  assumes "length mem < u64_max"
  shows "extract_loop wo mem bp wrap ipc_ptr is bytes allocs out = (allocs', res) \<Longrightarrow> list_all (in_bounds mem) allocs \<Longrightarrow>
    bytes \<le> 64 * 1024 * 1024 \<Longrightarrow> length out \<le> MAX_GUEST_BATCH_COUNT \<Longrightarrow>
    list_all (in_bounds mem) allocs' \<and>
    (\<forall>outs. res = Inr outs \<longrightarrow> length outs \<le> MAX_GUEST_BATCH_COUNT \<and>
      (\<exists>ds bss. streams_at wo mem ds bss \<and> length ds = length is \<and> bytes + sum_list (map snd ds) \<le> 64 * 1024 * 1024 \<and>
         outs = out @ map wrap (concat bss)))"
proof (induction "is" arbitrary: bytes allocs out)
  case Nil
  then show ?case by (auto simp: streams_at_def)
next
  case (Cons i js)
  show ?case
  proof (cases "read_descriptor mem bp i")
    case (Inl e)
    then show ?thesis using Cons.prems by auto
  next
    case (Inr d)
    obtain ptr len a r where d: "d = (ptr, len)" and dec: "decode_output wo mem wrap ipc_ptr ptr len bytes allocs out = (a, r)"
      by (metis surj_pair)
    note S = decode_output_sound [OF assms dec Cons.prems(2,4)]
    show ?thesis
    proof (cases r)
      case err: (Inl e)
      then show ?thesis using Cons.prems(1) Inr S(1) by (auto simp: d dec)
    next
      case ok: (Inr x)
      obtain bytes' out' where x: "x = (bytes', out')" by (cases x)
      note S' = S(2) [OF ok [unfolded x]]
      then obtain bs where bs: "out' = out @ map wrap bs" "streams_at wo mem [(ptr, len)] [bs]" by blast
      have run: "extract_loop wo mem bp wrap ipc_ptr js bytes' a out' = (allocs', res)"
        using Cons.prems(1) by (simp add: Inr d dec ok x)
      have IH: "list_all (in_bounds mem) allocs' \<and>
          (\<forall>outs. res = Inr outs \<longrightarrow> length outs \<le> MAX_GUEST_BATCH_COUNT \<and>
            (\<exists>ds bss. streams_at wo mem ds bss \<and> length ds = length js \<and> bytes' + sum_list (map snd ds) \<le> 64 * 1024 * 1024 \<and>
               outs = out' @ map wrap (concat bss)))"
        by (rule Cons.IH [OF run S(1)]) (use S' in auto)
      have ext: "\<exists>ds' bss'. streams_at wo mem ds' bss' \<and> length ds' = length (i # js) \<and>
          bytes + sum_list (map snd ds') \<le> 64 * 1024 * 1024 \<and> outs = out @ map wrap (concat bss')"
        if "streams_at wo mem ds bss" "length ds = length js" "bytes' + sum_list (map snd ds) \<le> 64 * 1024 * 1024"
          "outs = out' @ map wrap (concat bss)" for outs ds bss
        using that bs S'
        by (intro exI [of _ "(ptr, len) # ds"] exI [of _ "bs # bss"]) (auto simp: streams_at_def)
      show ?thesis using IH ext by blast
    qed
  qed
qed

lemma extract_sound:
  assumes "length mem < u64_max" and "extract_output_batches wo mem bp bc batch allocs ipc_ptr = (allocs', res)"
    and "list_all (in_bounds mem) allocs"
  shows "list_all (in_bounds mem) allocs'"
    and "res = Inr outs \<Longrightarrow> length outs \<le> MAX_GUEST_BATCH_COUNT \<and>
      (\<exists>ds bss. streams_at wo mem ds bss \<and> length ds = bc \<and> sum_list (map snd ds) \<le> 64 * 1024 * 1024 \<and>
         outs = map (to_signal_batch (fst (signal_of batch))) (concat bss))"
  using assms(2,3) extract_loop_sound [OF assms(1), of wo bp "to_signal_batch (fst (signal_of batch))" ipc_ptr "[0..<bc]" 0 allocs "[]" allocs' res]
  by (auto simp: extract_output_batches_def split: if_splits)

section \<open>Outcomes\<close>

text \<open>A batch the guest sent (\<open>out\<close>) and the batch made of it have passed the guard.\<close>

definition guarded :: "'c array_ops \<Rightarrow> SchemaGuardMode \<Rightarrow> 'c RecordBatch \<Rightarrow> 'c RecordBatch \<Rightarrow> 'c RecordBatch \<Rightarrow> bool" where
  "guarded ar mode in_rb out b \<longleftrightarrow> verify_structural_immutability ar in_rb out = Inr () \<and>
     (case mode of
        Strict \<Rightarrow> b = out \<and> rb_fields b = rb_fields in_rb \<and> map_of (rb_metadata b) = map_of (rb_metadata in_rb)
      | Defensive \<Rightarrow> backfill_missing_columns ar (rb_fields in_rb) (rb_metadata in_rb) out = Inr b)"

lemma to_signal_batch_signal [simp]: "signal_of (to_signal_batch sig b) = (sig, b)"
  by (cases sig) simp_all

lemma guard_batches_guarded:
  "guard_batches ar mode in_rb outs = Inr bs \<Longrightarrow>
   list_all2 (\<lambda>out b. fst (signal_of b) = fst (signal_of out) \<and> guarded ar mode in_rb (snd (signal_of out)) (snd (signal_of b))) outs bs"
proof (induction outs arbitrary: bs)
  case (Cons out outs)
  obtain sig rb where o: "signal_of out = (sig, rb)" by fastforce
  obtain g bs' where v: "verify_structural_immutability ar in_rb rb = Inr ()" and b: "bs = g # bs'" "guard_batches ar mode in_rb outs = Inr bs'"
    and g: "(case mode of Strict \<Rightarrow> try_bind (verify_strict_schema_equality in_rb rb) (\<lambda>_. Inr out)
      | Defensive \<Rightarrow> try_bind (backfill_missing_columns ar (rb_fields in_rb) (rb_metadata in_rb) rb) (\<lambda>b. Inr (to_signal_batch sig b))) = Inr g"
    using Cons.prems by (auto simp: o try_bind_Inr)
  have "fst (signal_of g) = sig \<and> guarded ar mode in_rb rb (snd (signal_of g))"
    using g v o
    by (cases mode) (auto simp: try_bind_Inr guarded_def verify_strict_schema_equality_def metadata_eq_map_of split: if_splits)
  then show ?case using Cons.IH [OF b(2)] by (simp add: b(1) o)
qed simp

text \<open>What an outcome says about the input batch.\<close>

definition outcome_ok ::
  "('c, 'g, 'm) wasm_ops \<Rightarrow> SchemaGuardMode \<Rightarrow> 'c RecordBatch SignalBatch \<Rightarrow>
   ('c RecordBatch SignalBatch \<times> WasmTransformError) + 'c RecordBatch WorkerOutcome \<Rightarrow> bool" where
  "outcome_ok wo mode batch res =
     (case res of
        Inl (b, _) \<Rightarrow> b = batch
      | Inr (Rejected _ b) \<Rightarrow> b = batch
      | Inr (Errored _ b) \<Rightarrow> b = batch
      | Inr Discarded \<Rightarrow> True
      | Inr (Emitted bs) \<Rightarrow> length bs \<le> MAX_GUEST_BATCH_COUNT \<and>
          (\<forall>b \<in> set bs. fst (signal_of b) = fst (signal_of batch) \<and>
             (\<exists>out. guarded (wo_array wo) mode (snd (signal_of batch)) out (snd (signal_of b)))))"

lemma dispatch_outcome_ok:
  assumes "length mem < u64_max" and "dispatch_outcome wo mem header message batch mode allocs ipc_ptr = (allocs', res)"
    and "list_all (in_bounds mem) allocs"
  shows "list_all (in_bounds mem) allocs'" and "outcome_ok wo mode batch res"
proof -
  obtain a r where x: "extract_output_batches wo mem (ph_batches_ptr header) (ph_batch_count header) batch allocs ipc_ptr = (a, r)" by fastforce
  note E = extract_sound [OF assms(1) x assms(3)]
  show "list_all (in_bounds mem) allocs'"
    using assms(2,3) E(1) by (auto simp: dispatch_outcome_def x split: if_splits sum.splits)
  have em: "outcome_ok wo mode batch (Inr (Emitted bs))"
    if r: "r = Inr outs" and gb: "guard_batches (wo_array wo) mode (snd (signal_of batch)) outs = Inr bs" for outs bs
  proof -
    note G = guard_batches_guarded [OF gb]
    obtain bss where "outs = map (to_signal_batch (fst (signal_of batch))) (concat bss)" "length outs \<le> MAX_GUEST_BATCH_COUNT"
      using E(2) [OF r] by blast
    then show ?thesis
      using G list_all2_lengthD [OF G] by (fastforce simp: outcome_ok_def list_all2_conv_all_nth in_set_conv_nth)
  qed
  show "outcome_ok wo mode batch res"
    using assms(2) em by (auto simp: dispatch_outcome_def x outcome_ok_def split: if_splits sum.splits)
qed

lemma run_guest_ok:
  assumes "\<And>g. length (wo_memory wo g) < u64_max" and "run_guest wo batch ipc_buf w gc = (res, gc')"
  shows "outcome_ok wo (wt_schema_guard (ww_config w)) batch res"
proof -
  have d: "outcome_ok wo (wt_schema_guard (ww_config w)) batch oc"
    if "dispatch_outcome wo (wo_memory wo g) header message batch (wt_schema_guard (ww_config w))
      (initial_allocs ip il hp hl header (length (wo_memory wo g))) ip = (a, oc)" for g header message ip il hp hl a oc
    by (rule dispatch_outcome_ok(2) [OF assms(1) that initial_allocs_in_bounds [OF assms(1)]])
  have err: "outcome_ok wo m batch (Inl (batch, e))" for m e by (simp add: outcome_ok_def)
  show ?thesis
    using assms(2) unfolding run_guest_def Let_def
    by (auto split: prod.splits sum.splits if_splits option.splits intro: err dest: d)
qed

section \<open>Immutable columns\<close>

text \<open>
  A batch as Arrow builds it, with distinct column names: one array per field, each as long as the batch
  has rows.
\<close>

definition proper_batch :: "'c array_ops \<Rightarrow> 'c RecordBatch \<Rightarrow> bool" where
  "proper_batch ar b \<longleftrightarrow> length (rb_columns b) = length (rb_fields b) \<and> distinct (map f_name (rb_fields b)) \<and>
     list_all (\<lambda>c. ar_len ar c = rb_num_rows b) (rb_columns b)"

definition column :: "'c RecordBatch \<Rightarrow> string \<Rightarrow> 'c option" where
  "column b name = Option.bind (index_of (rb_fields b) name) (get_at (rb_columns b))"

lemma verified_column:
  assumes "verify_structural_immutability ar input output = Inr ()" and "name \<in> set IMMUTABLE_COLUMNS"
    and "column input name = Some c" and "\<not> all_null ar c" and "proper_batch ar output" and "rb_num_rows output > 0"
  shows "\<exists>d. column output name = Some d \<and> ar_data_type ar d = ar_data_type ar c \<and> \<not> all_null ar d"
proof -
  have v: "verify_column ar input output name = Inr ()"
    using assms(1,2) by (simp add: verify_structural_immutability_def verify_columns_iff)
  have info: "column_info ar name input = Inr (Some (ar_data_type ar c, False))"
    using assms(3,4) by (auto simp: column_def column_info_def bind_eq_Some_conv split: option.splits)
  show ?thesis
  proof (cases "index_of (rb_fields output) name")
    case None
    then show ?thesis using v info assms(6) by (simp add: verify_column_def)
  next
    case (Some i)
    then have i: "i < length (rb_columns output)"
      using assms(5) index_of_Some by (fastforce simp: proper_batch_def)
    then have "ar_len ar (rb_columns output ! i) > 0" using assms(5,6) by (simp add: proper_batch_def list_all_length)
    then show ?thesis
      using v info Some i by (auto simp: verify_column_def column_def get_at_def split: if_splits)
  qed
qed

lemma index_of_distinct:
  assumes "distinct (map f_name flds)" and "i < length flds"
  shows "index_of flds (f_name (flds ! i)) = Some i"
proof -
  have "f_name (flds ! i) \<in> f_name ` set flds" using assms(2) by simp
  then obtain j where j: "index_of flds (f_name (flds ! i)) = Some j" using index_of_None by fastforce
  then have "map f_name flds ! j = map f_name flds ! i" "j < length flds" using index_of_Some [OF j] assms(2) by simp_all
  then have "j = i" using nth_eq_iff_index_eq [OF assms(1), of j i] assms(2) by simp
  then show ?thesis using j by simp
qed

lemma output_index_distinct:
  assumes "distinct (map f_name flds)"
  shows "output_field_index flds name = index_of flds name"
proof (cases "output_field_index flds name")
  case None
  then show ?thesis using output_field_index_None index_of_None by metis
next
  case (Some i)
  then show ?thesis using output_field_index_Some [OF Some] index_of_distinct [OF assms, of i] by simp
qed

text \<open>The kept columns are those of the guest, so that of a name is found under that name again.\<close>

lemma keep_or_backfill_column:
  assumes "keep_or_backfill ar output flds = Inr (kept, added)" and "proper_batch ar output"
    and "column output name = Some d" and "name \<in> f_name ` set flds"
  shows "\<exists>f. (f, d) \<in> set kept \<and> f_name f = name"
  using assms(1,4)
proof (induction flds arbitrary: kept added)
  case (Cons f flds)
  obtain i where i: "index_of (rb_fields output) name = Some i" "rb_columns output ! i = d" "i < length (rb_columns output)"
    using assms(3) by (auto simp: column_def bind_eq_Some_conv get_at_def split: if_splits)
  have dist: "distinct (map f_name (rb_fields output))" using assms(2) by (simp add: proper_batch_def)
  obtain x rest a where r: "keep_or_backfill ar output flds = Inr (rest, a)" "kept = x # rest"
    using Cons.prems(1) by (auto simp: Let_def try_bind_Inr split: option.splits if_splits)
  show ?case
  proof (cases "f_name f = name")
    case True
    then have "output_field_index (rb_fields output) (f_name f) = Some i" using i(1) output_index_distinct [OF dist] by simp
    then have "x = (rb_fields output ! i, d)"
      using Cons.prems(1) i(2,3) r(2) by (auto simp: get_at_def try_bind_Inr split: if_splits)
    then show ?thesis using index_of_Some [OF i(1)] by (auto simp: r(2))
  next
    case False
    then show ?thesis using Cons.IH [OF r(1)] Cons.prems(2) r(2) by auto
  qed
qed simp

lemma keep_or_backfill_names:
  assumes "keep_or_backfill ar output flds = Inr (kept, added)"
  shows "map (f_name \<circ> fst) kept = map f_name flds"
  using keep_or_backfill_kept [OF assms] by (auto simp: list_all2_conv_all_nth kept_field_def intro: nth_equalityI)

text \<open>A pair of a field and its array is a column of the batch built from the pairs, when names are distinct.\<close>

lemma column_of_pairs:
  assumes "(f, d) \<in> set ps" and "distinct (map (f_name \<circ> fst) ps)" and "rb_fields b = map fst ps" and "rb_columns b = map snd ps"
  shows "column b (f_name f) = Some d"
proof -
  obtain i where i: "i < length ps" "ps ! i = (f, d)" using assms(1) by (auto simp: in_set_conv_nth)
  have "index_of (map fst ps) (f_name (map fst ps ! i)) = Some i"
    by (rule index_of_distinct) (use assms(2) i(1) in simp_all)
  then show ?thesis using i by (simp add: column_def assms(3,4) get_at_def)
qed

lemma backfill_keeps_column:
  assumes "try_new_ok ar" and "backfill_missing_columns ar (rb_fields in_rb) (rb_metadata in_rb) out = Inr b"
    and "proper_batch ar out" and "distinct (map f_name (rb_fields in_rb))"
    and "column out name = Some d" and "name \<in> f_name ` set (rb_fields in_rb)"
  shows "column b name = Some d"
proof -
  obtain kept added new where k: "keep_or_backfill ar out (rb_fields in_rb) = Inr (kept, added)"
    and n: "new_columns (rb_fields in_rb) out (zip [0..<length (rb_fields out)] (rb_fields out)) = Inr new"
    and b: "b = out \<or> rb_fields b = map fst (kept @ new) \<and> rb_columns b = map snd (kept @ new)"
    using assms(1,2) by (auto simp: backfill_missing_columns_def try_bind_Inr try_new_ok_def Let_def split: if_splits sum.splits)
  have N: "map fst new = filter (\<lambda>f. f_name f \<notin> f_name ` set (rb_fields in_rb)) (rb_fields out)"
    using new_columns_new [OF n] filter_enumerated [of "[0..<length (rb_fields out)]" "rb_fields out"]
    by (auto dest: set_zip_rightD)
  have "map (f_name \<circ> fst) new = map f_name (filter (\<lambda>f. f_name f \<notin> f_name ` set (rb_fields in_rb)) (rb_fields out))"
    by (simp add: N [symmetric])
  moreover have "distinct (map f_name (rb_fields out))" using assms(3) by (simp add: proper_batch_def)
  ultimately have dist: "distinct (map (f_name \<circ> fst) (kept @ new))"
    using assms(4) by (auto simp: keep_or_backfill_names [OF k] distinct_map_filter) (metis imageI)
  obtain f where "(f, d) \<in> set kept" "f_name f = name" using keep_or_backfill_column [OF k assms(3,5,6)] by blast
  then show ?thesis using b assms(5) column_of_pairs [OF _ dist, of f d b] by auto
qed

section \<open>Properties\<close>

text \<open>
  C27. A guest cannot make the host lose or corrupt data unnoticed. Whatever the guest does, a batch it fails on,
  rejects or reports an error for is handed back unchanged; and every batch emitted carries the
  signal of the input and has passed the immutability check and the configured schema guard, at most 1024 of them.
\<close>

theorem worker_outcome_sound:
  assumes "execute_batch wo readings batch w0 = Some (res, w')" and "\<And>g. length (wo_memory wo g) < u64_max"
  shows "outcome_ok wo (wt_schema_guard (ww_config w0)) batch res"
proof -
  have cfg: "check_hot_reload wo readings w0 = Some w \<Longrightarrow> ww_config w = ww_config w0" for w
    by (induction readings arbitrary: w0) (auto split: if_splits option.splits sum.splits)
  obtain w where w: "check_hot_reload wo readings w0 = Some w" using assms(1) by (auto simp: execute_batch_def split: option.splits)
  have g: "outcome_ok wo (wt_schema_guard (ww_config w0)) batch r" if "run_guest wo batch ipc w gc = (r, gc')" for ipc gc r gc'
    using run_guest_ok [OF assms(2) that] cfg [OF w] by simp
  have err: "outcome_ok wo m batch (Inl (batch, e))" "outcome_ok wo m batch (Inr (Rejected t batch))" for m e t
    by (simp_all add: outcome_ok_def)
  show ?thesis
    using assms(1) err g by (auto simp: execute_batch_def w Let_def split: if_splits sum.splits option.splits prod.splits)
qed



lemmas guard_eval = guarded_def list_arrays_def id_batch_def id_field_def verify_structural_immutability_def IMMUTABLE_COLUMNS_def
  verify_column_def column_info_def index_of_def output_field_index_def get_at_def all_null_def column_def
  backfill_missing_columns_def compliance_mutated_def merge_metadata_def



section \<open>Witnesses\<close>

text \<open>A guest that keeps its memory, answers status 2 (rejected) and never fails.\<close>

definition demo_memory :: "byte list" where
  "demo_memory = replicate 8 0 @ le_bytes 4 2 @ replicate 16 0 @ le_bytes 4 36 @ le_bytes 4 2 @ [7, 7, 7, 7]"

definition demo_wasm :: "(nat option list, unit, unit) wasm_ops" where
  "demo_wasm = \<lparr>wo_array = list_arrays, wo_serialize = (\<lambda>_. Inr [1, 2]), wo_read_stream = (\<lambda>_. Inr [Inr (id_batch [[Some 1]])]),
     wo_utf8_lossy = (\<lambda>_. []), wo_init_json = (\<lambda>_ _ _. Inr []), wo_env_var = (\<lambda>_. None), wo_instantiate = (\<lambda>_ _. Inr ()),
     wo_abi_version = (\<lambda>_. Some (\<lambda>g. (Inr 1, g))), wo_alloc = (\<lambda>_. Some (\<lambda>_ g. (Inr 1, g))),
     wo_dealloc = (\<lambda>_. Some (\<lambda>_ _ g. (Inr (), g))), wo_transform_v1 = (\<lambda>_. Some (\<lambda>_ _ _ g. (Inr (8 * 4294967296 + 20), g))),
     wo_transform_legacy = (\<lambda>_. None), wo_has_memory = (\<lambda>_. True), wo_init = (\<lambda>_. None), wo_memory = (\<lambda>_. demo_memory),
     wo_write = (\<lambda>_ _ g. (Inr (), g)), wo_set_deadline = (\<lambda>_ g. g), wo_execution_phase = (\<lambda>g. g)\<rparr>"

definition demo_wasm_config :: WasmTransformerConfig where
  "demo_wasm_config = \<lparr>wt_id = ''t'', wt_module_path = ''m.wasm'', wt_sha256 = None, wt_max_execution_duration = ''500ms'',
     wt_drain_timeout = ''10s'', wt_max_batch_rows = 5000, wt_concurrency = 4, wt_worker_channel_capacity = 1,
     wt_max_memory = ''64MiB'', wt_rejuvenate_threshold = ''16MiB'', wt_rejuvenate_batches = 10000, wt_init_timeout = ''2s'',
     wt_on_error = RerouteErrors, wt_allow_unmasked_passthrough = False, wt_on_reject = RerouteRejects,
     wt_schema_guard = Defensive, wt_env_whitelist = [], wt_env = [], wt_config = None, wt_enable_sighup = False\<rparr>"

definition demo_worker :: "(unit, unit) WasmWorker" where
  "demo_worker = \<lparr>ww_id = 0, ww_module = (), ww_config = demo_wasm_config, ww_guest = None, ww_batches_processed = 0,
     ww_local_generation = 0, ww_rejuvenate_threshold_bytes = 0\<rparr>"

definition demo_cache :: "unit EngineCache" where
  "demo_cache = snd (publish_module () engine_new)"

lemma demo_cache_facts: "ec_snapshot demo_cache = Some ((), ec_generation demo_cache)" "ec_generation demo_cache = 1"
  by (simp_all add: demo_cache_def publish_module_def engine_new_def)

lemma demo_reloads: "\<exists>w. check_hot_reload demo_wasm [demo_cache, demo_cache] demo_worker = Some w"
  by (cases "instantiate_guest demo_wasm () demo_wasm_config") (simp_all add: demo_worker_def demo_cache_facts)

lemma length_demo_memory: "length demo_memory = 40"
  by (simp add: demo_memory_def)


theorem worker_outcome_sound_witness:
  "\<exists>res w'. execute_batch demo_wasm [demo_cache, demo_cache] (LogsBatch (id_batch [[Some 1]])) demo_worker = Some (res, w') \<and>
     outcome_ok demo_wasm Defensive (LogsBatch (id_batch [[Some 1]])) res"
proof -
  obtain w where w: "check_hot_reload demo_wasm [demo_cache, demo_cache] demo_worker = Some w"
    using demo_reloads by blast
  have "\<exists>p. execute_batch demo_wasm [demo_cache, demo_cache] (LogsBatch (id_batch [[Some 1]])) demo_worker = Some p"
    unfolding execute_batch_def w option.case by (rule exI, rule refl)
  then obtain res w' where run: "execute_batch demo_wasm [demo_cache, demo_cache] (LogsBatch (id_batch [[Some 1]])) demo_worker = Some (res, w')"
    by (metis surj_pair)
  have "outcome_ok demo_wasm (wt_schema_guard (ww_config demo_worker)) (LogsBatch (id_batch [[Some 1]])) res"
    by (rule worker_outcome_sound [OF run]) (simp add: demo_wasm_def length_demo_memory u64_max_def)
  then show ?thesis using run by (auto simp: demo_worker_def demo_wasm_config_def)
qed



end
