(* ===== verification/Dispatcher.thy ===== *)
theory Dispatcher
  imports WasmWorker
begin

text \<open>
  The dispatcher of the WebAssembly transformer (\<open>crates/wasm-transformer/src/dispatcher.rs\<close>): handing a batch to
  one of the workers, and what a worker task does with the outcome of each batch.

  A worker's channel is a bounded queue that may be closed. While the dispatcher waits for room in a
  channel the workers go on: \<open>env\<close> is what they do to the channels in the meantime, and \<open>None\<close> means
  that the wait has not ended.
\<close>

section \<open>Channels\<close>

record 'b channel =
  ch_capacity :: nat
  ch_queue :: "'b list"
  ch_open :: bool

datatype try_send_result = SendOk | SendFull | SendClosed

definition push :: "'b \<Rightarrow> 'b channel \<Rightarrow> 'b channel" where
  "push b ch = ch\<lparr>ch_queue := ch_queue ch @ [b]\<rparr>"

definition try_send :: "'b channel \<Rightarrow> try_send_result" where
  "try_send ch = (if \<not> ch_open ch then SendClosed else if length (ch_queue ch) \<ge> ch_capacity ch then SendFull else SendOk)"

definition send_wait ::
  "('b channel list \<Rightarrow> 'b channel list) \<Rightarrow> 'b \<Rightarrow> nat \<Rightarrow> 'b channel list \<Rightarrow> bool option \<times> 'b channel list" where
  "send_wait env b idx chans =
     (let chans' = env chans
      in case try_send (chans' ! idx) of
           SendClosed \<Rightarrow> (Some False, chans')
         | SendFull \<Rightarrow> (None, chans')
         | SendOk \<Rightarrow> (Some True, chans'[idx := push b (chans' ! idx)]))"

section \<open>Dispatching one batch\<close>

text \<open>The loop of \<open>try_send\<close> calls: the worker that took the batch and the first full one.\<close>

fun try_workers :: "'b \<Rightarrow> nat list \<Rightarrow> 'b channel list \<Rightarrow> nat option \<Rightarrow> nat option \<times> nat option \<times> 'b channel list" where
  "try_workers b [] chans first_full = (None, first_full, chans)"
| "try_workers b (idx # is) chans first_full =
     (case get_at chans idx of
        None \<Rightarrow> try_workers b is chans first_full
      | Some target \<Rightarrow>
          (case try_send target of
             SendOk \<Rightarrow> (Some idx, first_full, chans[idx := push b target])
           | SendFull \<Rightarrow> try_workers b is chans (if first_full = None then Some idx else first_full)
           | SendClosed \<Rightarrow> try_workers b is chans first_full))"

definition retry_dispatch ::
  "('b channel list \<Rightarrow> 'b channel list) \<Rightarrow> 'b \<Rightarrow> nat \<Rightarrow> nat \<Rightarrow> nat \<Rightarrow> 'b channel list \<Rightarrow> bool option \<times> nat \<times> 'b channel list" where
  "retry_dispatch env b full_idx concurrency next_worker chans =
     (case try_workers b (map (\<lambda>k. sat_add full_idx k mod concurrency) [1..<concurrency]) chans None of
        (Some idx, _, chans1) \<Rightarrow> (Some True, sat_add idx 1 mod concurrency, chans1)
      | (None, None, chans1) \<Rightarrow> (Some False, next_worker, chans1)
      | (None, Some survivor, chans1) \<Rightarrow>
          if survivor < length chans1
          then (case send_wait env b survivor chans1 of
                  (None, chans2) \<Rightarrow> (None, next_worker, chans2)
                | (Some True, chans2) \<Rightarrow> (Some True, sat_add survivor 1 mod concurrency, chans2)
                | (Some False, chans2) \<Rightarrow> (Some False, next_worker, chans2))
          else (Some False, next_worker, chans1))"

definition dispatch_batch ::
  "('b channel list \<Rightarrow> 'b channel list) \<Rightarrow> ('b channel list \<Rightarrow> 'b channel list) \<Rightarrow> 'b \<Rightarrow> nat \<Rightarrow> nat \<Rightarrow> 'b channel list \<Rightarrow>
   bool option \<times> nat \<times> 'b channel list" where
  "dispatch_batch env1 env2 b concurrency next_worker chans =
     (case try_workers b (map (\<lambda>k. sat_add next_worker k mod concurrency) [0..<concurrency]) chans None of
        (Some idx, _, chans1) \<Rightarrow> (Some True, sat_add idx 1 mod concurrency, chans1)
      | (None, None, chans1) \<Rightarrow> (Some False, next_worker, chans1)
      | (None, Some full_idx, chans1) \<Rightarrow>
          if \<not> full_idx < length chans1 then (Some False, next_worker, chans1)
          else (case send_wait env1 b full_idx chans1 of
                  (None, chans2) \<Rightarrow> (None, next_worker, chans2)
                | (Some True, chans2) \<Rightarrow> (Some True, sat_add full_idx 1 mod concurrency, chans2)
                | (Some False, chans2) \<Rightarrow> retry_dispatch env2 b full_idx concurrency next_worker chans2))"

section \<open>Routing an outcome\<close>

text \<open>
  What has been delivered so far: to the output, and to the dead-letter channels if they are configured.
  \<open>oks i\<close> says whether the \<open>i\<close>-th send of a call finds its receiver alive.
\<close>

record 'b routes =
  ro_output :: "'b SignalBatch list"
  ro_errors :: "'b SignalBatch list option"
  ro_rejects :: "'b SignalBatch list option"

definition send_output :: "bool \<Rightarrow> 'b SignalBatch \<Rightarrow> 'b routes \<Rightarrow> 'b routes" where
  "send_output ok b ro = (if ok then ro\<lparr>ro_output := ro_output ro @ [b]\<rparr> else ro)"

definition send_errors :: "bool \<Rightarrow> 'b SignalBatch \<Rightarrow> 'b routes \<Rightarrow> 'b routes" where
  "send_errors ok b ro = (if ok then ro\<lparr>ro_errors := map_option (\<lambda>q. q @ [b]) (ro_errors ro)\<rparr> else ro)"

definition send_rejects :: "bool \<Rightarrow> 'b SignalBatch \<Rightarrow> 'b routes \<Rightarrow> 'b routes" where
  "send_rejects ok b ro = (if ok then ro\<lparr>ro_rejects := map_option (\<lambda>q. q @ [b]) (ro_rejects ro)\<rparr> else ro)"

definition handle_rejected :: "OnRejectPolicy \<Rightarrow> bool \<Rightarrow> 'b SignalBatch \<Rightarrow> 'b routes \<Rightarrow> bool \<times> 'b routes" where
  "handle_rejected policy ok original ro =
     (if policy = RerouteRejects \<and> ro_rejects ro \<noteq> None then (ok, send_rejects ok original ro) else (True, ro))"

definition handle_errored :: "WasmTransformerConfig \<Rightarrow> bool \<Rightarrow> 'b SignalBatch \<Rightarrow> 'b routes \<Rightarrow> bool \<times> 'b routes" where
  "handle_errored cfg ok original ro =
     (case wt_on_error cfg of
        RerouteErrors \<Rightarrow> if ro_errors ro \<noteq> None then (ok, send_errors ok original ro) else (True, ro)
      | PassErrors \<Rightarrow> if wt_allow_unmasked_passthrough cfg then (ok, send_output ok original ro) else (True, ro)
      | DropErrors \<Rightarrow> (True, ro))"

fun send_emitted :: "(nat \<Rightarrow> bool) \<Rightarrow> nat \<Rightarrow> 'b SignalBatch list \<Rightarrow> 'b routes \<Rightarrow> bool \<times> 'b routes" where
  "send_emitted oks i [] ro = (True, ro)"
| "send_emitted oks i (b # bs) ro =
     (if oks i then send_emitted oks (Suc i) bs (send_output True b ro) else (False, ro))"

definition handle_worker_outcome ::
  "WasmTransformerConfig \<Rightarrow> (nat \<Rightarrow> bool) \<Rightarrow> 'b WorkerOutcome \<Rightarrow> 'b routes \<Rightarrow> bool \<times> 'b routes" where
  "handle_worker_outcome cfg oks outcome ro =
     (case outcome of
        Emitted batches \<Rightarrow> send_emitted oks 0 batches ro
      | Discarded \<Rightarrow> (True, ro)
      | Rejected reason original \<Rightarrow> handle_rejected (wt_on_reject cfg) (oks 0) original ro
      | Errored reason original \<Rightarrow> handle_errored cfg (oks 0) original ro)"

section \<open>A worker task\<close>

text \<open>
  One batch as a worker task sees it: the batch, the result of \<open>execute_batch\<close>, the result of the rejuvenation
  after a failure, and the answers of the sends. \<open>None\<close> is a blocking task that panicked or was
  cancelled.
\<close>

record 'b turn_result =
  tr_batch :: "'b SignalBatch"
  tr_result :: "((('b SignalBatch \<times> WasmTransformError) + 'b WorkerOutcome) \<times> (WasmTransformError + unit)) option"
  tr_oks :: "nat \<Rightarrow> bool"

definition drain_to_errors :: "'b turn_result list \<Rightarrow> 'b routes \<Rightarrow> 'b routes" where
  "drain_to_errors ts ro = foldl (\<lambda>ro t. if ro_errors ro \<noteq> None then send_errors (tr_oks t 0) (tr_batch t) ro else ro) ro ts"

definition drain_errored :: "WasmTransformerConfig \<Rightarrow> 'b turn_result list \<Rightarrow> 'b routes \<Rightarrow> 'b routes" where
  "drain_errored cfg ts ro = foldl (\<lambda>ro t. snd (handle_errored cfg (tr_oks t 0) (tr_batch t) ro)) ro ts"

text \<open>The loop of the task over the batches in its channel; on leaving it the rest of the channel is drained.\<close>

fun worker_task :: "WasmTransformerConfig \<Rightarrow> 'b turn_result list \<Rightarrow> 'b routes \<Rightarrow> 'b routes" where
  "worker_task cfg [] ro = ro"
| "worker_task cfg (t # ts) ro =
     (case tr_result t of
        None \<Rightarrow> ro
      | Some (Inr outcome, _) \<Rightarrow>
          (case handle_worker_outcome cfg (tr_oks t) outcome ro of
             (True, ro1) \<Rightarrow> worker_task cfg ts ro1
           | (False, ro1) \<Rightarrow> drain_to_errors ts ro1)
      | Some (Inl (original, _), rejuvenated) \<Rightarrow>
          (case handle_errored cfg (tr_oks t 0) original ro of
             (handled, ro1) \<Rightarrow>
               if rejuvenated \<noteq> Inr () then drain_errored cfg ts ro1
               else if \<not> handled then drain_to_errors ts ro1
               else worker_task cfg ts ro1))"

section \<open>Lemmas\<close>

lemma try_workers_took:
  "try_workers b is chans ff = (Some idx, ff', chans') \<Longrightarrow>
   idx \<in> set is \<and> idx < length chans \<and> try_send (chans ! idx) = SendOk \<and> chans' = chans[idx := push b (chans ! idx)]"
  by (induction "is" arbitrary: ff) (auto simp: get_at_def split: if_splits try_send_result.splits)

lemma try_workers_none:
  "try_workers b is chans ff = (None, ff', chans') \<Longrightarrow>
   chans' = chans \<and> (\<forall>i \<in> set is. i < length chans \<longrightarrow> try_send (chans ! i) \<noteq> SendOk) \<and>
   (\<forall>j. ff' = Some j \<longrightarrow> ff = Some j \<or> j < length chans) \<and>
   (ff' = None \<longrightarrow> (\<forall>i \<in> set is. i < length chans \<longrightarrow> try_send (chans ! i) = SendClosed))"
proof (induction "is" arbitrary: ff)
  case (Cons i ws)
  have ff: "ff' \<noteq> None" if "try_workers b js chans (Some j) = (None, ff', chans')" for js j
    using that by (induction js) (auto simp: get_at_def split: if_splits try_send_result.splits)
  show ?case
  proof (cases "i < length chans \<and> try_send (chans ! i) = SendFull")
    case True
    then have r: "try_workers b ws chans (if ff = None then Some i else ff) = (None, ff', chans')"
      using Cons.prems by (simp add: get_at_def)
    have "ff' \<noteq> None" using r ff by (cases ff) auto
    then show ?thesis using Cons.IH [OF r] True by (auto split: if_splits)
  next
    case False
    then have r: "try_workers b ws chans ff = (None, ff', chans')" and i: "i < length chans \<longrightarrow> try_send (chans ! i) = SendClosed"
      using Cons.prems by (auto simp: get_at_def split: if_splits try_send_result.splits)
    show ?thesis using Cons.IH [OF r] i by auto
  qed
qed simp

lemma send_wait_result:
  "send_wait env b idx chans = (res, chans') \<Longrightarrow>
   (res = Some True \<and> try_send (env chans ! idx) = SendOk \<and> chans' = (env chans)[idx := push b (env chans ! idx)]) \<or>
   (res \<noteq> Some True \<and> chans' = env chans)"
  by (auto simp: send_wait_def Let_def split: try_send_result.splits)

text \<open>The batch was put into one open channel with room, or nowhere, starting from the channels \<open>base\<close>.\<close>

definition placed :: "'b \<Rightarrow> bool option \<Rightarrow> 'b channel list \<Rightarrow> 'b channel list \<Rightarrow> bool" where
  "placed b res base chans' \<longleftrightarrow>
     (if res = Some True
      then \<exists>idx < length base. try_send (base ! idx) = SendOk \<and> chans' = base[idx := push b (base ! idx)]
      else chans' = base)"

lemma placedI:
  "idx < length base \<Longrightarrow> try_send (base ! idx) = SendOk \<Longrightarrow> chans' = base[idx := push b (base ! idx)] \<Longrightarrow> placed b (Some True) base chans'"
  "res \<noteq> Some True \<Longrightarrow> placed b res base base"
  by (auto simp: placed_def)

lemma send_wait_placed:
  assumes "send_wait env b idx chans = (res, chans')" and "idx < length chans" and "length (env chans) = length chans"
  shows "placed b res (env chans) chans'"
  using send_wait_result [OF assms(1)] assms(2,3) by (auto simp: placed_def)

lemma try_workers_placed:
  assumes "try_workers b is chans None = (r, ff, chans')"
  shows "placed b (if r = None then Some False else Some True) chans chans'" and "ff = Some j \<Longrightarrow> r = None \<Longrightarrow> j < length chans"
  using try_workers_took [of b "is" chans None "the r" ff chans'] try_workers_none [of b "is" chans None ff chans'] assms
  by (cases r; fastforce simp: placed_def)+

lemma retry_placed:
  assumes "retry_dispatch env b full n nw chans = (res, nw', chans')" and "length (env chans) = length chans"
  shows "placed b res chans chans' \<or> placed b res (env chans) chans'"
proof -
  obtain r ff c where t: "try_workers b (map (\<lambda>k. sat_add full k mod n) [1..<n]) chans None = (r, ff, c)" by (metis surj_pair)
  note T = try_workers_placed [OF t]
  show ?thesis
  proof (cases "r = None \<and> ff \<noteq> None")
    case True
    then obtain j where j: "r = None" "ff = Some j" by auto
    have c: "c = chans" "j < length chans" using T j by (auto simp: placed_def)
    obtain r2 c2 where w: "send_wait env b j chans = (r2, c2)" by fastforce
    have "res = r2 \<and> chans' = c2" using assms(1) t j c w by (auto simp: retry_dispatch_def split: option.splits bool.splits)
    then show ?thesis using send_wait_placed [OF w c(2) assms(2)] by simp
  next
    case False
    then show ?thesis using assms(1) t T(1) by (cases r; cases ff) (auto simp: retry_dispatch_def placed_def)
  qed
qed

lemma rotation_covers:
  assumes "nw < n" and "n + n \<le> u64_max" and "i < n"
  shows "i \<in> set (map (\<lambda>k. sat_add nw k mod n) [0..<n])"
proof -
  have m: "(n + i - nw) mod n < n" using assms by simp
  have "sat_add nw ((n + i - nw) mod n) mod n = (nw + (n + i - nw) mod n) mod n"
    using assms m by (subst sat_add_exact) linarith+
  also have "\<dots> = (nw + (n + i - nw)) mod n" by (rule mod_add_right_eq)
  also have "\<dots> = i" using assms by simp
  finally show ?thesis using m by (auto intro!: image_eqI [of _ _ "(n + i - nw) mod n"])
qed

section \<open>Properties\<close>

text \<open>
  C31. A batch is dispatched exactly once or not at all. When \<open>dispatch_batch\<close> reports success the batch is in exactly one
  channel, an open one that had room; otherwise it is in none. A worker with room gets it without
  waiting, and the dispatcher gives up at once when every channel is closed.
\<close>

theorem dispatch_exactly_once:
  assumes run: "dispatch_batch env1 env2 b n nw chans = (res, nw', chans')"
    and len: "length chans = n" "nw < n" "n + n \<le> u64_max" "\<And>cs. length (env1 cs) = length cs" "\<And>cs. length (env2 cs) = length cs"
  shows "(\<exists>base \<in> {chans, env1 chans, env2 (env1 chans)}. placed b res base chans') \<and>
    ((\<exists>ch \<in> set chans. try_send ch = SendOk) \<longrightarrow> res = Some True \<and> placed b res chans chans') \<and>
    ((\<forall>ch \<in> set chans. \<not> ch_open ch) \<longrightarrow> res = Some False \<and> chans' = chans)"
proof -
  let ?is = "map (\<lambda>k. sat_add nw k mod n) [0..<n]"
  obtain r ff c where t: "try_workers b ?is chans None = (r, ff, c)" by (metis surj_pair)
  note T = try_workers_placed [OF t]
  have all: "i \<in> set ?is" if "i < length chans" for i using rotation_covers [OF len(2,3), of i] that len(1) by simp
  have room: "r \<noteq> None" if some: "\<exists>ch \<in> set chans. try_send ch = SendOk"
  proof
    assume "r = None"
    then have "\<forall>i \<in> set ?is. i < length chans \<longrightarrow> try_send (chans ! i) \<noteq> SendOk"
      using try_workers_none [of b ?is chans None ff c] t by (simp del: set_map)
    moreover obtain i where "i < length chans" "try_send (chans ! i) = SendOk" using some by (auto simp: in_set_conv_nth)
    ultimately show False using all by blast
  qed
  have shut: "r = None \<and> ff = None" if "\<forall>ch \<in> set chans. \<not> ch_open ch"
  proof -
    have cl: "try_send (chans ! i) = SendClosed" if "i < length chans" for i
      using that \<open>\<forall>ch \<in> set chans. \<not> ch_open ch\<close> by (simp add: try_send_def)
    have "try_workers b js chans None = (None, None, chans)" for js
      by (induction js) (auto simp: get_at_def cl)
    then show ?thesis using t by simp
  qed
  show ?thesis
  proof (cases "r = None \<and> ff \<noteq> None")
    case True
    then obtain j where j: "r = None" "ff = Some j" by auto
    have c: "c = chans" "j < length chans" using T j by (auto simp: placed_def)
    obtain r2 c2 where w: "send_wait env1 b j chans = (r2, c2)" by fastforce
    note W = send_wait_placed [OF w c(2) len(4)]
    have "(\<exists>base \<in> {chans, env1 chans, env2 (env1 chans)}. placed b res base chans')"
    proof (cases "r2 = Some False")
      case F: True
      then have "c2 = env1 chans" using W by (simp add: placed_def)
      then have "retry_dispatch env2 b j n nw (env1 chans) = (res, nw', chans')"
        using run t j c w F by (simp add: dispatch_batch_def)
      from retry_placed [OF this len(5)] show ?thesis by (elim disjE) auto
    next
      case False
      then have "res = r2 \<and> chans' = c2" using run t j c w by (auto simp: dispatch_batch_def split: option.splits bool.splits)
      then show ?thesis using W by auto
    qed
    then show ?thesis using room shut j by auto
  next
    case False
    then have "placed b res chans chans' \<and> (r \<noteq> None \<longrightarrow> res = Some True) \<and> (r = None \<longrightarrow> res = Some False)"
      using run t T(1) by (cases r; cases ff) (auto simp: dispatch_batch_def placed_def)
    then show ?thesis using room shut by (auto simp: placed_def)
  qed
qed

theorem dispatch_exactly_once_witness:
  "\<exists>nw' chans'. dispatch_batch id id (7 :: nat) 2 1 [\<lparr>ch_capacity = 1, ch_queue = [5], ch_open = True\<rparr>, \<lparr>ch_capacity = 1, ch_queue = [], ch_open = True\<rparr>] =
     (Some True, nw', chans') \<and> map ch_queue chans' = [[5], [7]]"
proof -
  let ?chans = "[\<lparr>ch_capacity = 1, ch_queue = [5 :: nat], ch_open = True\<rparr>, \<lparr>ch_capacity = 1, ch_queue = [], ch_open = True\<rparr>]"
  obtain res nw' chans' where run: "dispatch_batch id id 7 2 1 ?chans = (res, nw', chans')" by (metis surj_pair)
  have "(\<exists>ch \<in> set ?chans. try_send ch = SendOk)" by (simp add: try_send_def)
  then have r: "res = Some True \<and> placed 7 res ?chans chans'"
    using dispatch_exactly_once [OF run] by (auto simp: u64_max_def)
  then obtain idx where "idx < 2" "try_send (?chans ! idx) = SendOk" "chans' = ?chans[idx := push 7 (?chans ! idx)]"
    by (auto simp: placed_def numeral_2_eq_2)
  then have "map ch_queue chans' = [[5], [7]]" by (cases idx) (auto simp: try_send_def push_def less_Suc_eq numeral_2_eq_2)
  then show ?thesis using run r by (intro exI [of _ nw'] exI [of _ chans']) simp
qed

end
