(* ===== verification/PartitionPath.thy ===== *)
theory PartitionPath
  imports Decimal
begin

text \<open>
  Where the Parquet sink puts its files: the partition directory of a row
  (\<open>format_partition_path\<close> of \<open>crates/parquet-sink/src/partition.rs\<close>) and the name of a file
  (\<open>FileNamer\<close> of \<open>naming.rs\<close>).
\<close>

section \<open>Partition directories\<close>

record PartitionKey =
  pk_year :: int
  pk_month :: int
  pk_day :: int
  pk_hour :: int

text \<open>\<open>{:0k}\<close> of a signed integer: the sign counts for the width.\<close>

definition show_int_padded :: "nat \<Rightarrow> int \<Rightarrow> string" where
  "show_int_padded k i = (if i < 0 then ''-'' @ show_padded (k - 1) (nat (- i)) else show_padded k (nat i))"

definition show_date :: "PartitionKey \<Rightarrow> string" where
  "show_date k = show_int_padded 4 (pk_year k) @ ''-'' @ show_int_padded 2 (pk_month k) @ ''-'' @ show_int_padded 2 (pk_day k)"

definition canonical_pattern :: string where
  "canonical_pattern = ''signal={signal}/date={date}/hour={hour}''"

text \<open>What a token between braces stands for; an unknown one is copied with its braces.\<close>

definition token_value :: "string \<Rightarrow> PartitionKey \<Rightarrow> string \<Rightarrow> string" where
  "token_value sig k token =
     (if token = ''signal'' then sig
      else if token = ''date'' then show_date k
      else if token = ''hour'' then show_int_padded 2 (pk_hour k)
      else if token = ''year'' then show_int_padded 4 (pk_year k)
      else if token = ''month'' then show_int_padded 2 (pk_month k)
      else if token = ''day'' then show_int_padded 2 (pk_day k)
      else ''{'' @ token @ ''}'')"

text \<open>
  The scan over the pattern. After an opening brace without a closing one the rest is copied, the loop is left, and the
  statement behind the loop appends \<open>chars\<close> once more.
\<close>

function expand_tokens :: "string \<Rightarrow> PartitionKey \<Rightarrow> string \<Rightarrow> string" where
  "expand_tokens sig k chars =
     (let before = takeWhile (\<lambda>c. c \<noteq> CHR ''{'') chars; rest = dropWhile (\<lambda>c. c \<noteq> CHR ''{'') chars
      in if rest = [] then chars
         else let inner = takeWhile (\<lambda>c. c \<noteq> CHR ''}'') rest; after = dropWhile (\<lambda>c. c \<noteq> CHR ''}'') rest
              in if after = [] then before @ rest @ chars
                 else before @ token_value sig k (tl inner) @ expand_tokens sig k (tl after))"
  by pat_completeness auto
termination
proof (relation "measure (\<lambda>(_, _, chars). length chars)", goal_cases)
  case (2 sig k chars before rest inner after)
  have "length after \<le> length rest" "length rest \<le> length chars"
    using 2 by (simp_all add: length_dropWhile_le)
  then show ?case using 2(6) by (cases after) auto
qed simp

declare expand_tokens.simps [simp del]

definition format_partition_path :: "string \<Rightarrow> string \<Rightarrow> PartitionKey \<Rightarrow> string" where
  "format_partition_path pattern sig k =
     (if pattern = canonical_pattern
      then ''signal='' @ sig @ ''/date='' @ show_date k @ ''/hour='' @ show_int_padded 2 (pk_hour k)
      else expand_tokens sig k pattern)"

section \<open>File names\<close>

record FileNamer =
  fn_node_id :: string
  fn_last_nanos :: int

definition i64_max :: int where
  "i64_max = 9223372036854775807"

definition namer_new :: "string \<Rightarrow> FileNamer" where
  "namer_new node_id = \<lparr>fn_node_id = node_id, fn_last_nanos = 0\<rparr>"

definition next_nanos :: "int \<Rightarrow> int \<Rightarrow> int" where
  "next_nanos now prev = (if now > prev then now else min (prev + 1) i64_max)"

definition trim_end_slashes :: "string \<Rightarrow> string" where
  "trim_end_slashes s = rev (dropWhile (\<lambda>c. c = CHR ''/'') (rev s))"

definition generate_filename :: "int option \<Rightarrow> string \<Rightarrow> string \<Rightarrow> nat \<Rightarrow> FileNamer \<Rightarrow> string \<times> FileNamer" where
  "generate_filename nanos_opt uuid partition_prefix sequence namer =
     (let now = max (case nanos_opt of Some n \<Rightarrow> n | None \<Rightarrow> 0) 0;
          timestamp_nano = next_nanos now (fn_last_nanos namer);
          prefix = trim_end_slashes partition_prefix;
          base = show_int_padded 20 timestamp_nano @ ''_'' @ fn_node_id namer @ ''_'' @ uuid @ ''_'' @
                 show_padded 4 sequence @ ''.parquet''
      in (if prefix = [] then base else prefix @ ''/'' @ base, namer\<lparr>fn_last_nanos := timestamp_nano\<rparr>))"

section \<open>Templates\<close>

text \<open>A pattern as its author sees it: literal text without an opening brace, and tokens.\<close>

datatype piece = Text string | Token string

fun show_piece :: "piece \<Rightarrow> string" where
  "show_piece (Text s) = s"
| "show_piece (Token t) = ''{'' @ t @ ''}''"

fun piece_ok :: "piece \<Rightarrow> bool" where
  "piece_ok (Text s) = (CHR ''{'' \<notin> set s)"
| "piece_ok (Token t) = (CHR ''}'' \<notin> set t)"

fun piece_value :: "string \<Rightarrow> PartitionKey \<Rightarrow> piece \<Rightarrow> string" where
  "piece_value sig k (Text s) = s"
| "piece_value sig k (Token t) = token_value sig k t"

lemma takeWhile_stop: "P \<notin> set xs \<Longrightarrow> takeWhile (\<lambda>c. c \<noteq> P) (xs @ P # ys) = xs"
  by (induction xs) auto

lemma dropWhile_stop: "P \<notin> set xs \<Longrightarrow> dropWhile (\<lambda>c. c \<noteq> P) (xs @ P # ys) = P # ys"
  by (induction xs) auto

lemma expand_text: "CHR ''{'' \<notin> set s \<Longrightarrow> expand_tokens sig k s = s"
  by (subst expand_tokens.simps) (auto simp: Let_def dropWhile_eq_Nil_conv)

lemma expand_token:
  assumes "CHR ''{'' \<notin> set s" and "CHR ''}'' \<notin> set t"
  shows "expand_tokens sig k (s @ CHR ''{'' # t @ CHR ''}'' # rest) = s @ token_value sig k t @ expand_tokens sig k rest"
proof -
  have "CHR ''}'' \<notin> set (CHR ''{'' # t)" using assms(2) by simp
  note t = takeWhile_stop [OF this] dropWhile_stop [OF this]
  show ?thesis
    using t [of rest] takeWhile_stop [OF assms(1), of "t @ CHR ''}'' # rest"] dropWhile_stop [OF assms(1), of "t @ CHR ''}'' # rest"]
    by (subst expand_tokens.simps) (simp add: Let_def)
qed

lemma expand_pieces:
  "list_all piece_ok ps \<Longrightarrow> CHR ''{'' \<notin> set s \<Longrightarrow>
   expand_tokens sig k (s @ concat (map show_piece ps)) = s @ concat (map (piece_value sig k) ps)"
proof (induction ps arbitrary: s)
  case Nil
  then show ?case by (simp add: expand_text)
next
  case (Cons p ps)
  show ?case
  proof (cases p)
    case (Text t)
    then show ?thesis using Cons.IH [of "s @ t"] Cons.prems by simp
  next
    case (Token t)
    then show ?thesis using Cons.IH [of "[]"] Cons.prems expand_token [of s t] by simp
  qed
qed

definition canonical_pieces :: "piece list" where
  "canonical_pieces = [Text ''signal='', Token ''signal'', Text ''/date='', Token ''date'', Text ''/hour='', Token ''hour'']"

lemma canonical_pieces: "concat (map show_piece canonical_pieces) = canonical_pattern" "list_all piece_ok canonical_pieces"
  by (simp_all add: canonical_pieces_def canonical_pattern_def)

lemma canonical_value:
  "concat (map (piece_value sig k) canonical_pieces) = format_partition_path canonical_pattern sig k"
  by (simp add: canonical_pieces_def format_partition_path_def token_value_def)

section \<open>Properties\<close>



text \<open>
  A pattern whose first brace is never closed is written twice: the text is copied when the brace is found and
  once more after the loop, so rows land in a directory the pattern does not name.
\<close>

lemma unclosed_brace_duplicates:
  assumes "CHR ''{'' \<notin> set a" and "CHR ''}'' \<notin> set b"
  shows "format_partition_path (a @ ''{'' @ b) sig k = (a @ ''{'' @ b) @ (a @ ''{'' @ b)"
proof -
  have "a @ ''{'' @ b \<noteq> canonical_pattern"
  proof
    assume eq: "a @ ''{'' @ b = canonical_pattern"
    have "takeWhile (\<lambda>c. c \<noteq> CHR ''{'') (a @ CHR ''{'' # b) = a" "dropWhile (\<lambda>c. c \<noteq> CHR ''{'') (a @ CHR ''{'' # b) = CHR ''{'' # b"
      by (simp_all add: takeWhile_stop [OF assms(1)] dropWhile_stop [OF assms(1)])
    then have "CHR ''{'' # b = ''{signal}/date={date}/hour={hour}''" using eq by (simp add: canonical_pattern_def)
    then show False using assms(2) by auto
  qed
  moreover have "takeWhile (\<lambda>c. c \<noteq> CHR ''}'') (CHR ''{'' # b) = CHR ''{'' # b" "dropWhile (\<lambda>c. c \<noteq> CHR ''}'') (CHR ''{'' # b) = []"
    using assms(2) by (auto simp: takeWhile_eq_all_conv dropWhile_eq_Nil_conv)
  ultimately show ?thesis
    by (simp add: format_partition_path_def expand_tokens.simps [of sig k "a @ CHR ''{'' # b"] Let_def
        takeWhile_stop [OF assms(1)] dropWhile_stop [OF assms(1)])
qed

end
