(* ===== verification/Parquet.thy ===== *)
theory Parquet
  imports PartitionPath Signals "HOL-Library.AList"
begin

text \<open>
  The Parquet sink (\<open>crates/parquet-sink\<close>): its configuration (\<open>config.rs\<close>), the partition writer
  (\<open>writer.rs\<close>), the partition manager with its pool of open files (\<open>partition.rs\<close>) and the loop of the
  sink (\<open>sink.rs\<close>).

  Arrow, the Parquet encoder and the storage are third-party code and arguments of the definitions (\<open>parquet_ops\<close>). What
  depends on the moment (clocks, whether a background upload has finished, whether one can be started) is read from
  \<open>parquet_env\<close> at the number of readings made so far. The memory counter is that of one manager; managers that share it
  are not modelled. A map of the code is an association list, whose order stands for the iteration order.
\<close>

section \<open>Errors and configuration\<close>

datatype ParquetSinkError =
    OpenDal string
  | ParquetFailure string
  | ArrowFailure string
  | VariantEncoding string
  | SinkConfig string
  | SinkInternal string

type_synonym 'a sink_result = "ParquetSinkError + 'a"

datatype CompressionCodec = Zstd "int option" | Snappy | Lz4Raw | Gzip | Uncompressed

record ParquetSinkConfig =
  pc_storage_uri :: string
  pc_node_id :: string
  pc_compression :: CompressionCodec
  pc_compression_level :: "int option"
  pc_max_file_size_bytes :: nat
  pc_max_file_interval_sec :: nat
  pc_max_open_partitions :: nat
  pc_max_concurrent_uploads :: nat
  pc_global_memory_limit_bytes :: nat
  pc_variant_encoding :: bool
  pc_max_records :: nat
  pc_partition_pattern :: string
  pc_storage_options :: "(string \<times> string) list"

definition parquet_default_config :: ParquetSinkConfig where
  "parquet_default_config = \<lparr>pc_storage_uri = ''file://./data'', pc_node_id = ''default-node'', pc_compression = Zstd (Some 3),
     pc_compression_level = None, pc_max_file_size_bytes = 67108864, pc_max_file_interval_sec = 60,
     pc_max_open_partitions = 16, pc_max_concurrent_uploads = 16, pc_global_memory_limit_bytes = 1073741824,
     pc_variant_encoding = True, pc_max_records = 500000, pc_partition_pattern = canonical_pattern, pc_storage_options = []\<rparr>"

section \<open>Third-party operations\<close>

datatype column_type = TimestampColumn | Int64Column | OtherColumn

datatype DatePart = Year | Month | Day | Hour

text \<open>An \<open>Int32Array\<close>: validity and value of a row.\<close>

type_synonym int32_array = "(nat \<Rightarrow> bool) \<times> (nat \<Rightarrow> int)"

record ('b, 's, 'c, 'w) parquet_ops =
  po_num_rows :: "'b \<Rightarrow> nat"
  po_memory :: "'b \<Rightarrow> nat"
  po_schema :: "'b \<Rightarrow> 's"
  po_slice :: "'b \<Rightarrow> nat \<Rightarrow> nat \<Rightarrow> 'b"
  po_filter :: "'b \<Rightarrow> bool list \<Rightarrow> string + 'b"
  po_column_by_name :: "'b \<Rightarrow> string \<Rightarrow> 'c option"
  po_data_type :: "'c \<Rightarrow> column_type"
  po_cast_nanos :: "'c \<Rightarrow> string + 'c"
  po_date_part :: "'c \<Rightarrow> DatePart \<Rightarrow> string + int32_array option"
  po_arrow_new :: "'s \<Rightarrow> ParquetSinkConfig \<Rightarrow> ParquetSinkError + 'w"
  po_write :: "'w \<Rightarrow> 'b \<Rightarrow> (string + unit) \<times> 'w"
  po_bytes_written :: "'w \<Rightarrow> nat"
  po_in_progress_size :: "'w \<Rightarrow> nat"
  po_finish :: "'w \<Rightarrow> ParquetSinkError + unit"

record PartitionId =
  pid_signal :: string
  pid_path :: string

text \<open>
  The background upload of a closed file. Besides the name of the file it records what the file holds: the
  partition it was opened for, the batches written to it, and whether closing its writer succeeded.
\<close>

record 'b upload =
  up_file :: string
  up_partition :: PartitionId
  up_batches :: "'b list"
  up_closed :: bool

datatype join_result = Uploaded | UploadFailed ParquetSinkError | TaskPanicked string

datatype runtime = NoRuntime | CurrentThread | MultiThread

record 'b parquet_env =
  pe_runtime :: runtime
  pe_utc_key :: "nat \<Rightarrow> PartitionKey"
  pe_instant :: "nat \<Rightarrow> nat"
  pe_nanos :: "nat \<Rightarrow> int option"
  pe_uuid :: "nat \<Rightarrow> string"
  pe_start_upload :: "nat \<Rightarrow> string \<Rightarrow> ParquetSinkError + unit"
  pe_finished :: "nat \<Rightarrow> 'b upload \<Rightarrow> bool"
  pe_join :: "'b upload \<Rightarrow> join_result"

section \<open>Partition writer\<close>

text \<open>\<open>pw_batches\<close> stands for what the Arrow writer has encoded so far.\<close>

record ('b, 'w) PartitionWriter =
  pw_arrow :: 'w
  pw_records_written :: nat
  pw_bytes_written :: nat
  pw_in_progress_size :: nat
  pw_batches :: "'b list"

definition writer_try_new :: "('b, 's, 'c, 'w) parquet_ops \<Rightarrow> ParquetSinkConfig \<Rightarrow> 's \<Rightarrow> ('b, 'w) PartitionWriter sink_result" where
  "writer_try_new po cfg schema =
     (case po_arrow_new po schema cfg of
        Inl e \<Rightarrow> Inl e
      | Inr w \<Rightarrow> Inr \<lparr>pw_arrow = w, pw_records_written = 0, pw_bytes_written = po_bytes_written po w,
                      pw_in_progress_size = po_in_progress_size po w, pw_batches = []\<rparr>)"

definition write_batch ::
  "('b, 's, 'c, 'w) parquet_ops \<Rightarrow> 'b \<Rightarrow> ('b, 'w) PartitionWriter \<Rightarrow> unit sink_result \<times> ('b, 'w) PartitionWriter" where
  "write_batch po batch pw =
     (case po_write po (pw_arrow pw) batch of (res, w) \<Rightarrow>
        let pw1 = pw\<lparr>pw_arrow := w, pw_bytes_written := po_bytes_written po w, pw_in_progress_size := po_in_progress_size po w\<rparr>
        in case res of
             Inl e \<Rightarrow> (Inl (ParquetFailure e), pw1)
           | Inr _ \<Rightarrow> (Inr (), pw1\<lparr>pw_records_written := pw_records_written pw1 + po_num_rows po batch,
                                    pw_batches := pw_batches pw1 @ [batch]\<rparr>))"

definition writer_close :: "('b, 's, 'c, 'w) parquet_ops \<Rightarrow> ('b, 'w) PartitionWriter \<Rightarrow> unit sink_result" where
  "writer_close po pw = po_finish po (pw_arrow pw)"

section \<open>Partition manager\<close>

record ('b, 'w) ActiveWriter =
  aw_writer :: "('b, 'w) PartitionWriter"
  aw_file :: string
  aw_partition :: PartitionId
  aw_opened_at :: nat
  aw_buffered_memory :: nat

text \<open>\<open>pm_uploads\<close> lists all files handed to the storage so far and \<open>pm_readings\<close> counts the readings of the environment.\<close>

record ('b, 'w) PartitionManager =
  pm_config :: ParquetSinkConfig
  pm_namer :: FileNamer
  pm_writers :: "(PartitionId \<times> ('b, 'w) ActiveWriter) list"
  pm_lru_order :: "PartitionId list"
  pm_global_memory_bytes :: nat
  pm_file_sequence :: nat
  pm_in_flight_uploads :: "'b upload list"
  pm_uploads :: "'b upload list"
  pm_readings :: nat

definition manager_new :: "ParquetSinkConfig \<Rightarrow> ('b, 'w) PartitionManager" where
  "manager_new cfg = \<lparr>pm_config = cfg, pm_namer = namer_new (pc_node_id cfg), pm_writers = [], pm_lru_order = [],
     pm_global_memory_bytes = 0, pm_file_sequence = 0, pm_in_flight_uploads = [], pm_uploads = [], pm_readings = 0\<rparr>"

definition tick :: "('b, 'w) PartitionManager \<Rightarrow> nat \<times> ('b, 'w) PartitionManager" where
  "tick pm = (pm_readings pm, pm\<lparr>pm_readings := Suc (pm_readings pm)\<rparr>)"

definition estimated_writer_bytes :: "('b, 'w) PartitionWriter \<Rightarrow> nat" where
  "estimated_writer_bytes pw = sat_add (pw_bytes_written pw) (pw_in_progress_size pw)"

definition release_memory :: "('b, 'w) ActiveWriter \<Rightarrow> ('b, 'w) PartitionManager \<Rightarrow> ('b, 'w) PartitionManager" where
  "release_memory aw pm = pm\<lparr>pm_global_memory_bytes := pm_global_memory_bytes pm - aw_buffered_memory aw\<rparr>"

definition abort_writer :: "PartitionId \<Rightarrow> ('b, 'w) PartitionManager \<Rightarrow> ('b, 'w) PartitionManager" where
  "abort_writer pid pm =
     (let pm1 = pm\<lparr>pm_lru_order := remove1 pid (pm_lru_order pm)\<rparr>
      in case map_of (pm_writers pm1) pid of
           None \<Rightarrow> pm1
         | Some poisoned \<Rightarrow> release_memory poisoned (pm1\<lparr>pm_writers := AList.delete pid (pm_writers pm1)\<rparr>))"

subsection \<open>Background uploads\<close>

definition join_error :: "join_result \<Rightarrow> ParquetSinkError option" where
  "join_error r = (case r of Uploaded \<Rightarrow> None | UploadFailed e \<Rightarrow> Some e
     | TaskPanicked e \<Rightarrow> Some (SinkInternal (''Background upload task panicked: '' @ e)))"

definition first_error :: "ParquetSinkError option \<Rightarrow> ParquetSinkError option \<Rightarrow> ParquetSinkError option" where
  "first_error a b = (if a = None then b else a)"

definition to_result :: "ParquetSinkError option \<Rightarrow> unit sink_result" where
  "to_result e = (case e of None \<Rightarrow> Inr () | Some err \<Rightarrow> Inl err)"

text \<open>The loop of \<open>check_background_errors\<close>: the uploads that stay, and the first error among the finished ones.\<close>

fun reap :: "'b parquet_env \<Rightarrow> nat \<Rightarrow> 'b upload list \<Rightarrow> 'b upload list \<times> ParquetSinkError option" where
  "reap pe t [] = ([], None)"
| "reap pe t (u # us) =
     (case reap pe (Suc t) us of (stay, err) \<Rightarrow>
        if pe_finished pe t u then (stay, first_error (join_error (pe_join pe u)) err) else (u # stay, err))"

definition check_background_errors ::
  "'b parquet_env \<Rightarrow> ('b, 'w) PartitionManager \<Rightarrow> unit sink_result \<times> ('b, 'w) PartitionManager" where
  "check_background_errors pe pm =
     (if pe_runtime pe \<noteq> MultiThread then (Inr (), pm)
      else case reap pe (pm_readings pm) (pm_in_flight_uploads pm) of (stay, err) \<Rightarrow>
             (to_result err, pm\<lparr>pm_in_flight_uploads := stay,
                                pm_readings := pm_readings pm + length (pm_in_flight_uploads pm)\<rparr>))"

definition wait_oldest_in_flight_upload ::
  "'b parquet_env \<Rightarrow> ('b, 'w) PartitionManager \<Rightarrow> unit sink_result \<times> ('b, 'w) PartitionManager" where
  "wait_oldest_in_flight_upload pe pm =
     (case pm_in_flight_uploads pm of
        [] \<Rightarrow> (Inr (), pm)
      | oldest # rest \<Rightarrow>
          let pm1 = pm\<lparr>pm_in_flight_uploads := rest\<rparr>
          in case pe_runtime pe of
               NoRuntime \<Rightarrow> (Inl (SinkInternal ''No active Tokio runtime available to wait for background upload''), pm1)
             | CurrentThread \<Rightarrow> (Inl (SinkInternal ''ParquetSink requires a multi-threaded Tokio runtime to wait for pending uploads''), pm1)
             | MultiThread \<Rightarrow>
                 (case join_error (pe_join pe oldest) of
                    Some e \<Rightarrow> (Inl e, pm1)
                  | None \<Rightarrow> check_background_errors pe pm1))"

text \<open>The loop that waits until there is room for one more upload; each turn takes one upload off the queue.\<close>

fun wait_for_room ::
  "nat \<Rightarrow> 'b parquet_env \<Rightarrow> ParquetSinkError option \<Rightarrow> ('b, 'w) PartitionManager \<Rightarrow>
   (ParquetSinkError option \<times> ('b, 'w) PartitionManager) option" where
  "wait_for_room fuel pe wait_err pm =
     (if \<not> (pc_max_concurrent_uploads (pm_config pm) > 0 \<and>
             length (pm_in_flight_uploads pm) \<ge> pc_max_concurrent_uploads (pm_config pm))
      then Some (wait_err, pm)
      else case fuel of
             0 \<Rightarrow> None
           | Suc fuel' \<Rightarrow>
               (case wait_oldest_in_flight_upload pe pm of
                  (Inl e, pm1) \<Rightarrow> wait_for_room fuel' pe (first_error wait_err (Some e)) pm1
                | (Inr _, pm1) \<Rightarrow> wait_for_room fuel' pe wait_err pm1))"

definition retire_active_writer ::
  "'b parquet_env \<Rightarrow> ('b, 's, 'c, 'w) parquet_ops \<Rightarrow> ('b, 'w) ActiveWriter \<Rightarrow> ('b, 'w) PartitionManager \<Rightarrow>
   (unit sink_result \<times> ('b, 'w) PartitionManager) option" where
  "retire_active_writer pe po active pm =
     (let pm1 = release_memory active pm
      in case wait_for_room (length (pm_in_flight_uploads pm1)) pe None pm1 of
           None \<Rightarrow> None
         | Some (wait_err, pm2) \<Rightarrow> Some (
             let close_res = writer_close po (aw_writer active)
             in if pe_runtime pe = NoRuntime
                then (Inl (SinkInternal ''No active Tokio runtime available to spawn background upload completion''), pm2)
                else
                  let jh = \<lparr>up_file = aw_file active, up_partition = aw_partition active,
                            up_batches = pw_batches (aw_writer active), up_closed = (close_res = Inr ())\<rparr>;
                      pm3 = pm2\<lparr>pm_in_flight_uploads := pm_in_flight_uploads pm2 @ [jh], pm_uploads := pm_uploads pm2 @ [jh]\<rparr>
                  in case close_res of
                       Inl e \<Rightarrow> (Inl e, pm3)
                     | Inr _ \<Rightarrow> (case wait_err of Some err \<Rightarrow> (Inl err, pm3) | None \<Rightarrow> check_background_errors pe pm3)))"

definition close_writer ::
  "'b parquet_env \<Rightarrow> ('b, 's, 'c, 'w) parquet_ops \<Rightarrow> PartitionId \<Rightarrow> ('b, 'w) PartitionManager \<Rightarrow>
   (unit sink_result \<times> ('b, 'w) PartitionManager) option" where
  "close_writer pe po pid pm =
     (let pm1 = pm\<lparr>pm_lru_order := remove1 pid (pm_lru_order pm)\<rparr>
      in case (case map_of (pm_writers pm1) pid of
                 None \<Rightarrow> Some (Inr (), pm1)
               | Some active \<Rightarrow> retire_active_writer pe po active (pm1\<lparr>pm_writers := AList.delete pid (pm_writers pm1)\<rparr>)) of
           None \<Rightarrow> None
         | Some (retire_res, pm2) \<Rightarrow>
             (case check_background_errors pe pm2 of (bg_res, pm3) \<Rightarrow>
                Some (case retire_res of Inl e \<Rightarrow> Inl e | Inr _ \<Rightarrow> bg_res, pm3)))"

definition next_sequence :: "('b, 'w) PartitionManager \<Rightarrow> nat \<times> ('b, 'w) PartitionManager" where
  "next_sequence pm = (pm_file_sequence pm, pm\<lparr>pm_file_sequence := (pm_file_sequence pm + 1) mod 65536\<rparr>)"

subsection \<open>Eviction\<close>

text \<open>
  The two eviction loops of \<open>route_sub_batch\<close> have one shape: while there is too much, close the least recently used
  writer.
\<close>

fun evict_while :: "nat \<Rightarrow> ('s \<Rightarrow> bool) \<Rightarrow> ('s \<Rightarrow> (('e + unit) \<times> 's) option) \<Rightarrow> 's \<Rightarrow> (('e + unit) \<times> 's) option" where
  "evict_while fuel crowded evict s =
     (if \<not> crowded s then Some (Inr (), s)
      else case fuel of
             0 \<Rightarrow> None
           | Suc fuel' \<Rightarrow>
               (case evict s of
                  None \<Rightarrow> None
                | Some (Inl e, s1) \<Rightarrow> Some (Inl e, s1)
                | Some (Inr _, s1) \<Rightarrow> evict_while fuel' crowded evict s1))"

definition close_oldest ::
  "'b parquet_env \<Rightarrow> ('b, 's, 'c, 'w) parquet_ops \<Rightarrow> ('b, 'w) PartitionManager \<Rightarrow>
   (unit sink_result \<times> ('b, 'w) PartitionManager) option" where
  "close_oldest pe po pm =
     (case pm_lru_order pm of
        [] \<Rightarrow> Some (Inl (SinkInternal ''LRU order out of sync with active writers''), pm)
      | oldest_key # _ \<Rightarrow> close_writer pe po oldest_key pm)"

definition memory_exceeded :: "nat \<Rightarrow> ('b, 'w) PartitionManager \<Rightarrow> bool" where
  "memory_exceeded batch_memory pm \<longleftrightarrow>
     pc_global_memory_limit_bytes (pm_config pm) > 0 \<and>
     sat_add (pm_global_memory_bytes pm) batch_memory > pc_global_memory_limit_bytes (pm_config pm) \<and>
     pm_writers pm \<noteq> []"

definition too_many_open :: "('b, 'w) PartitionManager \<Rightarrow> bool" where
  "too_many_open pm \<longleftrightarrow> length (pm_writers pm) \<ge> pc_max_open_partitions (pm_config pm) \<and> pm_writers pm \<noteq> []"

subsection \<open>Writing to one partition\<close>

definition file_full :: "ParquetSinkConfig \<Rightarrow> ('b, 'w) PartitionWriter \<Rightarrow> bool" where
  "file_full cfg pw \<longleftrightarrow>
     (pc_max_records cfg > 0 \<and> pw_records_written pw \<ge> pc_max_records cfg) \<or>
     (pc_max_file_size_bytes cfg > 0 \<and> estimated_writer_bytes pw \<ge> pc_max_file_size_bytes cfg)"

text \<open>Whether the open file is rolled before the chunk is written: by size or by age.\<close>

definition should_roll :: "ParquetSinkConfig \<Rightarrow> nat \<Rightarrow> ('b, 'w) ActiveWriter \<Rightarrow> bool" where
  "should_roll cfg now aw \<longleftrightarrow>
     (pc_max_file_size_bytes cfg > 0 \<and> estimated_writer_bytes (aw_writer aw) \<ge> pc_max_file_size_bytes cfg) \<or>
     (pc_max_file_interval_sec cfg > 0 \<and> (now - aw_opened_at aw) div 1000000000 \<ge> pc_max_file_interval_sec cfg)"

datatype written = Rolled | Wrote

definition write_existing ::
  "'b parquet_env \<Rightarrow> ('b, 's, 'c, 'w) parquet_ops \<Rightarrow> PartitionId \<Rightarrow> 'b \<Rightarrow> nat \<Rightarrow> ('b, 'w) ActiveWriter \<Rightarrow>
   ('b, 'w) PartitionManager \<Rightarrow> (written sink_result \<times> ('b, 'w) PartitionManager) option" where
  "write_existing pe po pid chunk slice_memory aw pm =
     (case tick pm of (t, pm0) \<Rightarrow>
      if should_roll (pm_config pm0) (pe_instant pe t) aw
      then map_option (\<lambda>(res, pm1). (case res of Inl e \<Rightarrow> Inl e | Inr _ \<Rightarrow> Inr Rolled, pm1)) (close_writer pe po pid pm0)
      else case write_batch po chunk (aw_writer aw) of
             (Inl e, _) \<Rightarrow> Some (Inl e, abort_writer pid pm0)
           | (Inr _, pw) \<Rightarrow>
               let aw1 = aw\<lparr>aw_writer := pw, aw_buffered_memory := aw_buffered_memory aw + slice_memory\<rparr>;
                   pm1 = pm0\<lparr>pm_lru_order := remove1 pid (pm_lru_order pm0) @ [pid],
                             pm_writers := AList.update pid aw1 (pm_writers pm0),
                             pm_global_memory_bytes := atomic_add (pm_global_memory_bytes pm0) slice_memory\<rparr>
               in if file_full (pm_config pm1) pw
                  then map_option (\<lambda>(res, pm2). (case res of Inl e \<Rightarrow> Inl e | Inr _ \<Rightarrow> Inr Wrote, pm2)) (close_writer pe po pid pm1)
                  else Some (Inr Wrote, pm1))"

text \<open>Opening a file: the name, the upload, the writer and its first batch. Every failure leaves no writer behind.\<close>

definition open_writer ::
  "'b parquet_env \<Rightarrow> ('b, 's, 'c, 'w) parquet_ops \<Rightarrow> PartitionId \<Rightarrow> 'b \<Rightarrow> nat \<Rightarrow> ('b, 'w) PartitionManager \<Rightarrow>
   ('b, 'w) ActiveWriter sink_result \<times> ('b, 'w) PartitionManager" where
  "open_writer pe po pid chunk slice_memory pm =
     (case next_sequence pm of (seq, pm1) \<Rightarrow>
      case tick pm1 of (t, pm2) \<Rightarrow>
      case generate_filename (pe_nanos pe t) (pe_uuid pe t) (pid_path pid) seq (pm_namer pm2) of (filename, namer) \<Rightarrow>
        let pm3 = pm2\<lparr>pm_namer := namer\<rparr>
        in (case pe_start_upload pe t filename of
              Inl e \<Rightarrow> Inl e
            | Inr _ \<Rightarrow>
                (case writer_try_new po (pm_config pm3) (po_schema po chunk) of
                   Inl e \<Rightarrow> Inl e
                 | Inr pw0 \<Rightarrow>
                     (case write_batch po chunk pw0 of
                        (Inl e, _) \<Rightarrow> Inl e
                      | (Inr _, pw) \<Rightarrow> Inr \<lparr>aw_writer = pw, aw_file = filename, aw_partition = pid,
                                            aw_opened_at = pe_instant pe t, aw_buffered_memory = slice_memory\<rparr>)),
            pm3))"

definition write_new ::
  "'b parquet_env \<Rightarrow> ('b, 's, 'c, 'w) parquet_ops \<Rightarrow> PartitionId \<Rightarrow> 'b \<Rightarrow> nat \<Rightarrow>
   ('b, 'w) PartitionManager \<Rightarrow> (written sink_result \<times> ('b, 'w) PartitionManager) option" where
  "write_new pe po pid chunk slice_memory pm =
     (case evict_while (length (pm_writers pm)) too_many_open (close_oldest pe po) pm of
        None \<Rightarrow> None
      | Some (Inl e, pm1) \<Rightarrow> Some (Inl e, pm1)
      | Some (Inr _, pm1) \<Rightarrow>
          (case open_writer pe po pid chunk slice_memory pm1 of
             (Inl e, pm2) \<Rightarrow> Some (Inl e, pm2)
           | (Inr active, pm2) \<Rightarrow>
               let pm3 = pm2\<lparr>pm_global_memory_bytes := atomic_add (pm_global_memory_bytes pm2) slice_memory\<rparr>
               in if file_full (pm_config pm3) (aw_writer active)
                  then (case retire_active_writer pe po active pm3 of
                          None \<Rightarrow> None
                        | Some (Inl e, pm4) \<Rightarrow> Some (Inl e, pm4)
                        | Some (Inr _, pm4) \<Rightarrow>
                            Some (case check_background_errors pe pm4 of
                                    (Inl e, pm5) \<Rightarrow> (Inl e, pm5) | (Inr _, pm5) \<Rightarrow> (Inr Wrote, pm5)))
                  else Some (Inr Wrote, pm3\<lparr>pm_writers := AList.update pid active (pm_writers pm3),
                                            pm_lru_order := pm_lru_order pm3 @ [pid]\<rparr>)))"

text \<open>How many rows of the batch go into the current file; \<open>None\<close> when it has no room left.\<close>

definition rows_to_write :: "PartitionId \<Rightarrow> nat \<Rightarrow> ('b, 'w) PartitionManager \<Rightarrow> nat option" where
  "rows_to_write pid num_rows pm =
     (if pc_max_records (pm_config pm) > 0
      then case map_of (pm_writers pm) pid of
             Some aw \<Rightarrow>
               let remaining = pc_max_records (pm_config pm) - pw_records_written (aw_writer aw)
               in if remaining = 0 then None else Some (min num_rows remaining)
           | None \<Rightarrow> Some (min num_rows (pc_max_records (pm_config pm)))
      else Some num_rows)"

text \<open>The loop of \<open>route_sub_batch\<close> over the rows that are left. The product wraps in release builds.\<close>

fun route_loop ::
  "nat \<Rightarrow> 'b parquet_env \<Rightarrow> ('b, 's, 'c, 'w) parquet_ops \<Rightarrow> PartitionId \<Rightarrow> nat \<Rightarrow> nat \<Rightarrow> 'b \<Rightarrow>
   ('b, 'w) PartitionManager \<Rightarrow> (unit sink_result \<times> ('b, 'w) PartitionManager) option" where
  "route_loop 0 pe po pid total_memory total_rows batch pm = None"
| "route_loop (Suc fuel) pe po pid total_memory total_rows batch pm =
     (let num_rows = po_num_rows po batch
      in if num_rows = 0 then Some (Inr (), pm)
         else case rows_to_write pid num_rows pm of
           None \<Rightarrow>
             (case close_writer pe po pid pm of
                None \<Rightarrow> None
              | Some (Inl e, pm1) \<Rightarrow> Some (Inl e, pm1)
              | Some (Inr _, pm1) \<Rightarrow> route_loop fuel pe po pid total_memory total_rows batch pm1)
         | Some write_len \<Rightarrow>
             let chunk = (if write_len = num_rows then batch else po_slice po batch 0 write_len);
                 slice_memory = (total_memory * write_len) mod 18446744073709551616 div total_rows
             in (case (case map_of (pm_writers pm) pid of
                         Some aw \<Rightarrow> write_existing pe po pid chunk slice_memory aw pm
                       | None \<Rightarrow> write_new pe po pid chunk slice_memory pm) of
                   None \<Rightarrow> None
                 | Some (Inl e, pm1) \<Rightarrow> Some (Inl e, pm1)
                 | Some (Inr Rolled, pm1) \<Rightarrow> route_loop fuel pe po pid total_memory total_rows batch pm1
                 | Some (Inr Wrote, pm1) \<Rightarrow>
                     if write_len = num_rows then Some (Inr (), pm1)
                     else route_loop fuel pe po pid total_memory total_rows
                            (po_slice po batch write_len (num_rows - write_len)) pm1))"

definition route_sub_batch ::
  "'b parquet_env \<Rightarrow> ('b, 's, 'c, 'w) parquet_ops \<Rightarrow> PartitionId \<Rightarrow> 'b \<Rightarrow> ('b, 'w) PartitionManager \<Rightarrow>
   (unit sink_result \<times> ('b, 'w) PartitionManager) option" where
  "route_sub_batch pe po pid batch pm =
     (let total_rows = po_num_rows po batch; total_batch_memory = po_memory po batch; limit = pc_global_memory_limit_bytes (pm_config pm)
      in if total_rows = 0 then Some (Inr (), pm)
         else if limit > 0 \<and> total_batch_memory > limit
         then Some (Inl (SinkConfig ''RecordBatch size exceeds global memory limit''), pm)
         else case evict_while (length (pm_writers pm)) (memory_exceeded total_batch_memory) (close_oldest pe po) pm of
                None \<Rightarrow> None
              | Some (Inl e, pm1) \<Rightarrow> Some (Inl e, pm1)
              | Some (Inr _, pm1) \<Rightarrow>
                  route_loop (2 * total_rows + 1) pe po pid total_batch_memory total_rows batch pm1)"

subsection \<open>Routing a batch\<close>

record TemporalComponents =
  tc_years :: int32_array
  tc_months :: int32_array
  tc_days :: int32_array
  tc_hours :: int32_array

definition extract_temporal_components :: "('b, 's, 'c, 'w) parquet_ops \<Rightarrow> 'c \<Rightarrow> TemporalComponents option" where
  "extract_temporal_components po col =
     (case (case po_data_type po col of
              TimestampColumn \<Rightarrow> Some col
            | Int64Column \<Rightarrow> (case po_cast_nanos po col of Inl _ \<Rightarrow> None | Inr c \<Rightarrow> Some c)
            | OtherColumn \<Rightarrow> None) of
        None \<Rightarrow> None
      | Some ts \<Rightarrow>
          let part = (\<lambda>p. case po_date_part po ts p of Inl _ \<Rightarrow> None | Inr a \<Rightarrow> a)
          in case (part Year, part Month, part Day, part Hour) of
               (Some y, Some m, Some d, Some h) \<Rightarrow> Some \<lparr>tc_years = y, tc_months = m, tc_days = d, tc_hours = h\<rparr>
             | _ \<Rightarrow> None)"

definition row_key :: "PartitionKey \<Rightarrow> TemporalComponents option \<Rightarrow> nat \<Rightarrow> PartitionKey" where
  "row_key fallback_key components i =
     (case components of
        None \<Rightarrow> fallback_key
      | Some tc \<Rightarrow>
          if fst (tc_years tc) i
          then \<lparr>pk_year = snd (tc_years tc) i, pk_month = snd (tc_months tc) i, pk_day = snd (tc_days tc) i, pk_hour = snd (tc_hours tc) i\<rparr>
          else fallback_key)"

fun distinct_keys :: "'k list \<Rightarrow> 'k list \<Rightarrow> 'k list" where
  "distinct_keys seen [] = seen"
| "distinct_keys seen (k # ks) = distinct_keys (if k \<in> set seen then seen else seen @ [k]) ks"

definition partition_of :: "ParquetSinkConfig \<Rightarrow> string \<Rightarrow> PartitionKey \<Rightarrow> PartitionId" where
  "partition_of cfg sig k = \<lparr>pid_signal = sig, pid_path = format_partition_path (pc_partition_pattern cfg) sig k\<rparr>"

fun route_keys ::
  "'b parquet_env \<Rightarrow> ('b, 's, 'c, 'w) parquet_ops \<Rightarrow> string \<Rightarrow> 'b \<Rightarrow> PartitionKey list \<Rightarrow> PartitionKey list \<Rightarrow>
   ('b, 'w) PartitionManager \<Rightarrow> (unit sink_result \<times> ('b, 'w) PartitionManager) option" where
  "route_keys pe po sig batch row_keys [] pm = Some (Inr (), pm)"
| "route_keys pe po sig batch row_keys (key # keys) pm =
     (case po_filter po batch (map (\<lambda>k. k = key) row_keys) of
        Inl e \<Rightarrow> Some (Inl (ArrowFailure e), pm)
      | Inr sub_batch \<Rightarrow>
          (case route_sub_batch pe po (partition_of (pm_config pm) sig key) sub_batch pm of
             None \<Rightarrow> None
           | Some (Inl e, pm1) \<Rightarrow> Some (Inl e, pm1)
           | Some (Inr _, pm1) \<Rightarrow> route_keys pe po sig batch row_keys keys pm1))"

definition route_batch ::
  "'b parquet_env \<Rightarrow> ('b, 's, 'c, 'w) parquet_ops \<Rightarrow> string \<Rightarrow> 'b \<Rightarrow> ('b, 'w) PartitionManager \<Rightarrow>
   (unit sink_result \<times> ('b, 'w) PartitionManager) option" where
  "route_batch pe po sig batch pm =
     (case check_background_errors pe pm of
        (Inl e, pm1) \<Rightarrow> Some (Inl e, pm1)
      | (Inr _, pm1) \<Rightarrow>
          let num_rows = po_num_rows po batch
          in if num_rows = 0 then Some (Inr (), pm1)
             else case tick pm1 of (t, pm2) \<Rightarrow>
               let components = Option.bind (po_column_by_name po batch ''timestamp'') (extract_temporal_components po);
                   key = row_key (pe_utc_key pe t) components;
                   row_keys = map key [0..<num_rows]
               in if list_all (\<lambda>i. key i = key 0) [1..<num_rows]
                  then route_sub_batch pe po (partition_of (pm_config pm2) sig (key 0)) batch pm2
                  else route_keys pe po sig batch row_keys (distinct_keys [] row_keys) pm2)"

subsection \<open>Sweeping, flushing and draining\<close>

fun close_all ::
  "'b parquet_env \<Rightarrow> ('b, 's, 'c, 'w) parquet_ops \<Rightarrow> PartitionId list \<Rightarrow> ParquetSinkError option \<Rightarrow>
   ('b, 'w) PartitionManager \<Rightarrow> (unit sink_result \<times> ('b, 'w) PartitionManager) option" where
  "close_all pe po [] err pm =
     (case check_background_errors pe pm of
        (Inl e, pm1) \<Rightarrow> Some (to_result (first_error err (Some e)), pm1)
      | (Inr _, pm1) \<Rightarrow> Some (to_result err, pm1))"
| "close_all pe po (key # keys) err pm =
     (case close_writer pe po key pm of
        None \<Rightarrow> None
      | Some (Inl e, pm1) \<Rightarrow> close_all pe po keys (first_error err (Some e)) pm1
      | Some (Inr _, pm1) \<Rightarrow> close_all pe po keys err pm1)"

definition err_of :: "unit sink_result \<Rightarrow> ParquetSinkError option" where
  "err_of r = (case r of Inl e \<Rightarrow> Some e | Inr _ \<Rightarrow> None)"

fun idle_keys :: "'b parquet_env \<Rightarrow> nat \<Rightarrow> nat \<Rightarrow> (PartitionId \<times> ('b, 'w) ActiveWriter) list \<Rightarrow> PartitionId list" where
  "idle_keys pe t max_interval [] = []"
| "idle_keys pe t max_interval ((k, aw) # ws) =
     (if pe_instant pe t - aw_opened_at aw \<ge> max_interval * 1000000000
      then k # idle_keys pe (Suc t) max_interval ws else idle_keys pe (Suc t) max_interval ws)"

definition sweep_idle_writers ::
  "'b parquet_env \<Rightarrow> ('b, 's, 'c, 'w) parquet_ops \<Rightarrow> ('b, 'w) PartitionManager \<Rightarrow>
   (unit sink_result \<times> ('b, 'w) PartitionManager) option" where
  "sweep_idle_writers pe po pm =
     (case check_background_errors pe pm of (res, pm1) \<Rightarrow>
      let interval = pc_max_file_interval_sec (pm_config pm1)
      in if interval = 0 then Some (res, pm1)
         else close_all pe po (idle_keys pe (pm_readings pm1) interval (pm_writers pm1)) (err_of res)
                (pm1\<lparr>pm_readings := pm_readings pm1 + length (pm_writers pm1)\<rparr>))"

definition flush_all ::
  "'b parquet_env \<Rightarrow> ('b, 's, 'c, 'w) parquet_ops \<Rightarrow> ('b, 'w) PartitionManager \<Rightarrow>
   (unit sink_result \<times> ('b, 'w) PartitionManager) option" where
  "flush_all pe po pm =
     (case check_background_errors pe pm of (res, pm1) \<Rightarrow>
        close_all pe po (map fst (pm_writers pm1)) (err_of res) pm1)"

text \<open>\<open>wait_for_all_uploads\<close> waits for every upload and reports the first failure.\<close>

definition wait_for_all_uploads :: "'b parquet_env \<Rightarrow> ('b, 'w) PartitionManager \<Rightarrow> unit sink_result \<times> ('b, 'w) PartitionManager" where
  "wait_for_all_uploads pe pm =
     (to_result (foldl (\<lambda>err u. first_error err
          (case pe_join pe u of Uploaded \<Rightarrow> None | UploadFailed e \<Rightarrow> Some e | TaskPanicked e \<Rightarrow> Some (SinkInternal e)))
        None (pm_in_flight_uploads pm)),
      pm\<lparr>pm_in_flight_uploads := []\<rparr>)"

end
