(* ===== verification/ParquetPool.thy ===== *)
theory ParquetPool
  imports Parquet
begin

text \<open>
  The pool of open Parquet files: what each operation of the partition manager does to the writers, the
  order of use, the memory counter and the uploads, and the invariant they all keep.
\<close>

section \<open>Eviction from a pool\<close>

text \<open>
  What an eviction loop relies on: evicting from a non-empty pool always returns, keeps the
  invariant and makes the pool smaller.
\<close>

locale evicting_pool =
  fixes evict :: "'s \<Rightarrow> (('e + unit) \<times> 's) option" and count :: "'s \<Rightarrow> nat" and inv :: "'s \<Rightarrow> bool"
  assumes evict_returns: "inv s \<Longrightarrow> 0 < count s \<Longrightarrow> evict s \<noteq> None"
    and evict_inv: "inv s \<Longrightarrow> 0 < count s \<Longrightarrow> evict s = Some (r, s') \<Longrightarrow> inv s'"
    and evict_smaller: "inv s \<Longrightarrow> 0 < count s \<Longrightarrow> evict s = Some (r, s') \<Longrightarrow> count s' < count s"
begin

lemma evict_while_total:
  assumes "inv s" and "count s \<le> fuel" and "\<And>s. crowded s \<Longrightarrow> 0 < count s"
  shows "\<exists>r s'. evict_while fuel crowded evict s = Some (r, s') \<and> inv s' \<and> (r = Inr () \<longrightarrow> \<not> crowded s')"
  using assms(1,2)
proof (induction fuel arbitrary: s)
  case 0
  then show ?case using assms(3) [of s] by auto
next
  case (Suc fuel)
  show ?case
  proof (cases "crowded s")
    case True
    then have c: "0 < count s" by (rule assms(3))
    obtain r s1 where e: "evict s = Some (r, s1)" using evict_returns [OF Suc.prems(1) c] by fastforce
    have "inv s1" "count s1 \<le> fuel" using evict_inv [OF Suc.prems(1) c e] evict_smaller [OF Suc.prems(1) c e] Suc.prems(2) by simp_all
    then show ?thesis using Suc.IH [of s1] e True by (cases r) auto
  qed (use Suc.prems in auto)
qed

lemma evict_while_rel:
  assumes "inv s" and "evict_while fuel crowded evict s = Some (r, s')" and "\<And>s. crowded s \<Longrightarrow> 0 < count s" and "R s s"
    and "\<And>s1 s2 q. inv s1 \<Longrightarrow> 0 < count s1 \<Longrightarrow> R s s1 \<Longrightarrow> evict s1 = Some (q, s2) \<Longrightarrow> q = Inr () \<or> r \<noteq> Inr () \<Longrightarrow> R s s2"
  shows "R s s'"
proof -
  have "R s s'" if "inv s1" "R s s1" "evict_while fuel crowded evict s1 = Some (r, s')" for s1
    using that
  proof (induction fuel arbitrary: s1)
    case (Suc fuel)
    show ?case
    proof (cases "crowded s1")
      case True
      then have c: "0 < count s1" by (rule assms(3))
      obtain q s2 where e: "evict s1 = Some (q, s2)" using evict_returns [OF Suc.prems(1) c] by fastforce
      have i: "inv s2" by (rule evict_inv [OF Suc.prems(1) c e])
      show ?thesis
      proof (cases q)
        case (Inl err)
        then have "r = Inl err" "s' = s2" using Suc.prems(3) True e by auto
        then show ?thesis using assms(5) [OF Suc.prems(1) c Suc.prems(2) e] by simp
      next
        case (Inr u)
        then have "evict_while fuel crowded evict s2 = Some (r, s')" using Suc.prems(3) True e by auto
        then show ?thesis using Suc.IH [OF i assms(5) [OF Suc.prems(1) c Suc.prems(2) e]] Inr by simp
      qed
    qed (use Suc.prems in auto)
  qed (auto split: if_splits)
  then show ?thesis using assms(1,2,4) by blast
qed

end

declare evict_while.simps [simp del] wait_for_room.simps [simp del]

section \<open>Effects\<close>

text \<open>Checking and waiting only take uploads off the queue.\<close>

definition only_joins :: "('b, 'w) PartitionManager \<Rightarrow> ('b, 'w) PartitionManager \<Rightarrow> bool" where
  "only_joins pm pm' \<longleftrightarrow>
     (\<exists>q n. pm' = pm\<lparr>pm_in_flight_uploads := q, pm_readings := n\<rparr> \<and> length q \<le> length (pm_in_flight_uploads pm) \<and>
        set q \<subseteq> set (pm_in_flight_uploads pm))"

lemma only_joinsI:
  "pm' = pm\<lparr>pm_in_flight_uploads := q, pm_readings := n\<rparr> \<Longrightarrow> length q \<le> length (pm_in_flight_uploads pm) \<Longrightarrow>
   set q \<subseteq> set (pm_in_flight_uploads pm) \<Longrightarrow> only_joins pm pm'"
  unfolding only_joins_def by blast

lemma only_joins_refl [simp, intro]: "only_joins pm pm"
  unfolding only_joins_def by (intro exI [of _ "pm_in_flight_uploads pm"] exI [of _ "pm_readings pm"]) simp

lemma only_joins_trans: "only_joins a b \<Longrightarrow> only_joins b c \<Longrightarrow> only_joins a c"
  unfolding only_joins_def by fastforce

lemma reap_subset: "reap pe t us = (stay, err) \<Longrightarrow> length stay \<le> length us \<and> set stay \<subseteq> set us"
  by (induction us arbitrary: t stay err) (fastforce split: prod.splits if_splits)+

lemma check_only_joins: "check_background_errors pe pm = (r, pm') \<Longrightarrow> only_joins pm pm'"
proof (cases "reap pe (pm_readings pm) (pm_in_flight_uploads pm)")
  case (Pair stay err)
  assume "check_background_errors pe pm = (r, pm')"
  then show ?thesis
    using Pair reap_subset [OF Pair]
    by (auto simp: check_background_errors_def split: if_splits
        intro: only_joinsI [where q = stay and n = "pm_readings pm + length (pm_in_flight_uploads pm)"])
qed

lemma wait_only_joins:
  assumes "wait_oldest_in_flight_upload pe pm = (r, pm')"
  shows "only_joins pm pm'" and "pm_in_flight_uploads pm \<noteq> [] \<Longrightarrow> length (pm_in_flight_uploads pm') < length (pm_in_flight_uploads pm)"
proof -
  have "only_joins pm pm' \<and> (pm_in_flight_uploads pm \<noteq> [] \<longrightarrow> length (pm_in_flight_uploads pm') < length (pm_in_flight_uploads pm))"
  proof (cases "pm_in_flight_uploads pm")
    case Nil
    then show ?thesis using assms by (simp add: wait_oldest_in_flight_upload_def)
  next
    case (Cons u us)
    let ?pm1 = "pm\<lparr>pm_in_flight_uploads := us\<rparr>"
    have "only_joins ?pm1 pm'"
      using assms Cons by (auto simp: wait_oldest_in_flight_upload_def Let_def split: runtime.splits option.splits intro: check_only_joins)
    moreover have "only_joins pm ?pm1"
      unfolding only_joins_def using Cons by (intro exI [of _ us] exI [of _ "pm_readings pm"]) auto
    moreover have "length (pm_in_flight_uploads pm') \<le> length us" using calculation(1) by (auto simp: only_joins_def)
    ultimately show ?thesis using Cons by (auto intro: only_joins_trans)
  qed
  then show "only_joins pm pm'" and "pm_in_flight_uploads pm \<noteq> [] \<Longrightarrow> length (pm_in_flight_uploads pm') < length (pm_in_flight_uploads pm)"
    by simp_all
qed

definition uploads_room :: "('b, 'w) PartitionManager \<Rightarrow> bool" where
  "uploads_room pm \<longleftrightarrow> pc_max_concurrent_uploads (pm_config pm) > 0 \<longrightarrow>
     length (pm_in_flight_uploads pm) < pc_max_concurrent_uploads (pm_config pm)"

lemma wait_for_room_total:
  "length (pm_in_flight_uploads pm) \<le> fuel \<Longrightarrow>
   \<exists>e pm'. wait_for_room fuel pe err pm = Some (e, pm') \<and> only_joins pm pm' \<and> uploads_room pm' \<and> (e = None \<longrightarrow> err = None)"
proof (induction fuel arbitrary: pm err)
  case 0
  then show ?case by (auto simp: wait_for_room.simps [of 0] uploads_room_def)
next
  case (Suc fuel)
  show ?case
  proof (cases "uploads_room pm")
    case True
    then show ?thesis by (auto simp: wait_for_room.simps [of "Suc fuel"] uploads_room_def)
  next
    case False
    obtain r pm1 where w: "wait_oldest_in_flight_upload pe pm = (r, pm1)" by fastforce
    have ne: "pm_in_flight_uploads pm \<noteq> []" using False by (auto simp: uploads_room_def)
    have "length (pm_in_flight_uploads pm1) \<le> fuel" using wait_only_joins(2) [OF w ne] Suc.prems by simp
    note IH = Suc.IH [OF this]
    have step: "wait_for_room (Suc fuel) pe err pm =
      wait_for_room fuel pe (case r of Inl e \<Rightarrow> first_error err (Some e) | Inr _ \<Rightarrow> err) pm1"
      using False w by (subst wait_for_room.simps) (auto simp: uploads_room_def split: sum.split)
    have "(case r of Inl e \<Rightarrow> first_error err (Some e) | Inr _ \<Rightarrow> err) = None \<Longrightarrow> err = None"
      by (auto simp: first_error_def split: sum.splits if_splits)
    moreover obtain e pm' where "wait_for_room fuel pe (case r of Inl e \<Rightarrow> first_error err (Some e) | Inr _ \<Rightarrow> err) pm1 = Some (e, pm')"
      "only_joins pm1 pm'" "uploads_room pm'" "e = None \<longrightarrow> (case r of Inl e \<Rightarrow> first_error err (Some e) | Inr _ \<Rightarrow> err) = None"
      using IH [of "case r of Inl e \<Rightarrow> first_error err (Some e) | Inr _ \<Rightarrow> err"] by blast
    ultimately show ?thesis
      unfolding step using only_joins_trans [OF wait_only_joins(1) [OF w]] by (intro exI [of _ e] exI [of _ pm']) simp
  qed
qed

text \<open>
  Retiring a writer gives its memory back and hands its file to the storage; when it reports success the file
  was closed.
\<close>

definition upload_of :: "('b, 'w) ActiveWriter \<Rightarrow> bool \<Rightarrow> 'b upload" where
  "upload_of aw closed = \<lparr>up_file = aw_file aw, up_partition = aw_partition aw, up_batches = pw_batches (aw_writer aw), up_closed = closed\<rparr>"

definition retired :: "('b, 'w) ActiveWriter \<Rightarrow> ('b, 'w) PartitionManager \<Rightarrow> unit sink_result \<Rightarrow> ('b, 'w) PartitionManager \<Rightarrow> bool" where
  "retired aw pm res pm' \<longleftrightarrow>
     (\<exists>q n us. pm' = pm\<lparr>pm_global_memory_bytes := pm_global_memory_bytes pm - aw_buffered_memory aw, pm_in_flight_uploads := q,
                       pm_uploads := pm_uploads pm @ us, pm_readings := n\<rparr> \<and>
        set us \<subseteq> {upload_of aw True, upload_of aw False} \<and> (res = Inr () \<longrightarrow> us = [upload_of aw True]) \<and>
        set q \<subseteq> set (pm_in_flight_uploads pm) \<union> set us \<and>
        (pc_max_concurrent_uploads (pm_config pm) > 0 \<longrightarrow> length q \<le> pc_max_concurrent_uploads (pm_config pm)))"

lemma retiredI:
  assumes "pm' = pm\<lparr>pm_global_memory_bytes := pm_global_memory_bytes pm - aw_buffered_memory aw, pm_in_flight_uploads := q,
                       pm_uploads := pm_uploads pm @ us, pm_readings := n\<rparr>"
    and "set us \<subseteq> {upload_of aw True, upload_of aw False}" and "res = Inr () \<Longrightarrow> us = [upload_of aw True]"
    and "set q \<subseteq> set (pm_in_flight_uploads pm) \<union> set us"
    and "pc_max_concurrent_uploads (pm_config pm) > 0 \<Longrightarrow> length q \<le> pc_max_concurrent_uploads (pm_config pm)"
  shows "retired aw pm res pm'"
  unfolding retired_def by (rule exI [of _ q], rule exI [of _ n], rule exI [of _ us]) (use assms in simp)

lemma retiredE:
  assumes "retired aw pm res pm'"
  obtains q n us where "pm' = pm\<lparr>pm_global_memory_bytes := pm_global_memory_bytes pm - aw_buffered_memory aw, pm_in_flight_uploads := q,
                       pm_uploads := pm_uploads pm @ us, pm_readings := n\<rparr>"
    and "set us \<subseteq> {upload_of aw True, upload_of aw False}" and "res = Inr () \<Longrightarrow> us = [upload_of aw True]"
    and "set q \<subseteq> set (pm_in_flight_uploads pm) \<union> set us"
    and "pc_max_concurrent_uploads (pm_config pm) > 0 \<Longrightarrow> length q \<le> pc_max_concurrent_uploads (pm_config pm)"
  using assms unfolding retired_def
proof (elim exE conjE)
  fix q n us
  assume "pm' = pm\<lparr>pm_global_memory_bytes := pm_global_memory_bytes pm - aw_buffered_memory aw, pm_in_flight_uploads := q,
                       pm_uploads := pm_uploads pm @ us, pm_readings := n\<rparr>"
    and "set us \<subseteq> {upload_of aw True, upload_of aw False}" and "res = Inr () \<longrightarrow> us = [upload_of aw True]"
    and "set q \<subseteq> set (pm_in_flight_uploads pm) \<union> set us"
    and "pc_max_concurrent_uploads (pm_config pm) > 0 \<longrightarrow> length q \<le> pc_max_concurrent_uploads (pm_config pm)"
  then show thesis by (intro that [of n us q]) simp_all
qed

lemma retired_joins:
  assumes "retired aw pm res pm'" and "only_joins pm' pm''" and "res' = Inr () \<Longrightarrow> res = Inr ()"
  shows "retired aw pm res' pm''"
proof (rule retiredE [OF assms(1)])
  fix q n us
  assume pm': "pm' = pm\<lparr>pm_global_memory_bytes := pm_global_memory_bytes pm - aw_buffered_memory aw, pm_in_flight_uploads := q,
                       pm_uploads := pm_uploads pm @ us, pm_readings := n\<rparr>"
    and us: "set us \<subseteq> {upload_of aw True, upload_of aw False}" "res = Inr () \<Longrightarrow> us = [upload_of aw True]"
    and q: "set q \<subseteq> set (pm_in_flight_uploads pm) \<union> set us"
      "pc_max_concurrent_uploads (pm_config pm) > 0 \<Longrightarrow> length q \<le> pc_max_concurrent_uploads (pm_config pm)"
  obtain q' n' where "pm'' = pm'\<lparr>pm_in_flight_uploads := q', pm_readings := n'\<rparr>" "length q' \<le> length q" "set q' \<subseteq> set q"
    using assms(2) pm' by (auto simp: only_joins_def)
  then show ?thesis
    using pm' us q assms(3) by (intro retiredI [where q = q' and us = us and n = n']) auto
qed

lemma retire_effect: "\<exists>res pm'. retire_active_writer pe po aw pm = Some (res, pm') \<and> retired aw pm res pm'"
proof -
  let ?pm1 = "release_memory aw pm"
  obtain e pm2 where w: "wait_for_room (length (pm_in_flight_uploads ?pm1)) pe None ?pm1 = Some (e, pm2)"
    and j: "only_joins ?pm1 pm2" and room: "uploads_room pm2"
    using wait_for_room_total [of ?pm1 "length (pm_in_flight_uploads ?pm1)" pe None] by blast
  obtain q n where pm2: "pm2 = ?pm1\<lparr>pm_in_flight_uploads := q, pm_readings := n\<rparr>" and q: "set q \<subseteq> set (pm_in_flight_uploads pm)"
    using j by (auto simp: only_joins_def release_memory_def)
  have len: "pc_max_concurrent_uploads (pm_config pm) > 0 \<Longrightarrow> length q < pc_max_concurrent_uploads (pm_config pm)"
    using room unfolding pm2 uploads_room_def by (simp add: release_memory_def)
  show ?thesis
  proof (cases "pe_runtime pe = NoRuntime")
    case True
    have "retired aw pm (Inl x) pm2" for x
      using q len unfolding pm2 by (intro retiredI [where q = q and us = "[]" and n = n]) (auto simp: release_memory_def less_imp_le)
    then show ?thesis using w True by (simp add: retire_active_writer_def Let_def)
  next
    case False
    let ?c = "writer_close po (aw_writer aw)"
    let ?jh = "upload_of aw (?c = Inr ())"
    let ?pm3 = "pm2\<lparr>pm_in_flight_uploads := pm_in_flight_uploads pm2 @ [?jh], pm_uploads := pm_uploads pm2 @ [?jh]\<rparr>"
    have r3: "retired aw pm x ?pm3" if "x = Inr () \<Longrightarrow> ?c = Inr ()" for x
      using q len that unfolding pm2
      by (cases "?c = Inr ()") (auto intro!: retiredI [where q = "q @ [?jh]" and us = "[?jh]" and n = n] simp: release_memory_def Suc_le_eq)
    obtain r4 pm4 where c: "check_background_errors pe ?pm3 = (r4, pm4)" by fastforce
    have "retire_active_writer pe po aw pm = Some (case ?c of Inl x \<Rightarrow> (Inl x, ?pm3)
        | Inr _ \<Rightarrow> (case e of Some err \<Rightarrow> (Inl err, ?pm3) | None \<Rightarrow> check_background_errors pe ?pm3))"
      using w False unfolding retire_active_writer_def Let_def upload_of_def by simp
    then show ?thesis
      using r3 retired_joins [OF r3 [of "Inr ()"] check_only_joins [OF c], of r4] c
      by (cases ?c; cases e) auto
  qed
qed

text \<open>Closing the writer of a partition, open or not.\<close>

definition without :: "PartitionId \<Rightarrow> ('b, 'w) PartitionManager \<Rightarrow> ('b, 'w) PartitionManager" where
  "without pid pm = pm\<lparr>pm_lru_order := remove1 pid (pm_lru_order pm), pm_writers := AList.delete pid (pm_writers pm)\<rparr>"

lemma close_effect:
  obtains res pm' where "close_writer pe po pid pm = Some (res, pm')"
    and "map_of (pm_writers pm) pid = None \<Longrightarrow> only_joins (without pid pm) pm'"
    and "\<And>aw. map_of (pm_writers pm) pid = Some aw \<Longrightarrow> retired aw (without pid pm) res pm'"
proof (cases "map_of (pm_writers pm) pid")
  case None
  obtain res pm' where c: "check_background_errors pe (pm\<lparr>pm_lru_order := remove1 pid (pm_lru_order pm)\<rparr>) = (res, pm')" by fastforce
  have "pm\<lparr>pm_lru_order := remove1 pid (pm_lru_order pm)\<rparr> = without pid pm"
    using None by (simp add: without_def map_of_eq_None_iff delete_id)
  moreover have "close_writer pe po pid pm = Some (res, pm')" using None c by (simp add: close_writer_def Let_def)
  ultimately show thesis using None check_only_joins [OF c] by (intro that [of res pm']) simp_all
next
  case (Some aw)
  obtain r pm1 where r: "retire_active_writer pe po aw (without pid pm) = Some (r, pm1)" "retired aw (without pid pm) r pm1"
    using retire_effect [of pe po aw "without pid pm"] by blast
  obtain bg pm' where c: "check_background_errors pe pm1 = (bg, pm')" by fastforce
  have "close_writer pe po pid pm = Some (case r of Inl e \<Rightarrow> Inl e | Inr _ \<Rightarrow> bg, pm')"
    using Some r(1) c by (simp add: close_writer_def without_def)
  moreover have "retired aw (without pid pm) (case r of Inl e \<Rightarrow> Inl e | Inr _ \<Rightarrow> bg) pm'"
    by (rule retired_joins [OF r(2) check_only_joins [OF c]]) (auto split: sum.splits)
  ultimately show thesis using Some by (intro that [of "case r of Inl e \<Rightarrow> Inl e | Inr _ \<Rightarrow> bg" pm']) simp_all
qed

section \<open>The invariant\<close>

definition buffered :: "(PartitionId \<times> ('b, 'w) ActiveWriter) list \<Rightarrow> nat" where
  "buffered ws = sum_list (map (\<lambda>(_, aw). aw_buffered_memory aw) ws)"

definition batch_rows :: "('b, 's, 'c, 'w) parquet_ops \<Rightarrow> 'b list \<Rightarrow> nat" where
  "batch_rows po bs = sum_list (map (po_num_rows po) bs)"

definition within :: "nat \<Rightarrow> nat \<Rightarrow> bool" where
  "within n limit \<longleftrightarrow> (limit > 0 \<longrightarrow> n \<le> limit)"

definition writer_ok :: "('b, 's, 'c, 'w) parquet_ops \<Rightarrow> ParquetSinkConfig \<Rightarrow> PartitionId \<Rightarrow> ('b, 'w) ActiveWriter \<Rightarrow> bool" where
  "writer_ok po cfg pid aw \<longleftrightarrow>
     aw_partition aw = pid \<and> pw_records_written (aw_writer aw) = batch_rows po (pw_batches (aw_writer aw)) \<and>
     within (pw_records_written (aw_writer aw)) (pc_max_records cfg)"

text \<open>Writers and order of use name the same partitions.\<close>

definition in_sync :: "('b, 'w) PartitionManager \<Rightarrow> bool" where
  "in_sync pm \<longleftrightarrow> distinct (map fst (pm_writers pm)) \<and> distinct (pm_lru_order pm) \<and> set (pm_lru_order pm) = fst ` set (pm_writers pm)"

definition memory_ok :: "('b, 'w) PartitionManager \<Rightarrow> bool" where
  "memory_ok pm \<longleftrightarrow> (pc_global_memory_limit_bytes (pm_config pm) > 0 \<longrightarrow>
     pm_global_memory_bytes pm = buffered (pm_writers pm) \<and> pm_global_memory_bytes pm \<le> pc_global_memory_limit_bytes (pm_config pm))"

definition uploads_ok :: "('b, 's, 'c, 'w) parquet_ops \<Rightarrow> ('b, 'w) PartitionManager \<Rightarrow> bool" where
  "uploads_ok po pm \<longleftrightarrow>
     (\<forall>u \<in> set (pm_uploads pm). within (batch_rows po (up_batches u)) (pc_max_records (pm_config pm))) \<and>
     set (pm_in_flight_uploads pm) \<subseteq> set (pm_uploads pm) \<and>
     within (length (pm_in_flight_uploads pm)) (pc_max_concurrent_uploads (pm_config pm))"

definition pool_inv :: "('b, 's, 'c, 'w) parquet_ops \<Rightarrow> ('b, 'w) PartitionManager \<Rightarrow> bool" where
  "pool_inv po pm \<longleftrightarrow>
     in_sync pm \<and> (\<forall>pid aw. map_of (pm_writers pm) pid = Some aw \<longrightarrow> writer_ok po (pm_config pm) pid aw) \<and>
     length (pm_writers pm) \<le> max 1 (pc_max_open_partitions (pm_config pm)) \<and> memory_ok pm \<and> uploads_ok po pm \<and>
     pc_global_memory_limit_bytes (pm_config pm) < u64_max"

lemmas pool_defs = pool_inv_def in_sync_def memory_ok_def uploads_ok_def writer_ok_def within_def

lemma buffered_delete:
  "distinct (map fst ws) \<Longrightarrow> map_of ws pid = Some aw \<Longrightarrow> buffered (AList.delete pid ws) + aw_buffered_memory aw = buffered ws"
proof (induction ws)
  case (Cons w ws)
  then show ?case
    by (cases w) (auto simp: buffered_def delete_id dest!: map_of_SomeD split: if_splits)
qed simp

lemma buffered_update_new: "pid \<notin> fst ` set ws \<Longrightarrow> buffered (AList.update pid aw ws) = buffered ws + aw_buffered_memory aw"
  by (induction ws) (auto simp: buffered_def)

lemma buffered_update:
  "map_of ws pid = Some aw \<Longrightarrow> buffered (AList.update pid aw' ws) + aw_buffered_memory aw = buffered ws + aw_buffered_memory aw'"
  by (induction ws) (auto simp: buffered_def split: if_splits)

lemma only_joins_inv:
  assumes "only_joins pm pm'" and inv: "pool_inv po pm"
  shows "pool_inv po pm'"
proof -
  obtain q n where pm': "pm' = pm\<lparr>pm_in_flight_uploads := q, pm_readings := n\<rparr>" and q: "length q \<le> length (pm_in_flight_uploads pm)"
    "set q \<subseteq> set (pm_in_flight_uploads pm)"
    using assms(1) unfolding only_joins_def by (elim exE conjE)
  have "uploads_ok po pm'" using inv q unfolding pm' pool_inv_def by (auto simp: uploads_ok_def within_def)
  then show ?thesis using inv unfolding pm' pool_inv_def by (auto simp: in_sync_def memory_ok_def)
qed

lemma length_delete: "distinct (map fst ws) \<Longrightarrow> map_of ws pid = Some aw \<Longrightarrow> length (AList.delete pid ws) < length ws"
proof -
  assume "map_of ws pid = Some aw"
  then have "pid \<in> set (map fst ws)" by (metis domI dom_map_of_conv_image_fst set_map)
  then have "length (removeAll pid (map fst ws)) < length (map fst ws)" by (rule length_removeAll_less)
  then show ?thesis by (simp add: delete_keys [symmetric])
qed

lemma in_sync_without: "in_sync pm \<Longrightarrow> in_sync (without pid pm)"
  by (auto simp: in_sync_def without_def distinct_removeAll delete_keys set_remove1_eq simp flip: set_map)

lemma retired_inv:
  assumes inv: "pool_inv po pm" and aw: "map_of (pm_writers pm) pid = Some aw" and r: "retired aw (without pid pm) res pm'"
  shows "pool_inv po pm'"
proof (rule retiredE [OF r])
  fix q n us
  assume pm': "pm' = (without pid pm)\<lparr>pm_global_memory_bytes := pm_global_memory_bytes (without pid pm) - aw_buffered_memory aw,
      pm_in_flight_uploads := q, pm_uploads := pm_uploads (without pid pm) @ us, pm_readings := n\<rparr>"
    and us: "set us \<subseteq> {upload_of aw True, upload_of aw False}"
    and q: "set q \<subseteq> set (pm_in_flight_uploads (without pid pm)) \<union> set us"
      "pc_max_concurrent_uploads (pm_config (without pid pm)) > 0 \<Longrightarrow> length q \<le> pc_max_concurrent_uploads (pm_config (without pid pm))"
  have d: "distinct (map fst (pm_writers pm))" using inv by (simp add: pool_defs)
  have "in_sync pm'" using in_sync_without [of pm pid] inv unfolding pm' by (simp add: pool_inv_def in_sync_def)
  moreover have "memory_ok pm'"
    using inv buffered_delete [OF d aw] unfolding pm' by (auto simp: pool_inv_def memory_ok_def without_def)
  moreover have "uploads_ok po pm'"
  proof -
    have "writer_ok po (pm_config pm) pid aw" "uploads_ok po pm" using inv aw by (simp_all add: pool_inv_def)
    then have "\<forall>u \<in> set us. within (batch_rows po (up_batches u)) (pc_max_records (pm_config pm))"
      using us by (auto simp: writer_ok_def upload_of_def)
    then show ?thesis
      using \<open>uploads_ok po pm\<close> q unfolding pm' by (auto simp: uploads_ok_def without_def within_def)
  qed
  moreover have "length (pm_writers pm') \<le> length (pm_writers pm)"
    using length_delete [OF d aw] unfolding pm' by (simp add: without_def)
  ultimately show ?thesis
    using inv unfolding pm' by (auto simp: pool_inv_def without_def delete_conv')
qed

lemma without_absent: "in_sync pm \<Longrightarrow> map_of (pm_writers pm) pid = None \<Longrightarrow> without pid pm = pm"
  by (simp add: in_sync_def without_def map_of_eq_None_iff delete_id remove1_idem)

section \<open>The rows of a partition\<close>

text \<open>
  The abstraction of the manager: for every partition the rows in its closed files, in the order they were closed,
  followed by those in its open file.
\<close>

definition rows_of :: "('b \<Rightarrow> 'r list) \<Rightarrow> 'b list \<Rightarrow> 'r list" where
  "rows_of rows bs = concat (map rows bs)"

definition partition_rows :: "('b \<Rightarrow> 'r list) \<Rightarrow> ('b, 'w) PartitionManager \<Rightarrow> PartitionId \<Rightarrow> 'r list" where
  "partition_rows rows pm pid =
     rows_of rows (concat (map up_batches (filter (\<lambda>u. up_partition u = pid \<and> up_closed u) (pm_uploads pm)))) @
     (case map_of (pm_writers pm) pid of None \<Rightarrow> [] | Some aw \<Rightarrow> rows_of rows (pw_batches (aw_writer aw)))"

lemma rows_of_simps [simp]: "rows_of rows [] = []" "rows_of rows (xs @ ys) = rows_of rows xs @ rows_of rows ys" "rows_of rows [b] = rows b"
  by (simp_all add: rows_of_def)

lemma partition_rows_cong:
  "pm_uploads pm' = pm_uploads pm \<Longrightarrow> map_of (pm_writers pm') = map_of (pm_writers pm) \<Longrightarrow> partition_rows rows pm' = partition_rows rows pm"
  by (rule ext) (simp add: partition_rows_def)

lemma only_joins_rows: "only_joins pm pm' \<Longrightarrow> partition_rows rows pm' = partition_rows rows pm"
  by (rule partition_rows_cong) (auto simp: only_joins_def)

lemma retired_rows:
  assumes "retired aw (without pid pm) (Inr ()) pm'" and "map_of (pm_writers pm) pid = Some aw" and "aw_partition aw = pid"
  shows "partition_rows rows pm' = partition_rows rows pm"
proof (rule ext, rule retiredE [OF assms(1)])
  fix p q n us
  assume "pm' = (without pid pm)\<lparr>pm_global_memory_bytes := pm_global_memory_bytes (without pid pm) - aw_buffered_memory aw,
      pm_in_flight_uploads := q, pm_uploads := pm_uploads (without pid pm) @ us, pm_readings := n\<rparr>"
    and "Inr () = Inr () \<Longrightarrow> us = [upload_of aw True]"
  then show "partition_rows rows pm' p = partition_rows rows pm p"
    using assms(2,3) by (auto simp: partition_rows_def without_def upload_of_def delete_conv')
qed

section \<open>Closing and evicting\<close>

text \<open>What a step may do that only closes files.\<close>

definition shrunk :: "('b \<Rightarrow> 'r list) \<Rightarrow> bool \<Rightarrow> ('b, 'w) PartitionManager \<Rightarrow> ('b, 'w) PartitionManager \<Rightarrow> bool" where
  "shrunk rows ok pm pm' \<longleftrightarrow>
     pm_config pm' = pm_config pm \<and> pm_global_memory_bytes pm' \<le> pm_global_memory_bytes pm \<and>
     map_of (pm_writers pm') \<subseteq>\<^sub>m map_of (pm_writers pm) \<and> (ok \<longrightarrow> partition_rows rows pm' = partition_rows rows pm)"

lemma shrunk_refl [simp, intro]: "shrunk rows ok pm pm"
  by (simp add: shrunk_def)

lemma shrunk_trans: "shrunk rows ok a b \<Longrightarrow> shrunk rows ok' b c \<Longrightarrow> (ok'' \<Longrightarrow> ok \<and> ok') \<Longrightarrow> shrunk rows ok'' a c"
  by (auto simp: shrunk_def intro: map_le_trans)

lemma shrunk_absent: "shrunk rows ok pm pm' \<Longrightarrow> map_of (pm_writers pm) pid = None \<Longrightarrow> map_of (pm_writers pm') pid = None"
  unfolding shrunk_def map_le_def by (metis domIff)

lemma only_joins_shrunk: "only_joins pm pm' \<Longrightarrow> shrunk rows ok pm pm'"
  using only_joins_rows [of pm pm' rows] by (auto simp: shrunk_def only_joins_def)

lemma retired_shrunk:
  assumes inv: "pool_inv po pm" and aw: "map_of (pm_writers pm) pid = Some aw" and r: "retired aw (without pid pm) r pm'"
  shows "shrunk rows (r = Inr ()) pm pm'"
proof -
  have "aw_partition aw = pid" using inv aw by (simp add: pool_inv_def writer_ok_def)
  then have "r = Inr () \<Longrightarrow> partition_rows rows pm' = partition_rows rows pm" using retired_rows r aw by blast
  moreover have "pm_config pm' = pm_config pm" "pm_global_memory_bytes pm' \<le> pm_global_memory_bytes pm"
    "pm_writers pm' = AList.delete pid (pm_writers pm)"
    using r by (auto simp: retired_def without_def)
  ultimately show ?thesis by (auto simp: shrunk_def delete_conv' map_le_def)
qed

lemma close_facts:
  assumes inv: "pool_inv po pm" and run: "close_writer pe po pid pm = Some (r, pm')"
  shows "pool_inv po pm'" and "shrunk rows (r = Inr ()) pm pm'" and "map_of (pm_writers pm') = (map_of (pm_writers pm))(pid := None)"
    and "map_of (pm_writers pm) pid \<noteq> None \<Longrightarrow> length (pm_writers pm') < length (pm_writers pm)"
    and "pm_writers pm' = AList.delete pid (pm_writers pm)"
proof -
  have sync: "in_sync pm" using inv by (simp add: pool_inv_def)
  obtain r0 pm0 where c: "close_writer pe po pid pm = Some (r0, pm0)"
    and none: "map_of (pm_writers pm) pid = None \<Longrightarrow> only_joins (without pid pm) pm0"
    and some: "\<And>aw. map_of (pm_writers pm) pid = Some aw \<Longrightarrow> retired aw (without pid pm) r0 pm0"
    by (rule close_effect [of pe po pid pm]) (rule that)
  have eq: "r0 = r" "pm0 = pm'" using c run by simp_all
  have w: "pm_writers pm' = AList.delete pid (pm_writers pm)"
  proof (cases "map_of (pm_writers pm) pid")
    case None
    then show ?thesis using none eq by (auto simp: only_joins_def without_def)
  next
    case (Some aw)
    then show ?thesis using some [OF Some] eq by (auto simp: retired_def without_def)
  qed
  then show "pm_writers pm' = AList.delete pid (pm_writers pm)" .
  show "map_of (pm_writers pm') = (map_of (pm_writers pm))(pid := None)" by (simp add: w delete_conv')
  show "length (pm_writers pm') < length (pm_writers pm)" if "map_of (pm_writers pm) pid \<noteq> None"
    using length_delete [of "pm_writers pm" pid] that sync w by (auto simp: in_sync_def)
  have "pool_inv po pm' \<and> shrunk rows (r = Inr ()) pm pm'"
  proof (cases "map_of (pm_writers pm) pid")
    case None
    then have "only_joins pm pm'" using none without_absent [OF sync None] eq by simp
    then show ?thesis using only_joins_inv inv only_joins_shrunk by blast
  next
    case (Some aw)
    show ?thesis using retired_inv [OF inv Some] retired_shrunk [OF inv Some] some [OF Some] eq by simp
  qed
  then show "pool_inv po pm'" and "shrunk rows (r = Inr ()) pm pm'" by simp_all
qed

lemma close_returns: "\<exists>r pm'. close_writer pe po pid pm = Some (r, pm')"
  by (rule close_effect [of pe po pid pm]) blast

lemma oldest_open:
  assumes "in_sync pm" and "pm_writers pm \<noteq> []"
  obtains pid where "close_oldest pe po pm = close_writer pe po pid pm" and "map_of (pm_writers pm) pid \<noteq> None"
proof (cases "pm_lru_order pm")
  case Nil
  then show thesis using assms by (simp add: in_sync_def)
next
  case (Cons pid rest)
  then have "pid \<in> fst ` set (pm_writers pm)" using assms(1) by (auto simp: in_sync_def)
  then show thesis using Cons by (intro that [of pid]) (simp_all add: close_oldest_def map_of_eq_None_iff)
qed

interpretation pool: evicting_pool "close_oldest pe po" "\<lambda>pm. length (pm_writers pm)" "pool_inv po"
proof
  fix pm r pm'
  assume inv: "pool_inv po pm" and ne: "0 < length (pm_writers pm)"
  then obtain pid where o: "close_oldest pe po pm = close_writer pe po pid pm" "map_of (pm_writers pm) pid \<noteq> None"
    using oldest_open [of pm pe po] by (auto simp: pool_inv_def)
  show "close_oldest pe po pm \<noteq> None" using close_returns [of pe po pid pm] o by auto
  assume "close_oldest pe po pm = Some (r, pm')"
  then have c: "close_writer pe po pid pm = Some (r, pm')" using o by simp
  show "pool_inv po pm'" by (rule close_facts(1) [OF inv c])
  show "length (pm_writers pm') < length (pm_writers pm)" by (rule close_facts(4) [OF inv c o(2)])
qed

lemma evict_facts:
  assumes inv: "pool_inv po pm" and crowded: "\<And>pm. crowded pm \<Longrightarrow> pm_writers pm \<noteq> []"
  obtains r pm' where "evict_while (length (pm_writers pm)) crowded (close_oldest pe po) pm = Some (r, pm')"
    and "pool_inv po pm'" and "shrunk rows (r = Inr ()) pm pm'" and "r = Inr () \<Longrightarrow> \<not> crowded pm'"
proof -
  have c: "0 < length (pm_writers s)" if "crowded s" for s using crowded [OF that] by simp
  obtain r pm' where e: "evict_while (length (pm_writers pm)) crowded (close_oldest pe po) pm = Some (r, pm')"
    and i: "pool_inv po pm'" "r = Inr () \<longrightarrow> \<not> crowded pm'"
    using pool.evict_while_total [of po pm "length (pm_writers pm)" crowded pe] inv c by blast
  have "shrunk rows (r = Inr ()) pm pm'"
  proof (rule pool.evict_while_rel [OF inv e c, where R = "shrunk rows (r = Inr ())"])
    fix s1 s2 q
    assume s: "pool_inv po s1" "0 < length (pm_writers s1)" "shrunk rows (r = Inr ()) pm s1" "close_oldest pe po s1 = Some (q, s2)"
      "q = Inr () \<or> r \<noteq> Inr ()"
    have "in_sync s1" "pm_writers s1 \<noteq> []" using s(1,2) by (simp_all add: pool_inv_def)
    then obtain pid where "close_oldest pe po s1 = close_writer pe po pid s1" by (rule oldest_open)
    then have "close_writer pe po pid s1 = Some (q, s2)" using s(4) by simp
    then show "shrunk rows (r = Inr ()) pm s2" using shrunk_trans [OF s(3) close_facts(2) [OF s(1)]] s(5) by blast
  qed simp_all
  then show thesis using that e i by blast
qed

end
