(* ===== verification/ParquetRouting.thy ===== *)
theory ParquetRouting
  imports ParquetPool EventSystem
begin

text \<open>
  Routing batches to partitions: every row of a batch that is routed successfully is appended to the partition
  of its timestamp, and nothing else changes; and the limits on open files, memory, records per file and
  concurrent uploads hold in every reachable state.
\<close>

section \<open>Writing a chunk\<close>

text \<open>Documented behaviour of Arrow: row counts, slices and filters of a batch in terms of its rows.\<close>

definition arrow_rows_ok :: "('b, 's, 'c, 'w) parquet_ops \<Rightarrow> ('b \<Rightarrow> 'r list) \<Rightarrow> bool" where
  "arrow_rows_ok po rows \<longleftrightarrow>
     (\<forall>b. po_num_rows po b = length (rows b)) \<and>
     (\<forall>b off n. off + n \<le> length (rows b) \<longrightarrow> rows (po_slice po b off n) = take n (drop off (rows b))) \<and>
     (\<forall>b mask b'. po_filter po b mask = Inr b' \<longrightarrow> length mask = length (rows b) \<longrightarrow> rows b' = map fst (filter snd (zip (rows b) mask)))"

definition memory_room :: "nat \<Rightarrow> ('b, 'w) PartitionManager \<Rightarrow> bool" where
  "memory_room n pm \<longleftrightarrow> (pc_global_memory_limit_bytes (pm_config pm) > 0 \<longrightarrow>
     pm_global_memory_bytes pm + n \<le> pc_global_memory_limit_bytes (pm_config pm))"

lemma memory_room_shrunk: "shrunk rows ok pm pm' \<Longrightarrow> memory_room n pm \<Longrightarrow> memory_room n pm'"
  by (auto simp: memory_room_def shrunk_def)

text \<open>The result of writing one chunk to a partition.\<close>

definition wrote ::
  "('b \<Rightarrow> 'r list) \<Rightarrow> PartitionId \<Rightarrow> 'b \<Rightarrow> nat \<Rightarrow> ('b, 'w) PartitionManager \<Rightarrow> written sink_result \<Rightarrow> ('b, 'w) PartitionManager \<Rightarrow> bool" where
  "wrote rows pid chunk mem pm r pm' \<longleftrightarrow>
     pm_config pm' = pm_config pm \<and>
     (case r of
        Inl _ \<Rightarrow> True
      | Inr Rolled \<Rightarrow> shrunk rows True pm pm' \<and> map_of (pm_writers pm') pid = None
      | Inr Wrote \<Rightarrow> pm_global_memory_bytes pm' \<le> pm_global_memory_bytes pm + mem \<and>
          partition_rows rows pm' = (partition_rows rows pm)(pid := partition_rows rows pm pid @ rows chunk))"

lemma write_batch_ok:
  "write_batch po chunk pw = (Inr (), pw') \<Longrightarrow>
   pw_records_written pw' = pw_records_written pw + po_num_rows po chunk \<and> pw_batches pw' = pw_batches pw @ [chunk]"
  by (auto simp: write_batch_def Let_def split: prod.splits sum.splits)

lemma in_sync_touch:
  "in_sync pm \<Longrightarrow> in_sync (pm\<lparr>pm_lru_order := remove1 pid (pm_lru_order pm) @ [pid], pm_writers := AList.update pid aw (pm_writers pm),
     pm_global_memory_bytes := m\<rparr>)"
  by (auto simp: in_sync_def distinct_update set_remove1_eq update_keys simp flip: set_map)

lemma touch_inv:
  assumes inv: "pool_inv po pm" and aw: "writer_ok po (pm_config pm) pid aw"
    and mem: "pc_global_memory_limit_bytes (pm_config pm) > 0 \<Longrightarrow>
      m = buffered (AList.update pid aw (pm_writers pm)) \<and> m \<le> pc_global_memory_limit_bytes (pm_config pm)"
    and len: "length (AList.update pid aw (pm_writers pm)) \<le> max 1 (pc_max_open_partitions (pm_config pm))"
  shows "pool_inv po (pm\<lparr>pm_lru_order := remove1 pid (pm_lru_order pm) @ [pid], pm_writers := AList.update pid aw (pm_writers pm),
     pm_global_memory_bytes := m\<rparr>)" (is "pool_inv po ?pm'")
proof -
  have "in_sync ?pm'" using inv in_sync_touch [where pm = pm and pid = pid and aw = aw and m = m] by (simp add: pool_inv_def)
  moreover have "memory_ok ?pm'" using mem by (auto simp: memory_ok_def)
  moreover have "uploads_ok po ?pm'" using inv by (simp add: pool_inv_def uploads_ok_def)
  ultimately show ?thesis
    using inv aw len by (simp add: pool_inv_def update_conv' del: One_nat_def)
qed

lemma length_update_present: "map_of ws k \<noteq> None \<Longrightarrow> length (AList.update k v ws) = length ws"
  by (metis length_map map_of_eq_None_iff set_map update_keys)

lemma length_update_absent: "map_of ws k = None \<Longrightarrow> length (AList.update k v ws) = Suc (length ws)"
  by (metis length_append_singleton length_map map_of_eq_None_iff set_map update_keys)

lemma partition_rows_update:
  assumes "pm_uploads pm' = pm_uploads pm" and "map_of (pm_writers pm') = (map_of (pm_writers pm))(pid \<mapsto> aw')"
    and "rows_of rows (pw_batches (aw_writer aw')) =
      (case map_of (pm_writers pm) pid of None \<Rightarrow> [] | Some aw \<Rightarrow> rows_of rows (pw_batches (aw_writer aw))) @ rows chunk"
  shows "partition_rows rows pm' = (partition_rows rows pm)(pid := partition_rows rows pm pid @ rows chunk)"
  using assms by (intro ext) (simp add: partition_rows_def)

text \<open>Closing the file just written to keeps its rows.\<close>

lemma wrote_shrunk:
  "wrote rows pid chunk mem pm (Inr Wrote) pm1 \<Longrightarrow> shrunk rows (r = Inr ()) pm1 pm2 \<Longrightarrow>
   wrote rows pid chunk mem pm (case r of Inl e \<Rightarrow> Inl e | Inr _ \<Rightarrow> Inr Wrote) pm2"
  by (auto simp: wrote_def shrunk_def split: sum.split)

lemma wrote_close:
  assumes inv: "pool_inv po pm1" and w: "wrote rows pid chunk mem pm (Inr Wrote) pm1" and c: "close_writer pe po pid pm1 = Some (r, pm2)"
  shows "pool_inv po pm2" and "wrote rows pid chunk mem pm (case r of Inl e \<Rightarrow> Inl e | Inr _ \<Rightarrow> Inr Wrote) pm2"
  using close_facts(1) [OF inv c] wrote_shrunk [OF w close_facts(2) [OF inv c]] by simp_all

lemma tick_facts:
  assumes "tick pm = (t, pm0)"
  shows "pool_inv po pm \<Longrightarrow> pool_inv po pm0" and "partition_rows rows pm0 = partition_rows rows pm"
    and "pm_config pm0 = pm_config pm" and "pm_writers pm0 = pm_writers pm" and "pm_global_memory_bytes pm0 = pm_global_memory_bytes pm"
proof -
  have j: "only_joins pm pm0"
    using assms by (auto simp: tick_def intro: only_joinsI [where q = "pm_in_flight_uploads pm" and n = "Suc (pm_readings pm)"])
  then show "pool_inv po pm \<Longrightarrow> pool_inv po pm0" by (rule only_joins_inv)
  show "partition_rows rows pm0 = partition_rows rows pm" by (rule only_joins_rows [OF j])
qed (use assms in \<open>auto simp: tick_def\<close>)

lemma abort_facts:
  assumes inv: "pool_inv po pm" and aw: "map_of (pm_writers pm) pid = Some aw"
  shows "pool_inv po (abort_writer pid pm)" and "pm_config (abort_writer pid pm) = pm_config pm"
proof -
  have "retired aw (without pid pm) (Inl e) (abort_writer pid pm)" for e
    using inv aw by (intro retiredI [where q = "pm_in_flight_uploads pm" and us = "[]" and n = "pm_readings pm"])
      (auto simp: abort_writer_def without_def release_memory_def pool_inv_def uploads_ok_def within_def)
  then show "pool_inv po (abort_writer pid pm)" by (rule retired_inv [OF inv aw])
  show "pm_config (abort_writer pid pm) = pm_config pm" using aw by (simp add: abort_writer_def release_memory_def)
qed

text \<open>A writer, new or not, after it has taken the chunk, as the most recently used one.\<close>

lemma touch_facts:
  assumes inv: "pool_inv po pm" and room: "memory_room mem pm" and ok: "writer_ok po (pm_config pm) pid aw'"
    and old: "map_of (pm_writers pm) pid = None \<and> length (pm_writers pm) < max 1 (pc_max_open_partitions (pm_config pm)) \<and> aw_buffered_memory aw' = mem \<or>
      (\<exists>aw. map_of (pm_writers pm) pid = Some aw \<and> aw_buffered_memory aw' = aw_buffered_memory aw + mem)"
    and new: "rows_of rows (pw_batches (aw_writer aw')) =
      (case map_of (pm_writers pm) pid of None \<Rightarrow> [] | Some aw \<Rightarrow> rows_of rows (pw_batches (aw_writer aw))) @ rows chunk"
    and pm': "pm' = pm\<lparr>pm_lru_order := remove1 pid (pm_lru_order pm) @ [pid], pm_writers := AList.update pid aw' (pm_writers pm),
      pm_global_memory_bytes := atomic_add (pm_global_memory_bytes pm) mem\<rparr>"
  shows "pool_inv po pm'" and "wrote rows pid chunk mem pm (Inr Wrote) pm'"
proof -
  have "length (AList.update pid aw' (pm_writers pm)) \<le> max 1 (pc_max_open_partitions (pm_config pm))"
    using old inv length_update_present [of "pm_writers pm" pid aw'] length_update_absent [of "pm_writers pm" pid aw']
    by (auto simp: pool_inv_def)
  moreover have "buffered (AList.update pid aw' (pm_writers pm)) = buffered (pm_writers pm) + mem"
    using old buffered_update [of "pm_writers pm" pid _ aw'] buffered_update_new [of pid "pm_writers pm" aw']
    by (auto simp: map_of_eq_None_iff)
  moreover have "atomic_add (pm_global_memory_bytes pm) mem = pm_global_memory_bytes pm + mem"
    if "pc_global_memory_limit_bytes (pm_config pm) > 0"
    using room inv that by (intro atomic_add_exact) (simp add: memory_room_def pool_inv_def)
  ultimately show "pool_inv po pm'"
    unfolding pm' using inv room by (intro touch_inv [OF inv ok]) (auto simp: pool_inv_def memory_ok_def memory_room_def)
  have "atomic_add (pm_global_memory_bytes pm) mem \<le> pm_global_memory_bytes pm + mem"
    unfolding atomic_add_def by (rule mod_less_eq_dividend)
  moreover have "partition_rows rows pm' = (partition_rows rows pm)(pid := partition_rows rows pm pid @ rows chunk)"
    by (rule partition_rows_update [where aw' = aw', OF _ _ new]) (simp_all add: pm' update_conv')
  ultimately show "wrote rows pid chunk mem pm (Inr Wrote) pm'" by (simp add: wrote_def pm')
qed

lemma write_existing_facts:
  assumes inv: "pool_inv po pm" and aw: "map_of (pm_writers pm) pid = Some aw"
    and room: "memory_room mem pm" and rec: "within (pw_records_written (aw_writer aw) + po_num_rows po chunk) (pc_max_records (pm_config pm))"
  shows "\<exists>r pm'. write_existing pe po pid chunk mem aw pm = Some (r, pm') \<and> pool_inv po pm' \<and> wrote rows pid chunk mem pm r pm'"
proof -
  obtain t pm0 where t: "tick pm = (t, pm0)" by fastforce
  note T = tick_facts [OF t]
  have same: "wrote rows pid chunk mem pm x pm' \<longleftrightarrow> wrote rows pid chunk mem pm0 x pm'" for x pm'
    using T(2) [of rows] T(3-5) by (simp add: wrote_def shrunk_def split: sum.split written.split)
  have aw0: "map_of (pm_writers pm0) pid = Some aw" using aw T(4) by simp
  note inv0 = T(1) [OF inv]
  obtain res pw where w: "write_batch po chunk (aw_writer aw) = (res, pw)" by fastforce
  consider (roll) "should_roll (pm_config pm0) (pe_instant pe t) aw" | (fail) e where "\<not> should_roll (pm_config pm0) (pe_instant pe t) aw" "res = Inl e"
    | (ok) "\<not> should_roll (pm_config pm0) (pe_instant pe t) aw" "res = Inr ()" by (cases res) auto
  then show ?thesis
  proof cases
    case roll
    obtain r pm1 where c: "close_writer pe po pid pm0 = Some (r, pm1)" using close_returns by blast
    have "wrote rows pid chunk mem pm0 (case r of Inl e \<Rightarrow> Inl e | Inr _ \<Rightarrow> Inr Rolled) pm1"
      using close_facts(2) [OF inv0 c, of rows] close_facts(3) [OF inv0 c] by (auto simp: wrote_def shrunk_def split: sum.split)
    then show ?thesis using t roll c close_facts(1) [OF inv0 c] same by (simp add: write_existing_def)
  next
    case fail
    then show ?thesis using abort_facts [OF inv0 aw0] t w T(3) by (simp add: write_existing_def wrote_def)
  next
    case ok
    let ?aw = "aw\<lparr>aw_writer := pw, aw_buffered_memory := aw_buffered_memory aw + mem\<rparr>"
    let ?pm1 = "pm0\<lparr>pm_lru_order := remove1 pid (pm_lru_order pm0) @ [pid], pm_writers := AList.update pid ?aw (pm_writers pm0),
      pm_global_memory_bytes := atomic_add (pm_global_memory_bytes pm0) mem\<rparr>"
    have pw: "pw_records_written pw = pw_records_written (aw_writer aw) + po_num_rows po chunk" "pw_batches pw = pw_batches (aw_writer aw) @ [chunk]"
      using write_batch_ok [of po chunk "aw_writer aw" pw] w ok by auto
    have ok1: "writer_ok po (pm_config pm0) pid ?aw"
      using inv0 aw0 pw rec T(3) by (auto simp: pool_inv_def writer_ok_def batch_rows_def)
    have room0: "memory_room mem pm0" using room T(3,5) by (simp add: memory_room_def)
    have old: "\<exists>aw1. map_of (pm_writers pm0) pid = Some aw1 \<and> aw_buffered_memory ?aw = aw_buffered_memory aw1 + mem"
      using aw0 by simp
    have new: "rows_of rows (pw_batches (aw_writer ?aw)) =
      (case map_of (pm_writers pm0) pid of None \<Rightarrow> [] | Some aw \<Rightarrow> rows_of rows (pw_batches (aw_writer aw))) @ rows chunk"
      using aw0 pw by simp
    have inv1: "pool_inv po ?pm1" and w1: "wrote rows pid chunk mem pm0 (Inr Wrote) ?pm1"
      by (rule touch_facts [OF inv0 room0 ok1 disjI2 [OF old] new refl])+
    show ?thesis
    proof (cases "file_full (pm_config ?pm1) pw")
      case full: True
      obtain r pm2 where c: "close_writer pe po pid ?pm1 = Some (r, pm2)" using close_returns by blast
      have "write_existing pe po pid chunk mem aw pm = Some (case r of Inl e \<Rightarrow> Inl e | Inr _ \<Rightarrow> Inr Wrote, pm2)"
        using t ok w full c by (simp add: write_existing_def Let_def)
      then show ?thesis using wrote_close [OF inv1 w1 c] same by blast
    next
      case False
      then have "write_existing pe po pid chunk mem aw pm = Some (Inr Wrote, ?pm1)"
        using t ok w by (simp add: write_existing_def Let_def)
      then show ?thesis using inv1 w1 same by blast
    qed
  qed
qed

lemma wrote_after_shrunk:
  "shrunk rows True pm pm1 \<Longrightarrow> wrote rows pid chunk mem pm1 r pm2 \<Longrightarrow> r \<noteq> Inr Rolled \<Longrightarrow> wrote rows pid chunk mem pm r pm2"
  by (auto simp: wrote_def shrunk_def split: sum.splits written.splits)

lemma open_facts:
  assumes "open_writer pe po pid chunk mem pm = (r, pm')"
  shows "pool_inv po pm \<Longrightarrow> pool_inv po pm'" and "shrunk rows True pm pm'" and "pm_writers pm' = pm_writers pm"
    and "r = Inr aw \<Longrightarrow> aw_partition aw = pid \<and> aw_buffered_memory aw = mem \<and>
      pw_records_written (aw_writer aw) = po_num_rows po chunk \<and> pw_batches (aw_writer aw) = [chunk]"
proof -
  obtain s n m where pm': "pm' = pm\<lparr>pm_file_sequence := s, pm_readings := n, pm_namer := m\<rparr>"
    using assms by (auto simp: open_writer_def next_sequence_def tick_def Let_def split: prod.splits)
  show "pool_inv po pm \<Longrightarrow> pool_inv po pm'"
    unfolding pm' by (auto simp: pool_inv_def in_sync_def memory_ok_def uploads_ok_def)
  have "partition_rows rows pm' = partition_rows rows pm" by (rule partition_rows_cong) (simp_all add: pm')
  then show "shrunk rows True pm pm'" by (simp add: shrunk_def pm')
  show "pm_writers pm' = pm_writers pm" by (simp add: pm')
  show "aw_partition aw = pid \<and> aw_buffered_memory aw = mem \<and> pw_records_written (aw_writer aw) = po_num_rows po chunk \<and>
    pw_batches (aw_writer aw) = [chunk]" if "r = Inr aw"
    using assms that
    by (auto simp: open_writer_def writer_try_new_def Let_def split: prod.splits sum.splits dest!: write_batch_ok)
qed

lemma delete_update_absent: "k \<notin> fst ` set ws \<Longrightarrow> AList.delete k (AList.update k v ws) = ws"
  by (induction ws) auto

text \<open>The manager with the new writer inserted, and the same with the writer taken out again.\<close>

lemma insert_facts:
  assumes inv: "pool_inv po pm" and none: "map_of (pm_writers pm) pid = None" and room: "memory_room mem pm"
    and few: "length (pm_writers pm) < max 1 (pc_max_open_partitions (pm_config pm))"
    and ok: "writer_ok po (pm_config pm) pid aw" and aw: "aw_buffered_memory aw = mem" "pw_batches (aw_writer aw) = [chunk]"
  obtains pmT where "pool_inv po pmT" and "wrote rows pid chunk mem pm (Inr Wrote) pmT" and "map_of (pm_writers pmT) pid = Some aw"
    and "pmT = pm\<lparr>pm_global_memory_bytes := atomic_add (pm_global_memory_bytes pm) mem,
       pm_writers := AList.update pid aw (pm_writers pm), pm_lru_order := pm_lru_order pm @ [pid]\<rparr>"
    and "without pid pmT = pm\<lparr>pm_global_memory_bytes := atomic_add (pm_global_memory_bytes pm) mem\<rparr>"
proof -
  let ?pmT = "pm\<lparr>pm_lru_order := remove1 pid (pm_lru_order pm) @ [pid], pm_writers := AList.update pid aw (pm_writers pm),
    pm_global_memory_bytes := atomic_add (pm_global_memory_bytes pm) mem\<rparr>"
  have T: "pool_inv po ?pmT" "wrote rows pid chunk mem pm (Inr Wrote) ?pmT"
    by (rule touch_facts [OF inv room ok _ _ refl]; use none few aw in simp)+
  have absent: "pid \<notin> set (pm_lru_order pm)" using inv none by (simp add: pool_inv_def in_sync_def map_of_eq_None_iff)
  show thesis
  proof (rule that [of ?pmT])
    show "without pid ?pmT = pm\<lparr>pm_global_memory_bytes := atomic_add (pm_global_memory_bytes pm) mem\<rparr>"
      using absent none by (simp add: without_def remove1_append remove1_idem delete_update_absent map_of_eq_None_iff)
  qed (use T absent in \<open>simp_all add: remove1_idem update_conv'\<close>)
qed

lemma retire_new_facts:
  assumes inv: "pool_inv po pmT" and w: "wrote rows pid chunk mem pm (Inr Wrote) pmT" and aw: "map_of (pm_writers pmT) pid = Some aw"
  obtains r pm' where "(case retire_active_writer pe po aw (without pid pmT) of
        None \<Rightarrow> None
      | Some (Inl e, pm4) \<Rightarrow> Some (Inl e, pm4)
      | Some (Inr _, pm4) \<Rightarrow>
          Some (case check_background_errors pe pm4 of (Inl e, pm5) \<Rightarrow> (Inl e, pm5) | (Inr _, pm5) \<Rightarrow> (Inr Wrote, pm5))) = Some (r, pm')"
    and "pool_inv po pm'" and "wrote rows pid chunk mem pm r pm'" and "r \<noteq> Inr Rolled"
proof -
  obtain r4 pm4 where r4: "retire_active_writer pe po aw (without pid pmT) = Some (r4, pm4)" "retired aw (without pid pmT) r4 pm4"
    using retire_effect [of pe po aw "without pid pmT"] by blast
  have inv4: "pool_inv po pm4" by (rule retired_inv [OF inv aw r4(2)])
  note w4 = wrote_shrunk [OF w retired_shrunk [OF inv aw r4(2)]]
  obtain r5 pm5 where c: "check_background_errors pe pm4 = (r5, pm5)" by fastforce
  have j: "only_joins pm4 pm5" by (rule check_only_joins [OF c])
  show thesis
  proof (cases r4)
    case (Inl e)
    then show thesis using r4(1) inv4 w4 that [of "Inl e" pm4] by simp
  next
    case (Inr u)
    then have "wrote rows pid chunk mem pm (case r5 of Inl e \<Rightarrow> Inl e | Inr _ \<Rightarrow> Inr Wrote) pm5"
      using wrote_shrunk [OF _ only_joins_shrunk [OF j], of rows pid chunk mem pm] w4 by simp
    then show thesis
      using Inr r4(1) c only_joins_inv [OF j inv4] that [of "case r5 of Inl e \<Rightarrow> Inl e | Inr _ \<Rightarrow> Inr Wrote" pm5]
      by (cases r5) simp_all
  qed
qed

lemma write_new_facts:
  assumes inv: "pool_inv po pm" and absent: "map_of (pm_writers pm) pid = None"
    and room: "memory_room mem pm" and rec: "within (po_num_rows po chunk) (pc_max_records (pm_config pm))"
  shows "\<exists>r pm'. write_new pe po pid chunk mem pm = Some (r, pm') \<and> pool_inv po pm' \<and> wrote rows pid chunk mem pm r pm' \<and> r \<noteq> Inr Rolled"
proof -
  obtain r1 pm1 where e: "evict_while (length (pm_writers pm)) too_many_open (close_oldest pe po) pm = Some (r1, pm1)"
    and inv1: "pool_inv po pm1" and sh1: "shrunk rows (r1 = Inr ()) pm pm1" and few: "r1 = Inr () \<Longrightarrow> \<not> too_many_open pm1"
    by (rule evict_facts [OF inv, where crowded = too_many_open and pe = pe and rows = rows]) (auto simp: too_many_open_def)
  obtain r2 pm2 where o: "open_writer pe po pid chunk mem pm1 = (r2, pm2)" by fastforce
  note O = open_facts [OF o]
  consider (evict) err where "r1 = Inl err" | (fail) err where "r1 = Inr ()" "r2 = Inl err" | (ok) aw where "r1 = Inr ()" "r2 = Inr aw"
    by (cases r1; cases r2) auto
  then show ?thesis
  proof cases
    case evict
    then show ?thesis using e inv1 sh1 by (simp add: write_new_def wrote_def shrunk_def)
  next
    case fail
    then show ?thesis using e o O(1) [OF inv1] shrunk_trans [OF sh1 O(2) [of rows]] by (simp add: write_new_def wrote_def shrunk_def)
  next
    case ok
    have sh2: "shrunk rows True pm pm2" using shrunk_trans [OF sh1 O(2) [of rows]] ok by simp
    then have cfg: "pm_config pm2 = pm_config pm" by (simp add: shrunk_def)
    have few2: "length (pm_writers pm2) < max 1 (pc_max_open_partitions (pm_config pm2))"
      using few ok O(3) sh1 cfg by (auto simp: too_many_open_def shrunk_def)
    have "writer_ok po (pm_config pm2) pid aw" using O(4) [OF ok(2)] rec cfg by (simp add: writer_ok_def batch_rows_def)
    then obtain pmT where T: "pool_inv po pmT" "wrote rows pid chunk mem pm2 (Inr Wrote) pmT" "map_of (pm_writers pmT) pid = Some aw"
      "pmT = pm2\<lparr>pm_global_memory_bytes := atomic_add (pm_global_memory_bytes pm2) mem,
         pm_writers := AList.update pid aw (pm_writers pm2), pm_lru_order := pm_lru_order pm2 @ [pid]\<rparr>"
      "without pid pmT = pm2\<lparr>pm_global_memory_bytes := atomic_add (pm_global_memory_bytes pm2) mem\<rparr>"
      using insert_facts [OF O(1) [OF inv1] shrunk_absent [OF sh2 absent] memory_room_shrunk [OF sh2 room] few2, of aw chunk rows] O(4) [OF ok(2)]
      by blast
    show ?thesis
    proof (cases "file_full (pm_config pm2) (aw_writer aw)")
      case False
      then have "write_new pe po pid chunk mem pm = Some (Inr Wrote, pmT)"
        using e o ok T(4) by (simp add: write_new_def Let_def)
      then show ?thesis using T(1) wrote_after_shrunk [OF sh2 T(2)] by simp
    next
      case True
      obtain r pm' where R: "(case retire_active_writer pe po aw (without pid pmT) of
        None \<Rightarrow> None
      | Some (Inl e, pm4) \<Rightarrow> Some (Inl e, pm4)
      | Some (Inr _, pm4) \<Rightarrow>
          Some (case check_background_errors pe pm4 of (Inl e, pm5) \<Rightarrow> (Inl e, pm5) | (Inr _, pm5) \<Rightarrow> (Inr Wrote, pm5))) = Some (r, pm')"
        "pool_inv po pm'" "wrote rows pid chunk mem pm2 r pm'" "r \<noteq> Inr Rolled"
        by (rule retire_new_facts [OF T(1-3)])
      have "write_new pe po pid chunk mem pm = Some (r, pm')"
        using e o ok True R(1) T(5) by (simp add: write_new_def Let_def)
      then show ?thesis using R(2,4) wrote_after_shrunk [OF sh2 R(3)] by simp
    qed
  qed
qed

section \<open>The loop over the rows\<close>

lemma rows_to_write_facts:
  assumes "rows_to_write pid n pm = Some w" and "0 < n"
  shows "0 < w" and "w \<le> n"
    and "map_of (pm_writers pm) pid = None \<Longrightarrow> within w (pc_max_records (pm_config pm))"
    and "map_of (pm_writers pm) pid = Some aw \<Longrightarrow> within (pw_records_written (aw_writer aw) + w) (pc_max_records (pm_config pm))"
  using assms by (auto simp: rows_to_write_def within_def Let_def split: if_splits option.splits)

lemma rows_to_write_open: "rows_to_write pid n pm = None \<Longrightarrow> map_of (pm_writers pm) pid \<noteq> None"
  by (auto simp: rows_to_write_def split: if_splits option.splits)

lemma chunk_memory:
  fixes tm w n R :: nat
  assumes "w \<le> n"
  shows "(tm * w) mod M div R + (tm * (n - w)) div R \<le> (tm * n) div R"
proof -
  have "(tm * w) mod M div R + (tm * (n - w)) div R \<le> (tm * w) div R + (tm * (n - w)) div R"
    by (simp add: div_le_mono)
  also have "\<dots> \<le> (tm * w + tm * (n - w)) div R" using div_add1_eq [of "tm * w" "tm * (n - w)" R] by linarith
  also have "tm * w + tm * (n - w) = tm * n" using assms by (simp flip: distrib_left)
  finally show ?thesis .
qed

text \<open>One turn that writes: the file takes a chunk of at least one row, or is rolled.\<close>

lemma turn_facts:
  assumes inv: "pool_inv po pm" and w: "rows_to_write pid (po_num_rows po batch) pm = Some w" "0 < po_num_rows po batch"
    and chunk: "po_num_rows po chunk = w" and room: "memory_room mem pm"
  obtains r pm' where "(case map_of (pm_writers pm) pid of
        Some aw \<Rightarrow> write_existing pe po pid chunk mem aw pm | None \<Rightarrow> write_new pe po pid chunk mem pm) = Some (r, pm')"
    and "pool_inv po pm'" and "wrote rows pid chunk mem pm r pm'" and "r = Inr Rolled \<Longrightarrow> map_of (pm_writers pm) pid \<noteq> None"
proof (cases "map_of (pm_writers pm) pid")
  case None
  then show thesis
    using write_new_facts [OF inv None room, of chunk pe rows] rows_to_write_facts(3) [OF w None] chunk that by auto
next
  case (Some aw)
  then show thesis
    using write_existing_facts [OF inv Some room, of chunk pe rows] rows_to_write_facts(4) [OF w Some] chunk that by auto
qed

declare route_loop.simps(2) [simp del]

lemma route_loop_facts:
  assumes ar: "arrow_rows_ok po rows"
  shows "pool_inv po pm \<Longrightarrow> 0 < length (rows batch) \<Longrightarrow> memory_room ((tm * length (rows batch)) div R) pm \<Longrightarrow>
    2 * length (rows batch) + (if map_of (pm_writers pm) pid = None then 0 else 1) \<le> fuel \<Longrightarrow>
    \<exists>r pm'. route_loop fuel pe po pid tm R batch pm = Some (r, pm') \<and> pool_inv po pm' \<and> pm_config pm' = pm_config pm \<and>
      (r = Inr () \<longrightarrow> partition_rows rows pm' = (partition_rows rows pm)(pid := partition_rows rows pm pid @ rows batch))"
proof (induction fuel arbitrary: batch pm)
  case 0
  then show ?case by simp
next
  case (Suc fuel)
  note inv = Suc.prems(1)
  let ?n = "length (rows batch)"
  have n: "po_num_rows po batch = ?n" using ar by (simp add: arrow_rows_ok_def)
  show ?case
  proof (cases "rows_to_write pid ?n pm")
    case None
    obtain r pm1 where c: "close_writer pe po pid pm = Some (r, pm1)" using close_returns by blast
    note C = close_facts(1) [OF inv c] close_facts(2) [OF inv c, of rows] close_facts(3) [OF inv c]
    have "2 * ?n + (if map_of (pm_writers pm1) pid = None then 0 else 1) \<le> fuel"
      using Suc.prems(4) rows_to_write_open [OF None] C(3) by simp
    note IH = Suc.IH [OF C(1) Suc.prems(2) memory_room_shrunk [OF C(2) Suc.prems(3)] this]
    show ?thesis
    proof (cases r)
      case (Inl e)
      then show ?thesis using C(1,2) c None n Suc.prems(2) by (simp add: shrunk_def route_loop.simps)
    next
      case (Inr u)
      then have "partition_rows rows pm1 = partition_rows rows pm" "pm_config pm1 = pm_config pm" using C(2) by (simp_all add: shrunk_def)
      moreover have "route_loop (Suc fuel) pe po pid tm R batch pm = route_loop fuel pe po pid tm R batch pm1"
        using c None n Suc.prems(2) Inr by (simp add: route_loop.simps)
      ultimately show ?thesis using IH by simp
    qed
  next
    case (Some w)
    let ?chunk = "if w = ?n then batch else po_slice po batch 0 w"
    let ?mem = "(tm * w) mod 18446744073709551616 div R"
    have w: "0 < w" "w \<le> ?n" using rows_to_write_facts(1,2) [OF Some] Suc.prems(2) by auto
    have rows: "rows ?chunk = take w (rows batch)" "po_num_rows po ?chunk = w"
      "rows (po_slice po batch w (?n - w)) = drop w (rows batch)"
      using ar w by (auto simp: arrow_rows_ok_def)
    note cm = chunk_memory [OF w(2), of tm 18446744073709551616 R]
    have room: "memory_room ?mem pm" using Suc.prems(3) cm by (auto simp: memory_room_def)
    obtain r pm1 where t: "(case map_of (pm_writers pm) pid of Some aw \<Rightarrow> write_existing pe po pid ?chunk ?mem aw pm
          | None \<Rightarrow> write_new pe po pid ?chunk ?mem pm) = Some (r, pm1)"
      "pool_inv po pm1" "wrote rows pid ?chunk ?mem pm r pm1" "r = Inr Rolled \<Longrightarrow> map_of (pm_writers pm) pid \<noteq> None"
      using turn_facts [OF inv, of pid batch w ?chunk ?mem pe rows] Some n rows(2) room Suc.prems(2) by auto
    have cfg: "pm_config pm1 = pm_config pm" using t(3) by (simp add: wrote_def)
    let ?rest = "po_slice po batch w (?n - w)"
    have step: "route_loop (Suc fuel) pe po pid tm R batch pm = (case r of
        Inl e \<Rightarrow> Some (Inl e, pm1)
      | Inr Rolled \<Rightarrow> route_loop fuel pe po pid tm R batch pm1
      | Inr Wrote \<Rightarrow> if w = ?n then Some (Inr (), pm1) else route_loop fuel pe po pid tm R ?rest pm1)"
      unfolding route_loop.simps Let_def n Some option.case t(1) prod.case using Suc.prems(2) by simp
    consider (err) e where "r = Inl e" | (roll) "r = Inr Rolled" | (last) "r = Inr Wrote" "w = ?n" | (more) "r = Inr Wrote" "w < ?n"
      using w(2) by (cases r; metis le_neq_implies_less written.exhaust)
    then show ?thesis
    proof cases
      case err
      then show ?thesis using step t(2) cfg by simp
    next
      case roll
      then have sh: "shrunk rows True pm pm1" "map_of (pm_writers pm1) pid = None" using t(3) by (simp_all add: wrote_def)
      have "2 * ?n + (if map_of (pm_writers pm1) pid = None then 0 else 1) \<le> fuel" using Suc.prems(4) t(4) [OF roll] sh(2) by simp
      note IH = Suc.IH [OF t(2) Suc.prems(2) memory_room_shrunk [OF sh(1) Suc.prems(3)] this]
      have "partition_rows rows pm1 = partition_rows rows pm" using sh(1) by (simp add: shrunk_def)
      then show ?thesis using IH cfg step roll by simp
    next
      case last
      then have "partition_rows rows pm1 = (partition_rows rows pm)(pid := partition_rows rows pm pid @ rows batch)"
        using t(3) rows(1) by (simp add: wrote_def)
      then show ?thesis unfolding step using last t(2) cfg by (intro exI [of _ "Inr ()"] exI [of _ pm1]) (simp add: fun_upd_def)
    next
      case more
      have len: "length (rows ?rest) = ?n - w" using rows(3) by simp
      have "memory_room (tm * length (rows ?rest) div R) pm1"
        using t(3) more(1) Suc.prems(3) cm len by (auto simp: memory_room_def wrote_def)
      moreover have "2 * length (rows ?rest) + (if map_of (pm_writers pm1) pid = None then 0 else 1) \<le> fuel"
        using len more(2) w Suc.prems(4) by (auto split: if_splits)
      ultimately have IH: "\<exists>r pm'. route_loop fuel pe po pid tm R ?rest pm1 = Some (r, pm') \<and> pool_inv po pm' \<and> pm_config pm' = pm_config pm1 \<and>
        (r = Inr () \<longrightarrow> partition_rows rows pm' = (partition_rows rows pm1)(pid := partition_rows rows pm1 pid @ rows ?rest))"
        using len more(2) by (intro Suc.IH [OF t(2)]) auto
      have "partition_rows rows pm1 = (partition_rows rows pm)(pid := partition_rows rows pm pid @ take w (rows batch))"
        using t(3) more rows(1) by (simp add: wrote_def)
      then have "(partition_rows rows pm1)(pid := partition_rows rows pm1 pid @ rows ?rest) =
          (partition_rows rows pm)(pid := partition_rows rows pm pid @ rows batch)"
        using rows(3) by simp
      moreover have "route_loop (Suc fuel) pe po pid tm R batch pm = route_loop fuel pe po pid tm R ?rest pm1"
        using step more by simp
      ultimately show ?thesis using IH unfolding cfg by presburger
    qed
  qed
qed

section \<open>Routing refines appending to a store of partitions\<close>

text \<open>
  The abstract store maps a partition to its rows. Routing a batch appends, for each distinct key in the order of its
  first row, the rows of that key to the partition the key denotes.
\<close>

type_synonym 'r store = "PartitionId \<Rightarrow> 'r list"

definition append_rows :: "PartitionId \<Rightarrow> 'r list \<Rightarrow> 'r store \<Rightarrow> 'r store" where
  "append_rows pid rs st = st(pid := st pid @ rs)"

definition rows_with :: "('k \<Rightarrow> bool) \<Rightarrow> 'k list \<Rightarrow> 'r list \<Rightarrow> 'r list" where
  "rows_with P keys rs = map fst (filter (\<lambda>(_, k). P k) (zip rs keys))"

fun spec_keys :: "('k \<Rightarrow> PartitionId) \<Rightarrow> 'k list \<Rightarrow> 'r list \<Rightarrow> 'k list \<Rightarrow> 'r store \<Rightarrow> 'r store" where
  "spec_keys part keys rs [] st = st"
| "spec_keys part keys rs (k # ks) st = spec_keys part keys rs ks (append_rows (part k) (rows_with (\<lambda>k'. k' = k) keys rs) st)"

definition spec_route :: "('k \<Rightarrow> PartitionId) \<Rightarrow> 'k list \<Rightarrow> 'r list \<Rightarrow> 'r store \<Rightarrow> 'r store" where
  "spec_route part keys rs st = spec_keys part keys rs (distinct_keys [] keys) st"

lemma distinct_keys: "distinct seen \<Longrightarrow> distinct (distinct_keys seen ks) \<and> set (distinct_keys seen ks) = set seen \<union> set ks"
  by (induction seen ks rule: distinct_keys.induct) (auto split: if_splits)

lemma append_rows_apply: "append_rows pid rs st p = (if p = pid then st p @ rs else st p)"
  by (simp add: append_rows_def)

lemma rows_with_False: "rows_with (\<lambda>k. False) keys rs = []"
  by (simp add: rows_with_def)

lemma rows_with_mask: "map fst (filter snd (zip rs (map P keys))) = rows_with P keys rs"
  unfolding rows_with_def by (induction rs keys rule: list_induct2') auto

lemma rows_with_split:
  "(\<And>k. P k \<longleftrightarrow> Q k \<or> R k) \<Longrightarrow> (\<And>k. \<not> (Q k \<and> R k)) \<Longrightarrow>
   mset (rows_with P keys rs) = mset (rows_with Q keys rs) + mset (rows_with R keys rs)"
  unfolding rows_with_def by (induction rs keys rule: list_induct2') auto

lemma spec_keys_mset:
  "distinct ks \<Longrightarrow> mset (spec_keys part keys rs ks st pid) = mset (st pid) + mset (rows_with (\<lambda>k. k \<in> set ks \<and> part k = pid) keys rs)"
proof (induction ks arbitrary: st)
  case Nil
  then show ?case by (simp add: rows_with_def)
next
  case (Cons k ks)
  have "mset (rows_with (\<lambda>k'. k' \<in> set (k # ks) \<and> part k' = pid) keys rs) =
      mset (rows_with (\<lambda>k'. k' = k \<and> part k = pid) keys rs) + mset (rows_with (\<lambda>k'. k' \<in> set ks \<and> part k' = pid) keys rs)"
    using Cons.prems by (intro rows_with_split) auto
  moreover have "mset (spec_keys part keys rs (k # ks) st pid) =
      mset (append_rows (part k) (rows_with (\<lambda>k'. k' = k) keys rs) st pid) + mset (rows_with (\<lambda>k. k \<in> set ks \<and> part k = pid) keys rs)"
    unfolding spec_keys.simps by (rule Cons.IH) (use Cons.prems in simp)
  ultimately show ?case
    by (cases "part k = pid") (simp_all add: append_rows_apply rows_with_False del: spec_keys.simps)
qed

text \<open>No row is lost or duplicated.\<close>

lemma spec_route_mset: "mset (spec_route part keys rs st pid) = mset (st pid) + mset (rows_with (\<lambda>k. part k = pid) keys rs)"
proof -
  have "rows_with (\<lambda>k. k \<in> set keys \<and> part k = pid) keys rs = rows_with (\<lambda>k. part k = pid) keys rs"
    unfolding rows_with_def by (rule arg_cong [where f = "map fst"], rule filter_cong) (auto dest: set_zip_rightD)
  then show ?thesis
    using spec_keys_mset [of "distinct_keys [] keys" part keys rs st pid] distinct_keys [of "[]" keys] by (simp add: spec_route_def)
qed

lemma distinct_keys_same: "list_all (\<lambda>x. x = k) ks \<Longrightarrow> distinct_keys [k] ks = [k]"
  by (induction ks) auto

lemma rows_with_all: "list_all P keys \<Longrightarrow> length keys = length rs \<Longrightarrow> rows_with P keys rs = rs"
  unfolding rows_with_def by (induction rs keys rule: list_induct2') auto

lemma spec_route_same:
  "list_all (\<lambda>x. x = k) keys \<Longrightarrow> keys \<noteq> [] \<Longrightarrow> length keys = length rs \<Longrightarrow> spec_route part keys rs st = append_rows (part k) rs st"
  using distinct_keys_same [of k "tl keys"] rows_with_all [of "\<lambda>k'. k' = k" keys rs]
  by (cases keys) (auto simp: spec_route_def)

definition refines ::
  "('b \<Rightarrow> 'r list) \<Rightarrow> ('r store \<Rightarrow> 'r store) \<Rightarrow> ('b, 'w) PartitionManager \<Rightarrow> unit sink_result \<Rightarrow> ('b, 'w) PartitionManager \<Rightarrow> bool" where
  "refines rows spec pm r pm' \<longleftrightarrow> pm_config pm' = pm_config pm \<and> (r = Inr () \<longrightarrow> partition_rows rows pm' = spec (partition_rows rows pm))"

lemma route_sub_facts:
  assumes ar: "arrow_rows_ok po rows" and inv: "pool_inv po pm"
  shows "\<exists>r pm'. route_sub_batch pe po pid b pm = Some (r, pm') \<and> pool_inv po pm' \<and> refines rows (append_rows pid (rows b)) pm r pm'"
proof -
  let ?n = "length (rows b)" and ?limit = "pc_global_memory_limit_bytes (pm_config pm)"
  have n: "po_num_rows po b = ?n" using ar by (simp add: arrow_rows_ok_def)
  consider (empty) "?n = 0" | (big) "0 < ?n" "?limit > 0 \<and> po_memory po b > ?limit" | (fits) "0 < ?n" "\<not> (?limit > 0 \<and> po_memory po b > ?limit)"
    by blast
  then show ?thesis
  proof cases
    case empty
    then show ?thesis using n inv by (simp add: route_sub_batch_def refines_def append_rows_def)
  next
    case big
    then show ?thesis using n inv by (simp add: route_sub_batch_def refines_def)
  next
    case fits
    obtain r1 pm1 where e: "evict_while (length (pm_writers pm)) (memory_exceeded (po_memory po b)) (close_oldest pe po) pm = Some (r1, pm1)"
      and inv1: "pool_inv po pm1" and sh: "shrunk rows (r1 = Inr ()) pm pm1" and m: "r1 = Inr () \<Longrightarrow> \<not> memory_exceeded (po_memory po b) pm1"
      by (rule evict_facts [OF inv, where crowded = "memory_exceeded (po_memory po b)" and pe = pe and rows = rows])
        (auto simp: memory_exceeded_def)
    have step: "route_sub_batch pe po pid b pm =
        (case r1 of Inl e \<Rightarrow> Some (Inl e, pm1) | Inr _ \<Rightarrow> route_loop (2 * ?n + 1) pe po pid (po_memory po b) ?n b pm1)"
      using fits n e by (auto simp: route_sub_batch_def Let_def split: sum.split)
    show ?thesis
    proof (cases r1)
      case (Inl err)
      then show ?thesis using step inv1 sh by (simp add: refines_def shrunk_def)
    next
      case (Inr u)
      have cfg: "pm_config pm1 = pm_config pm" and rows1: "partition_rows rows pm1 = partition_rows rows pm"
        using sh Inr by (simp_all add: shrunk_def)
      have "memory_room (po_memory po b * ?n div ?n) pm1"
        using m Inr fits inv1 cfg
        by (auto simp: memory_exceeded_def memory_room_def pool_inv_def memory_ok_def buffered_def dest!: sat_add_leD [rotated])
      from route_loop_facts [OF ar inv1 fits(1) this, of pid "2 * ?n + 1" pe]
      show ?thesis using step Inr cfg rows1 by (simp add: refines_def append_rows_def)
    qed
  qed
qed

lemma route_keys_facts:
  assumes ar: "arrow_rows_ok po rows" and len: "length row_keys = length (rows batch)"
  shows "pool_inv po pm \<Longrightarrow> \<exists>r pm'. route_keys pe po sig batch row_keys ks pm = Some (r, pm') \<and> pool_inv po pm' \<and>
    refines rows (spec_keys (partition_of (pm_config pm) sig) row_keys (rows batch) ks) pm r pm'"
proof (induction ks arbitrary: pm)
  case Nil
  then show ?case by (simp add: refines_def)
next
  case (Cons key ks)
  show ?case
  proof (cases "po_filter po batch (map (\<lambda>k. k = key) row_keys)")
    case (Inl e)
    then show ?thesis using Cons.prems by (simp add: refines_def)
  next
    case (Inr sub)
    have sub: "rows sub = rows_with (\<lambda>k. k = key) row_keys (rows batch)"
      using ar Inr len by (simp add: arrow_rows_ok_def rows_with_mask)
    obtain r1 pm1 where s: "route_sub_batch pe po (partition_of (pm_config pm) sig key) sub pm = Some (r1, pm1)"
      and inv1: "pool_inv po pm1" and ref: "refines rows (append_rows (partition_of (pm_config pm) sig key) (rows sub)) pm r1 pm1"
      using route_sub_facts [OF ar Cons.prems] by blast
    show ?thesis
    proof (cases r1)
      case (Inl e)
      then show ?thesis using Inr s inv1 ref by (simp add: refines_def)
    next
      case ok: (Inr u)
      then show ?thesis using Cons.IH [OF inv1] Inr s ref sub by (simp add: refines_def)
    qed
  qed
qed

definition keys_of :: "('b, 's, 'c, 'w) parquet_ops \<Rightarrow> PartitionKey \<Rightarrow> 'b \<Rightarrow> PartitionKey list" where
  "keys_of po now batch =
     map (row_key now (Option.bind (po_column_by_name po batch ''timestamp'') (extract_temporal_components po))) [0..<po_num_rows po batch]"

lemma route_batch_facts:
  assumes ar: "arrow_rows_ok po rows" and inv: "pool_inv po pm"
  shows "\<exists>r pm' t. route_batch pe po sig batch pm = Some (r, pm') \<and> pool_inv po pm' \<and>
    refines rows (spec_route (partition_of (pm_config pm) sig) (keys_of po (pe_utc_key pe t) batch) (rows batch)) pm r pm'"
proof -
  obtain r1 pm1 where c: "check_background_errors pe pm = (r1, pm1)" by fastforce
  have j: "only_joins pm pm1" by (rule check_only_joins [OF c])
  have inv1: "pool_inv po pm1" by (rule only_joins_inv [OF j inv])
  have cfg1: "pm_config pm1 = pm_config pm" using j by (auto simp: only_joins_def)
  have rows1: "partition_rows rows pm1 = partition_rows rows pm" by (rule only_joins_rows [OF j])
  have n: "po_num_rows po batch = length (rows batch)" using ar by (simp add: arrow_rows_ok_def)
  obtain t pm2 where t: "tick pm1 = (t, pm2)" by fastforce
  note T = tick_facts [OF t]
  let ?keys = "keys_of po (pe_utc_key pe t) batch" and ?part = "partition_of (pm_config pm) sig"
  let ?key = "row_key (pe_utc_key pe t) (Option.bind (po_column_by_name po batch ''timestamp'') (extract_temporal_components po))"
  have len: "length ?keys = length (rows batch)" by (simp add: keys_of_def n)
  have lift: "refines rows spec pm2 r pm' \<Longrightarrow> refines rows spec pm r pm'" for spec r pm'
    using T(2) [of rows] T(3) cfg1 rows1 by (simp add: refines_def)
  consider (err) e where "r1 = Inl e" | (empty) "r1 = Inr ()" "rows batch = []"
    | (same) "r1 = Inr ()" "rows batch \<noteq> []" "list_all (\<lambda>i. ?key i = ?key 0) [1..<length (rows batch)]"
    | (mixed) "r1 = Inr ()" "rows batch \<noteq> []" "\<not> list_all (\<lambda>i. ?key i = ?key 0) [1..<length (rows batch)]"
    by (cases r1) auto
  then show ?thesis
  proof cases
    case err
    then show ?thesis using c inv1 cfg1 by (simp add: route_batch_def refines_def)
  next
    case empty
    have "spec_route ?part ?keys (rows batch) st = st" for st using empty(2) len by (simp add: spec_route_def)
    then show ?thesis
      using c inv1 cfg1 rows1 empty n by (intro exI [of _ "Inr ()"] exI [of _ pm1] exI [of _ t]) (simp add: route_batch_def refines_def)
  next
    case same
    have run: "route_batch pe po sig batch pm = route_sub_batch pe po (?part (?key 0)) batch pm2"
      using same c t n T(3) cfg1 by (simp add: route_batch_def Let_def del: upt_Suc)
    have "?key i = ?key 0" if "i < length (rows batch)" for i
      using same(3) that unfolding list_all_iff by (cases "i = 0") simp_all
    then have "list_all (\<lambda>k. k = ?key 0) ?keys" unfolding keys_of_def n list_all_iff by auto
    then have "spec_route ?part ?keys (rows batch) st = append_rows (?part (?key 0)) (rows batch) st" for st
      using same(2) len by (intro spec_route_same) auto
    then have spec: "refines rows (append_rows (?part (?key 0)) (rows batch)) pm r pm' \<longleftrightarrow>
        refines rows (spec_route ?part ?keys (rows batch)) pm r pm'" for r pm'
      by (simp add: refines_def)
    obtain r pm' where "route_sub_batch pe po (?part (?key 0)) batch pm2 = Some (r, pm')" "pool_inv po pm'"
      and ref: "refines rows (append_rows (?part (?key 0)) (rows batch)) pm2 r pm'"
      using route_sub_facts [OF ar T(1) [OF inv1]] by blast
    then show ?thesis
      using spec [THEN iffD1, OF lift [OF ref]] by (intro exI [of _ r] exI [of _ pm'] exI [of _ t]) (simp add: run)
  next
    case mixed
    have run: "route_batch pe po sig batch pm = route_keys pe po sig batch ?keys (distinct_keys [] ?keys) pm2"
      using mixed c t n unfolding keys_of_def by (simp add: route_batch_def Let_def del: upt_Suc)
    obtain r pm' where "route_keys pe po sig batch ?keys (distinct_keys [] ?keys) pm2 = Some (r, pm')" "pool_inv po pm'"
      "refines rows (spec_keys (partition_of (pm_config pm2) sig) ?keys (rows batch) (distinct_keys [] ?keys)) pm2 r pm'"
      using route_keys_facts [OF ar len T(1) [OF inv1]] by blast
    moreover have "refines rows (spec_route ?part ?keys (rows batch)) pm r pm'"
      using lift [OF calculation(3)] T(3) cfg1 by (simp add: refines_def spec_route_def)
    ultimately show ?thesis by (intro exI [of _ r] exI [of _ pm'] exI [of _ t]) (simp add: run)
  qed
qed

section \<open>Sweeping and flushing\<close>

lemma close_all_facts:
  "pool_inv po pm \<Longrightarrow> \<exists>r pm'. close_all pe po keys err pm = Some (r, pm') \<and> pool_inv po pm' \<and> shrunk rows (r = Inr ()) pm pm' \<and>
     (r = Inr () \<longrightarrow> err = None) \<and> dom (map_of (pm_writers pm')) = dom (map_of (pm_writers pm)) - set keys"
proof (induction keys arbitrary: err pm)
  case Nil
  obtain r1 pm1 where c: "check_background_errors pe pm = (r1, pm1)" by fastforce
  have j: "only_joins pm pm1" by (rule check_only_joins [OF c])
  have "pm_writers pm1 = pm_writers pm" using j by (auto simp: only_joins_def)
  then show ?case
    using c only_joins_inv [OF j Nil] only_joins_shrunk [OF j, of rows]
    by (cases r1) (auto simp: to_result_def first_error_def split: option.splits)
next
  case (Cons key keys)
  obtain r1 pm1 where c: "close_writer pe po key pm = Some (r1, pm1)" using close_returns by blast
  note C = close_facts(1) [OF Cons.prems c] close_facts(2) [OF Cons.prems c, of rows] close_facts(3) [OF Cons.prems c]
  let ?err = "case r1 of Inl e \<Rightarrow> first_error err (Some e) | Inr _ \<Rightarrow> err"
  obtain r pm' where IH: "close_all pe po keys ?err pm1 = Some (r, pm')" "pool_inv po pm'" "shrunk rows (r = Inr ()) pm1 pm'"
    "r = Inr () \<longrightarrow> ?err = None" "dom (map_of (pm_writers pm')) = dom (map_of (pm_writers pm1)) - set keys"
    using Cons.IH [OF C(1)] by blast
  have ok: "r = Inr () \<Longrightarrow> r1 = Inr () \<and> err = None" using IH(4) by (auto simp: first_error_def split: sum.splits if_splits)
  have "close_all pe po (key # keys) err pm = Some (r, pm')" using IH(1) c by (cases r1) simp_all
  moreover have "shrunk rows (r = Inr ()) pm pm'" by (rule shrunk_trans [OF C(2) IH(3)]) (use ok in blast)
  moreover have "dom (map_of (pm_writers pm')) = dom (map_of (pm_writers pm)) - set (key # keys)" using IH(5) C(3) by auto
  ultimately show ?case using IH(2) ok by blast
qed

lemma sweep_facts:
  assumes inv: "pool_inv po pm"
  shows "\<exists>r pm'. sweep_idle_writers pe po pm = Some (r, pm') \<and> pool_inv po pm' \<and> shrunk rows (r = Inr ()) pm pm'"
proof -
  obtain r1 pm1 where c: "check_background_errors pe pm = (r1, pm1)" by fastforce
  have j: "only_joins pm pm1" by (rule check_only_joins [OF c])
  let ?pm2 = "pm1\<lparr>pm_readings := pm_readings pm1 + length (pm_writers pm1)\<rparr>"
  have j2: "only_joins pm1 ?pm2"
    by (rule only_joinsI [where q = "pm_in_flight_uploads pm1" and n = "pm_readings pm1 + length (pm_writers pm1)"]) simp_all
  have inv2: "pool_inv po ?pm2" by (rule only_joins_inv [OF j2 only_joins_inv [OF j inv]])
  have sh: "shrunk rows True pm ?pm2" by (rule only_joins_shrunk [OF only_joins_trans [OF j j2]])
  obtain r pm' where r: "close_all pe po (idle_keys pe (pm_readings pm1) (pc_max_file_interval_sec (pm_config pm1)) (pm_writers pm1)) (err_of r1) ?pm2 =
      Some (r, pm')" "pool_inv po pm'" "shrunk rows (r = Inr ()) ?pm2 pm'"
    using close_all_facts [OF inv2] by blast
  show ?thesis
    using c r shrunk_trans [OF sh r(3)] only_joins_inv [OF j inv] only_joins_shrunk [OF j, of rows]
    by (cases "pc_max_file_interval_sec (pm_config pm1) = 0") (simp_all add: sweep_idle_writers_def Let_def)
qed

lemma flush_facts:
  assumes inv: "pool_inv po pm"
  shows "\<exists>r pm'. flush_all pe po pm = Some (r, pm') \<and> pool_inv po pm' \<and> shrunk rows (r = Inr ()) pm pm' \<and> pm_writers pm' = []"
proof -
  obtain r1 pm1 where c: "check_background_errors pe pm = (r1, pm1)" by fastforce
  have j: "only_joins pm pm1" by (rule check_only_joins [OF c])
  obtain r pm' where r: "close_all pe po (map fst (pm_writers pm1)) (err_of r1) pm1 = Some (r, pm')" "pool_inv po pm'"
    "shrunk rows (r = Inr ()) pm1 pm'" "dom (map_of (pm_writers pm')) = dom (map_of (pm_writers pm1)) - set (map fst (pm_writers pm1))"
    using close_all_facts [OF only_joins_inv [OF j inv]] by blast
  have "dom (map_of (pm_writers pm')) = {}" using r(4) by (simp add: dom_map_of_conv_image_fst)
  then have "pm_writers pm' = []" by (simp add: dom_map_of_conv_image_fst)
  moreover have "shrunk rows (r = Inr ()) pm pm'" by (rule shrunk_trans [OF only_joins_shrunk [OF j, where ok = True] r(3)]) simp
  ultimately show ?thesis using c r by (simp add: flush_all_def)
qed

section \<open>Runs\<close>

datatype 'b pool_event = RouteBatch string 'b | SweepIdle | FlushAll | WaitUploads

fun pool_step :: "'b parquet_env \<Rightarrow> ('b, 's, 'c, 'w) parquet_ops \<Rightarrow> ('b, 'w) PartitionManager \<Rightarrow> 'b pool_event \<Rightarrow> ('b, 'w) PartitionManager \<Rightarrow> bool" where
  "pool_step pe po pm (RouteBatch sig batch) pm' = (\<exists>r. route_batch pe po sig batch pm = Some (r, pm'))"
| "pool_step pe po pm SweepIdle pm' = (\<exists>r. sweep_idle_writers pe po pm = Some (r, pm'))"
| "pool_step pe po pm FlushAll pm' = (\<exists>r. flush_all pe po pm = Some (r, pm'))"
| "pool_step pe po pm WaitUploads pm' = (\<exists>r. wait_for_all_uploads pe pm = (r, pm'))"

definition pool_init :: "ParquetSinkConfig \<Rightarrow> ('b, 'w) PartitionManager \<Rightarrow> bool" where
  "pool_init cfg pm \<longleftrightarrow> pm = manager_new cfg \<and> pc_global_memory_limit_bytes cfg < u64_max"

lemma pool_step_inv:
  assumes ar: "arrow_rows_ok po rows" and inv: "pool_inv po pm" and st: "pool_step pe po pm e pm'"
  shows "pool_inv po pm'" and "pm_config pm' = pm_config pm"
proof -
  have "pool_inv po pm' \<and> pm_config pm' = pm_config pm"
  proof (cases e)
    case (RouteBatch sig batch)
    then show ?thesis using route_batch_facts [OF ar inv, of pe sig batch] st by (auto simp: refines_def)
  next
    case SweepIdle
    then show ?thesis using sweep_facts [OF inv, of pe rows] st by (auto simp: shrunk_def)
  next
    case FlushAll
    then show ?thesis using flush_facts [OF inv, of pe rows] st by (auto simp: shrunk_def)
  next
    case WaitUploads
    have "only_joins pm (pm\<lparr>pm_in_flight_uploads := []\<rparr>)"
      by (rule only_joinsI [where q = "[]" and n = "pm_readings pm"]) simp_all
    then show ?thesis using only_joins_inv [OF _ inv] WaitUploads st by (auto simp: wait_for_all_uploads_def)
  qed
  then show "pool_inv po pm'" and "pm_config pm' = pm_config pm" by simp_all
qed

interpretation parquet: event_system "pool_init cfg" "pool_step pe po" "\<lambda>pm. arrow_rows_ok po rows \<longrightarrow> pool_inv po pm \<and> pm_config pm = cfg"
proof
  show "arrow_rows_ok po rows \<longrightarrow> pool_inv po pm \<and> pm_config pm = cfg" if "pool_init cfg pm" for pm
    using that by (auto simp: pool_init_def manager_new_def pool_defs buffered_def)
  show "arrow_rows_ok po rows \<longrightarrow> pool_inv po pm' \<and> pm_config pm' = cfg"
    if "arrow_rows_ok po rows \<longrightarrow> pool_inv po pm \<and> pm_config pm = cfg" and "pool_step pe po pm e pm'" for pm e pm'
    using that pool_step_inv by blast
qed

lemma reach_pool:
  assumes "arrow_rows_ok po rows" and "reach (pool_init cfg) (pool_step pe po) pm"
  shows "pool_inv po pm" and "pm_config pm = cfg"
  using parquet.reach_inv [OF assms(2), of rows] assms(1) by simp_all

section \<open>Properties\<close>

text \<open>
  C35. Routing refines appending to a store: in every reachable state \<open>route_batch\<close> returns, and if it reports success then the
  rows of the batch have been appended to the partitions of their timestamps (of the current hour where a row has none),
  across rolled and evicted files, with no row lost, duplicated or moved to another partition.
\<close>

theorem route_refines_store:
  assumes "arrow_rows_ok po rows" and "reach (pool_init cfg) (pool_step pe po) pm"
  shows "\<exists>r pm' t. route_batch pe po sig batch pm = Some (r, pm') \<and>
    (r = Inr () \<longrightarrow>
       partition_rows rows pm' =
         spec_route (partition_of cfg sig) (keys_of po (pe_utc_key pe t) batch) (rows batch) (partition_rows rows pm) \<and>
       (\<forall>pid. mset (partition_rows rows pm' pid) = mset (partition_rows rows pm pid) +
          mset (rows_with (\<lambda>k. partition_of cfg sig k = pid) (keys_of po (pe_utc_key pe t) batch) (rows batch))))"
proof -
  note R = reach_pool [OF assms]
  obtain r pm' t where r: "route_batch pe po sig batch pm = Some (r, pm')"
    and ref: "refines rows (spec_route (partition_of (pm_config pm) sig) (keys_of po (pe_utc_key pe t) batch) (rows batch)) pm r pm'"
    using route_batch_facts [OF assms(1) R(1), of pe sig batch] by blast
  show ?thesis
    using r ref R(2) by (intro exI [of _ r] exI [of _ pm'] exI [of _ t]) (auto simp: refines_def spec_route_mset)
qed

text \<open>
  C36. The limits of the configuration hold in every reachable state, whatever fails on the way: the writers and the order of use name
  the same partitions, so the \<open>LRU order out of sync\<close> error cannot occur; at most \<open>max_open_partitions\<close> files are
  open; the memory counter is the sum over the open files and within the ceiling; no file has more than
  \<open>max_records\<close> records; and at most \<open>max_concurrent_uploads\<close> uploads are in flight.
\<close>

theorem pool_limits_hold:
  assumes "arrow_rows_ok po rows" and "reach (pool_init cfg) (pool_step pe po) pm"
  shows "distinct (pm_lru_order pm) \<and> set (pm_lru_order pm) = fst ` set (pm_writers pm) \<and>
    length (pm_writers pm) \<le> max 1 (pc_max_open_partitions cfg) \<and>
    (pc_global_memory_limit_bytes cfg > 0 \<longrightarrow>
       pm_global_memory_bytes pm = sum_list (map (\<lambda>(_, aw). aw_buffered_memory aw) (pm_writers pm)) \<and>
       pm_global_memory_bytes pm \<le> pc_global_memory_limit_bytes cfg) \<and>
    (pc_max_records cfg > 0 \<longrightarrow>
       (\<forall>pid aw. map_of (pm_writers pm) pid = Some aw \<longrightarrow> length (rows_of rows (pw_batches (aw_writer aw))) \<le> pc_max_records cfg) \<and>
       (\<forall>u \<in> set (pm_uploads pm). length (rows_of rows (up_batches u)) \<le> pc_max_records cfg)) \<and>
    (pc_max_concurrent_uploads cfg > 0 \<longrightarrow> length (pm_in_flight_uploads pm) \<le> pc_max_concurrent_uploads cfg)"
proof -
  note R = reach_pool [OF assms]
  have "po_num_rows po = (\<lambda>b. length (rows b))" using assms(1) by (auto simp: arrow_rows_ok_def)
  then have rows: "batch_rows po bs = length (rows_of rows bs)" for bs
    by (simp add: batch_rows_def rows_of_def length_concat comp_def)
  have opened: "length (rows_of rows (pw_batches (aw_writer aw))) \<le> pc_max_records cfg"
    if "map_of (pm_writers pm) pid = Some aw" and "pc_max_records cfg > 0" for pid aw
  proof -
    have "writer_ok po cfg pid aw" using R that(1) unfolding pool_inv_def by blast
    then show ?thesis using that(2) rows by (simp add: writer_ok_def within_def)
  qed
  have i: "in_sync pm" "length (pm_writers pm) \<le> max 1 (pc_max_open_partitions (pm_config pm))" "memory_ok pm" "uploads_ok po pm"
    using R(1) by (simp_all add: pool_inv_def)
  show ?thesis
    using i(1) [unfolded in_sync_def] i(2) i(3) [unfolded memory_ok_def buffered_def] i(4) [unfolded uploads_ok_def within_def rows] opened
    unfolding R(2) by blast
qed


section \<open>Witnesses\<close>

text \<open>Batches as lists of hours of one day; every operation succeeds and no upload ever finishes by itself.\<close>

definition list_parquet :: "(nat list, unit, nat list, unit) parquet_ops" where
  "list_parquet = \<lparr>po_num_rows = length, po_memory = length, po_schema = (\<lambda>_. ()), po_slice = (\<lambda>b off n. take n (drop off b)),
     po_filter = (\<lambda>b mask. Inr (map fst (filter snd (zip b mask)))), po_column_by_name = (\<lambda>b _. Some b),
     po_data_type = (\<lambda>_. TimestampColumn), po_cast_nanos = Inr,
     po_date_part = (\<lambda>c p. Inr (Some (\<lambda>i. i < length c, \<lambda>i. if p = Hour then int (c ! i) else 1))),
     po_arrow_new = (\<lambda>_ _. Inr ()), po_write = (\<lambda>w _. (Inr (), w)), po_bytes_written = (\<lambda>_. 0), po_in_progress_size = (\<lambda>_. 0),
     po_finish = (\<lambda>_. Inr ())\<rparr>"

definition calm_env :: "nat list parquet_env" where
  "calm_env = \<lparr>pe_runtime = MultiThread, pe_utc_key = (\<lambda>_. \<lparr>pk_year = 2026, pk_month = 1, pk_day = 1, pk_hour = 0\<rparr>),
     pe_instant = (\<lambda>_. 0), pe_nanos = (\<lambda>t. Some (int t)), pe_uuid = (\<lambda>_. ''u''), pe_start_upload = (\<lambda>_ _. Inr ()),
     pe_finished = (\<lambda>_ _. False), pe_join = (\<lambda>_. Uploaded)\<rparr>"

definition fresh_manager :: "(nat list, unit) PartitionManager" where
  "fresh_manager = manager_new parquet_default_config"

lemma list_parquet_ok: "arrow_rows_ok list_parquet (\<lambda>b. b)"
  by (simp add: arrow_rows_ok_def list_parquet_def)

lemma fresh_pool: "reach (pool_init parquet_default_config) (pool_step calm_env list_parquet) fresh_manager"
  by (rule reach_init) (simp add: fresh_manager_def pool_init_def parquet_default_config_def u64_max_def)

lemma suc_two: "Suc 2 = 3"
  by simp

lemmas route_loop_3 = route_loop.simps(2) [where fuel = 2, unfolded suc_two]

lemmas parquet_eval = route_loop_3 fresh_manager_def route_batch_def check_background_errors_def calm_env_def list_parquet_def manager_new_def parquet_default_config_def
  tick_def row_key_def extract_temporal_components_def route_sub_batch_def evict_while.simps memory_exceeded_def
  rows_to_write_def write_new_def too_many_open_def open_writer_def next_sequence_def generate_filename_def writer_try_new_def
  write_batch_def file_full_def estimated_writer_bytes_def sat_add_def u64_max_def to_result_def Let_def namer_new_def next_nanos_def
  write_existing_def

theorem route_refines_store_witness:
  "\<exists>pm'. route_batch calm_env list_parquet ''logs'' [7] fresh_manager = Some (Inr (), pm') \<and>
     (\<exists>t. partition_rows (\<lambda>b. b) pm' =
        spec_route (partition_of parquet_default_config ''logs'') (keys_of list_parquet (pe_utc_key calm_env t) [7]) [7]
          (partition_rows (\<lambda>b. b) fresh_manager))"
proof -
  have ok: "map_option fst (route_batch calm_env list_parquet ''logs'' [7] fresh_manager) = Some (Inr ())"
    by (simp add: parquet_eval)
  then obtain pm' where r: "route_batch calm_env list_parquet ''logs'' [7] fresh_manager = Some (Inr (), pm')" by auto
  from route_refines_store [OF list_parquet_ok fresh_pool, of "''logs''" "[7]"] show ?thesis
  proof (elim exE conjE)
    fix r0 pm0 t
    assume run: "route_batch calm_env list_parquet ''logs'' [7] fresh_manager = Some (r0, pm0)"
      and "r0 = Inr () \<longrightarrow>
        partition_rows (\<lambda>b. b) pm0 = spec_route (partition_of parquet_default_config ''logs'') (keys_of list_parquet (pe_utc_key calm_env t) [7]) [7]
          (partition_rows (\<lambda>b. b) fresh_manager) \<and>
        (\<forall>pid. mset (partition_rows (\<lambda>b. b) pm0 pid) = mset (partition_rows (\<lambda>b. b) fresh_manager pid) +
          mset (rows_with (\<lambda>k. partition_of parquet_default_config ''logs'' k = pid) (keys_of list_parquet (pe_utc_key calm_env t) [7]) [7]))"
    moreover have "r0 = Inr ()" using r run by simp
    ultimately show ?thesis by (intro exI [of _ pm0] conjI exI [of _ t]) simp_all
  qed
qed

theorem pool_limits_hold_witness:
  "length (pm_writers (snd (the (route_batch calm_env list_parquet ''logs'' [7] fresh_manager)))) \<le> 16"
proof -
  obtain r pm' where "route_batch calm_env list_parquet ''logs'' [7] fresh_manager = Some (r, pm')"
    using route_batch_facts [OF list_parquet_ok reach_pool(1) [OF list_parquet_ok fresh_pool], of calm_env "''logs''" "[7]"] by blast
  moreover from this have "reach (pool_init parquet_default_config) (pool_step calm_env list_parquet) pm'"
    by (intro reach_step [OF fresh_pool, of "RouteBatch ''logs'' [7]"]) auto
  from pool_limits_hold [OF list_parquet_ok this] have "length (pm_writers pm') \<le> 16" by (simp add: parquet_default_config_def)
  ultimately show ?thesis by simp
qed


end
