(* ===== verification/EsSerializer.thy ===== *)
theory EsSerializer
  imports Signals Decimal
begin

text \<open>
  Serialisation of a record batch into NDJSON bulk payloads for Elasticsearch
  (\<open>crates/elasticsearch-sink/src/serializer.rs\<close>) and the extraction of single documents from such a
  payload (\<open>extract_sub_payload\<close> of \<open>client.rs\<close>).

  Text is bytes here, as the code writes bytes. The Arrow arrays and the formatting libraries (\<open>chrono\<close>,
  \<open>itoa\<close>, \<open>ryu\<close>, \<open>serde_json\<close>) are the record \<open>es_ops\<close>; \<open>es_ops_ok\<close> states what is asked of them.
  The functions that append to a buffer return the bytes they append.
\<close>

section \<open>Errors\<close>

datatype ElasticsearchError =
    Http string
  | BulkFailed nat string
  | AuthenticationFailed string
  | StartupValidation string
  | Serialization string
  | PayloadTooLarge nat nat

section \<open>Values\<close>

datatype TimeUnit = Second | Millisecond | Microsecond | Nanosecond

datatype es_type =
    TimestampType TimeUnit | Utf8Type | LargeUtf8Type | BooleanType
  | Int8Type | Int16Type | Int32Type | Int64Type | UInt8Type | UInt16Type | UInt32Type | UInt64Type
  | Float32Type | Float64Type | NullType | OtherType string

text \<open>The value of a cell that is not null. A float is its text under \<open>ryu\<close>, or nothing if it is not finite.\<close>

datatype es_value = IntValue int | FloatValue "byte list option" | TextValue "byte list" | BoolValue bool | OpaqueValue

record 'b es_ops =
  eo_num_rows :: "'b \<Rightarrow> nat"
  eo_fields :: "'b \<Rightarrow> (byte list \<times> es_type) list"
  eo_array_type :: "'b \<Rightarrow> nat \<Rightarrow> es_type"
  eo_cell :: "'b \<Rightarrow> nat \<Rightarrow> nat \<Rightarrow> es_value option"
  eo_display :: "'b \<Rightarrow> nat \<Rightarrow> nat \<Rightarrow> string + byte list"
  eo_format_timestamp :: "int \<Rightarrow> nat \<Rightarrow> byte list option"
  eo_itoa :: "int \<Rightarrow> byte list"
  eo_reprint_json :: "byte list \<Rightarrow> byte list option"

definition ascii :: "string \<Rightarrow> byte list" where
  "ascii s = map (\<lambda>c. of_nat (of_char c)) s"

definition BULK_ACTION :: "byte list" where
  "BULK_ACTION = ascii ''{\"create\":{}}'' @ [10]"

definition HEX_CHARS :: "byte list" where
  "HEX_CHARS = ascii ''0123456789abcdef''"

fun escape_byte :: "byte \<Rightarrow> byte list" where
  "escape_byte b =
     (if b = 0x22 then [0x5c, 0x22] else if b = 0x5c then [0x5c, 0x5c]
      else if b = 0x0a then [0x5c, 0x6e] else if b = 0x0d then [0x5c, 0x72] else if b = 0x09 then [0x5c, 0x74]
      else if b < 0x20 then [0x5c, 0x75, 0x30, 0x30, HEX_CHARS ! unat (drop_bit 4 b), HEX_CHARS ! unat (and b 0x0f)]
      else [b])"

definition write_escaped_string :: "byte list \<Rightarrow> byte list" where
  "write_escaped_string s = [0x22] @ concat (map escape_byte s) @ [0x22]"

definition null_text :: "byte list" where
  "null_text = ascii ''null''"

definition write_timestamp :: "'b es_ops \<Rightarrow> int \<Rightarrow> nat \<Rightarrow> byte list" where
  "write_timestamp eo secs subsec_nanos =
     (case eo_format_timestamp eo secs subsec_nanos of
        Some t \<Rightarrow> [0x22] @ t @ [0x22]
      | None \<Rightarrow> null_text)"

fun array_name :: "es_type \<Rightarrow> string" where
  "array_name (TimestampType Nanosecond) = ''TimestampNanosecondArray''"
| "array_name (TimestampType Microsecond) = ''TimestampMicrosecondArray''"
| "array_name (TimestampType Millisecond) = ''TimestampMillisecondArray''"
| "array_name (TimestampType Second) = ''TimestampSecondArray''"
| "array_name Utf8Type = ''StringArray''"
| "array_name LargeUtf8Type = ''LargeStringArray''"
| "array_name BooleanType = ''BooleanArray''"
| "array_name Int8Type = ''Int8Array''"
| "array_name Int16Type = ''Int16Array''"
| "array_name Int32Type = ''Int32Array''"
| "array_name Int64Type = ''Int64Array''"
| "array_name UInt8Type = ''UInt8Array''"
| "array_name UInt16Type = ''UInt16Array''"
| "array_name UInt32Type = ''UInt32Array''"
| "array_name UInt64Type = ''UInt64Array''"
| "array_name Float32Type = ''Float32Array''"
| "array_name Float64Type = ''Float64Array''"
| "array_name NullType = ''NullArray''"
| "array_name (OtherType t) = t"

text \<open>\<open>downcast_ref\<close>: the array is of the type its field declares, and so are its values.\<close>

fun has_type :: "es_type \<Rightarrow> es_value \<Rightarrow> bool" where
  "has_type (TimestampType _) (IntValue _) = True"
| "has_type Utf8Type (TextValue _) = True"
| "has_type LargeUtf8Type (TextValue _) = True"
| "has_type BooleanType (BoolValue _) = True"
| "has_type Int8Type (IntValue _) = True"
| "has_type Int16Type (IntValue _) = True"
| "has_type Int32Type (IntValue _) = True"
| "has_type Int64Type (IntValue _) = True"
| "has_type UInt8Type (IntValue _) = True"
| "has_type UInt16Type (IntValue _) = True"
| "has_type UInt32Type (IntValue _) = True"
| "has_type UInt64Type (IntValue _) = True"
| "has_type Float32Type (FloatValue _) = True"
| "has_type Float64Type (FloatValue _) = True"
| "has_type _ _ = False"

definition downcast :: "es_type \<Rightarrow> es_type \<Rightarrow> es_value \<Rightarrow> ElasticsearchError + es_value" where
  "downcast array_type ty v =
     (if array_type = ty \<and> has_type ty v then Inr v else Inl (Serialization (''expected '' @ array_name ty)))"

fun write_timestamp_col :: "'b es_ops \<Rightarrow> TimeUnit \<Rightarrow> int \<Rightarrow> byte list" where
  "write_timestamp_col eo Nanosecond nanos =
     write_timestamp eo (nanos div 1000000000) (nat (nanos mod 1000000000))"
| "write_timestamp_col eo Microsecond micros =
     write_timestamp eo (micros div 1000000) (nat (micros mod 1000000 * 1000))"
| "write_timestamp_col eo Millisecond millis =
     write_timestamp eo (millis div 1000) (nat (millis mod 1000 * 1000000))"
| "write_timestamp_col eo Second secs = write_timestamp eo secs 0"

definition write_string_col :: "'b es_ops \<Rightarrow> bool \<Rightarrow> byte list \<Rightarrow> byte list" where
  "write_string_col eo unpack_json val =
     (if unpack_json \<and> val \<noteq> [] \<and> (hd val = 0x7b \<or> hd val = 0x5b) then
        if 0x0a \<in> set val \<or> 0x0d \<in> set val then
          (case eo_reprint_json eo val of
             Some parsed \<Rightarrow> parsed
           | None \<Rightarrow> write_escaped_string val)
        else if eo_reprint_json eo val \<noteq> None then val
        else write_escaped_string val
      else write_escaped_string val)"

text \<open>All integer types are printed alike; a float that is not finite becomes null.\<close>

definition write_numeric_col :: "'b es_ops \<Rightarrow> es_value \<Rightarrow> byte list" where
  "write_numeric_col eo v =
     (case v of
        IntValue i \<Rightarrow> eo_itoa eo i
      | FloatValue f \<Rightarrow> (case f of Some t \<Rightarrow> t | None \<Rightarrow> null_text)
      | _ \<Rightarrow> [])"

definition write_value :: "'b es_ops \<Rightarrow> 'b \<Rightarrow> nat \<Rightarrow> nat \<Rightarrow> es_type \<Rightarrow> bool \<Rightarrow> ElasticsearchError + byte list" where
  "write_value eo batch col_idx row ty unpack_json =
     (case eo_cell eo batch col_idx row of
        None \<Rightarrow> Inr null_text
      | Some v \<Rightarrow>
          (case ty of
             NullType \<Rightarrow> Inr null_text
           | OtherType _ \<Rightarrow>
               (case eo_display eo batch col_idx row of
                  Inl e \<Rightarrow> Inl (Serialization e)
                | Inr t \<Rightarrow> Inr (write_escaped_string t))
           | _ \<Rightarrow>
               try_bind (downcast (eo_array_type eo batch col_idx) ty v) (\<lambda>v'. Inr
                 (case v' of
                    IntValue i \<Rightarrow> (case ty of TimestampType unit \<Rightarrow> write_timestamp_col eo unit i | _ \<Rightarrow> write_numeric_col eo v')
                  | FloatValue _ \<Rightarrow> write_numeric_col eo v'
                  | TextValue s \<Rightarrow> write_string_col eo unpack_json s
                  | BoolValue b \<Rightarrow> ascii (if b then ''true'' else ''false'')
                  | OpaqueValue \<Rightarrow> []))))"

section \<open>Documents and chunks\<close>

definition output_name :: "byte list \<Rightarrow> byte list" where
  "output_name name = (if name = ascii ''timestamp'' then ascii ''@timestamp'' else name)"

definition is_attr_field :: "byte list \<Rightarrow> bool" where
  "is_attr_field name \<longleftrightarrow> name = ascii ''attributes'' \<or> name = ascii ''resource_attributes''"

fun write_fields ::
  "'b es_ops \<Rightarrow> 'b \<Rightarrow> bool \<Rightarrow> nat \<Rightarrow> nat \<Rightarrow> bool \<Rightarrow> (byte list \<times> es_type) list \<Rightarrow> ElasticsearchError + byte list" where
  "write_fields eo batch unpack_attributes row col_idx first_field [] = Inr []"
| "write_fields eo batch unpack_attributes row col_idx first_field ((name, ty) # fs) =
     (if eo_cell eo batch col_idx row = None
      then write_fields eo batch unpack_attributes row (Suc col_idx) first_field fs
      else
        try_bind (write_value eo batch col_idx row ty (unpack_attributes \<and> is_attr_field name)) (\<lambda>v.
        try_bind (write_fields eo batch unpack_attributes row (Suc col_idx) False fs) (\<lambda>rest.
          Inr ((if first_field then [] else [0x2c]) @ [0x22] @ output_name name @ [0x22, 0x3a] @ v @ rest))))"

text \<open>What \<open>row_buf\<close> holds after a row: the action line and the document line.\<close>

definition bulk_record :: "'b es_ops \<Rightarrow> 'b \<Rightarrow> bool \<Rightarrow> nat \<Rightarrow> ElasticsearchError + byte list" where
  "bulk_record eo batch unpack_attributes row =
     try_bind (write_fields eo batch unpack_attributes row 0 True (eo_fields eo batch)) (\<lambda>doc.
       Inr (BULK_ACTION @ [0x7b] @ doc @ [0x7d, 0x0a]))"

record BulkChunk =
  bc_start_row :: nat
  bc_row_count :: nat
  bc_payload :: "byte list"

text \<open>The state of the loop: the open chunk, the finished ones and the rows that are too large.\<close>

record chunk_state =
  cs_current_chunk :: "byte list"
  cs_chunk_start_row :: nat
  cs_chunk_row_count :: nat
  cs_chunks :: "BulkChunk list"
  cs_oversized_rows :: "(nat \<times> nat) list"

definition seal_chunk :: "chunk_state \<Rightarrow> chunk_state" where
  "seal_chunk cs =
     (if cs_current_chunk cs = [] then cs
      else cs\<lparr>cs_chunks := cs_chunks cs @
                [\<lparr>bc_start_row = cs_chunk_start_row cs, bc_row_count = cs_chunk_row_count cs,
                  bc_payload = cs_current_chunk cs\<rparr>],
              cs_current_chunk := [], cs_chunk_row_count := 0\<rparr>)"

definition add_record :: "nat \<Rightarrow> nat \<Rightarrow> byte list \<Rightarrow> chunk_state \<Rightarrow> chunk_state" where
  "add_record max_payload_bytes row row_buf cs =
     (if length row_buf > max_payload_bytes
      then let cs1 = seal_chunk cs in cs1\<lparr>cs_oversized_rows := cs_oversized_rows cs1 @ [(row, length row_buf)]\<rparr>
      else
        let cs1 = (if sat_add (length (cs_current_chunk cs)) (length row_buf) > max_payload_bytes then seal_chunk cs else cs);
            cs2 = (if cs_chunk_row_count cs1 = 0 then cs1\<lparr>cs_chunk_start_row := row\<rparr> else cs1)
        in cs2\<lparr>cs_current_chunk := cs_current_chunk cs2 @ row_buf,
               cs_chunk_row_count := sat_add (cs_chunk_row_count cs2) 1\<rparr>)"

fun chunk_rows ::
  "'b es_ops \<Rightarrow> 'b \<Rightarrow> bool \<Rightarrow> nat \<Rightarrow> nat list \<Rightarrow> chunk_state \<Rightarrow> ElasticsearchError + chunk_state" where
  "chunk_rows eo batch unpack_attributes max_payload_bytes [] cs = Inr cs"
| "chunk_rows eo batch unpack_attributes max_payload_bytes (row # rows) cs =
     try_bind (bulk_record eo batch unpack_attributes row) (\<lambda>row_buf.
       chunk_rows eo batch unpack_attributes max_payload_bytes rows (add_record max_payload_bytes row row_buf cs))"

definition serialize_batch_chunks_internal ::
  "'b es_ops \<Rightarrow> 'b \<Rightarrow> bool \<Rightarrow> nat \<Rightarrow> ElasticsearchError + (BulkChunk list \<times> (nat \<times> nat) list)" where
  "serialize_batch_chunks_internal eo batch unpack_attributes max_payload_bytes =
     (if eo_num_rows eo batch = 0 then Inr ([], [])
      else
        try_bind (chunk_rows eo batch unpack_attributes max_payload_bytes [0..<eo_num_rows eo batch]
                    \<lparr>cs_current_chunk = [], cs_chunk_start_row = 0, cs_chunk_row_count = 0, cs_chunks = [],
                     cs_oversized_rows = []\<rparr>) (\<lambda>cs.
          let cs1 = seal_chunk cs in Inr (cs_chunks cs1, cs_oversized_rows cs1)))"

text \<open>The \<open>From\<close> conversion keeps the error as a boxed storage error.\<close>

fun es_error_text :: "ElasticsearchError \<Rightarrow> string" where
  "es_error_text (Http e) = ''HTTP error: '' @ e"
| "es_error_text (BulkFailed retries message) = ''bulk request failed after '' @ show_nat retries @ '' retries: '' @ message"
| "es_error_text (AuthenticationFailed e) = ''authentication failed: '' @ e"
| "es_error_text (StartupValidation e) = ''startup validation failed: '' @ e"
| "es_error_text (Serialization e) = ''serialization error: '' @ e"
| "es_error_text (PayloadTooLarge actual limit) =
     ''payload size '' @ show_nat actual @ '' bytes exceeds limit '' @ show_nat limit @ '' bytes''"

definition to_pipeline_error :: "ElasticsearchError \<Rightarrow> PipelineError" where
  "to_pipeline_error e = Storage (es_error_text e)"

definition map_es :: "ElasticsearchError + 'a \<Rightarrow> 'a result" where
  "map_es r = (case r of Inl e \<Rightarrow> Inl (to_pipeline_error e) | Inr x \<Rightarrow> Inr x)"

definition serialize_batch_chunks_with_oversized ::
  "'b es_ops \<Rightarrow> 'b \<Rightarrow> bool \<Rightarrow> nat \<Rightarrow> (BulkChunk list \<times> (nat \<times> nat) list) result" where
  "serialize_batch_chunks_with_oversized eo batch unpack_attributes max_payload_bytes =
     map_es (serialize_batch_chunks_internal eo batch unpack_attributes max_payload_bytes)"

definition serialize_batch_chunks_with_ranges ::
  "'b es_ops \<Rightarrow> 'b \<Rightarrow> bool \<Rightarrow> nat \<Rightarrow> BulkChunk list result" where
  "serialize_batch_chunks_with_ranges eo batch unpack_attributes max_payload_bytes =
     try_bind (map_es (serialize_batch_chunks_internal eo batch unpack_attributes max_payload_bytes)) (\<lambda>(chunks, _). Inr chunks)"

definition serialize_batch_chunks :: "'b es_ops \<Rightarrow> 'b \<Rightarrow> bool \<Rightarrow> nat \<Rightarrow> ElasticsearchError + byte list list" where
  "serialize_batch_chunks eo batch unpack_attributes max_payload_bytes =
     try_bind (serialize_batch_chunks_internal eo batch unpack_attributes max_payload_bytes) (\<lambda>(chunks, _).
       Inr (map bc_payload chunks))"

definition serialize_batch :: "'b es_ops \<Rightarrow> 'b \<Rightarrow> bool \<Rightarrow> nat \<Rightarrow> ElasticsearchError + byte list" where
  "serialize_batch eo batch unpack_attributes max_payload_bytes =
     try_bind (serialize_batch_chunks eo batch unpack_attributes max_payload_bytes) (\<lambda>chunks.
       case chunks of
         [] \<Rightarrow> Inr []
       | [c] \<Rightarrow> Inr c
       | _ \<Rightarrow> Inl (PayloadTooLarge (sum_list (map length chunks)) max_payload_bytes))"

section \<open>Taking documents out of a payload\<close>

definition is_blank :: "byte list \<Rightarrow> bool" where
  "is_blank l \<longleftrightarrow> list_all (\<lambda>c. c = 0x0d \<or> c = 0x0a \<or> c = 0x20 \<or> c = 0x09) l"

definition byte_slice :: "byte list \<Rightarrow> nat \<Rightarrow> nat \<Rightarrow> byte list" where
  "byte_slice payload s e = take (e - s) (drop s payload)"

text \<open>The loop over the bytes; the second component is where the last, unfinished line starts.\<close>

fun scan_lines :: "byte list \<Rightarrow> nat \<Rightarrow> nat \<Rightarrow> byte list \<Rightarrow> (nat \<times> nat) list \<times> nat" where
  "scan_lines payload idx line_start [] = ([], line_start)"
| "scan_lines payload idx line_start (b # bs) =
     (if b = 0x0a
      then (case scan_lines payload (Suc idx) (Suc idx) bs of (ranges, last_start) \<Rightarrow>
              (if is_blank (byte_slice payload line_start (Suc idx)) then ranges else (line_start, Suc idx) # ranges,
               last_start))
      else scan_lines payload (Suc idx) line_start bs)"

definition line_ranges :: "byte list \<Rightarrow> (nat \<times> nat) list" where
  "line_ranges payload =
     (case scan_lines payload 0 0 payload of (ranges, line_start) \<Rightarrow>
        if line_start < length payload \<and> \<not> is_blank (drop line_start payload)
        then ranges @ [(line_start, length payload)] else ranges)"

text \<open>One iteration of the loop over the requested items; \<open>get\<close> cannot fail behind the bounds check.\<close>

fun select_ranges :: "byte list \<Rightarrow> (nat \<times> nat) list \<Rightarrow> nat list \<Rightarrow> ElasticsearchError + (nat \<times> nat \<times> bool) list" where
  "select_ranges payload ranges [] = Inr []"
| "select_ranges payload ranges (idx # idxs) =
     (if idx \<ge> length ranges div 2
      then Inl (Serialization (''item index '' @ show_nat idx @ '' out of bounds for payload containing '' @
                  show_nat (length ranges div 2) @ '' items''))
      else
        let action_start = fst (ranges ! (2 * idx)); doc_end = snd (ranges ! (2 * idx + 1));
            slice = byte_slice payload action_start doc_end
        in try_bind (select_ranges payload ranges idxs) (\<lambda>rest.
             Inr ((action_start, doc_end, \<not> (slice \<noteq> [] \<and> last slice = 0x0a)) # rest)))"

definition extract_sub_payload :: "byte list \<Rightarrow> nat list \<Rightarrow> ElasticsearchError + byte list" where
  "extract_sub_payload payload item_indices =
     (if item_indices = [] then Inr []
      else
        let ranges = line_ranges payload
        in if length ranges mod 2 \<noteq> 0
           then Inl (Serialization (''payload has an odd number of lines ('' @ show_nat (length ranges) @
                       ''), expected pairs of action and document lines''))
           else try_bind (select_ranges payload ranges item_indices) (\<lambda>selected.
                  Inr (concat (map (\<lambda>(s, e, add_newline).
                         byte_slice payload s e @ (if add_newline then [0x0a] else [])) selected))))"

section \<open>Escaping\<close>

text \<open>How a JSON reader (RFC 8259) reads the rest of a string after its opening quote.\<close>

definition hex_val :: "byte \<Rightarrow> nat option" where
  "hex_val b =
     (if 0x30 \<le> b \<and> b \<le> 0x39 then Some (unat b - 48) else if 0x61 \<le> b \<and> b \<le> 0x66 then Some (unat b - 87) else None)"

fun read_string :: "byte list \<Rightarrow> (byte list \<times> byte list) option" where
  "read_string [] = None"
| "read_string (b # bs) =
     (if b = 0x22 then Some ([], bs)
      else if b < 0x20 then None
      else if b = 0x5c then
        (case bs of
           [] \<Rightarrow> None
         | c # cs \<Rightarrow>
             if c = 0x22 \<or> c = 0x5c then map_option (apfst (Cons c)) (read_string cs)
             else if c = 0x6e then map_option (apfst (Cons 0x0a)) (read_string cs)
             else if c = 0x72 then map_option (apfst (Cons 0x0d)) (read_string cs)
             else if c = 0x74 then map_option (apfst (Cons 0x09)) (read_string cs)
             else if c = 0x75 then
               (case cs of
                  z1 # z2 # h # l # ds \<Rightarrow>
                    (case (hex_val z1, hex_val z2, hex_val h, hex_val l) of
                       (Some 0, Some 0, Some hi, Some lo) \<Rightarrow>
                         map_option (apfst (Cons (of_nat (16 * hi + lo)))) (read_string ds)
                     | _ \<Rightarrow> None)
                | _ \<Rightarrow> None)
             else None)
      else map_option (apfst (Cons b)) (read_string bs))"

lemma hex_val_HEX_CHARS: "k < 16 \<Longrightarrow> hex_val (HEX_CHARS ! k) = Some k"
  by (simp add: numeral_eq_Suc less_Suc_eq HEX_CHARS_def ascii_def hex_val_def) auto

lemma nibbles:
  fixes b :: byte
  shows "unat (drop_bit 4 b) = unat b div 16" "unat (and b 0x0f) = unat b mod 16"
proof -
  show "unat (drop_bit 4 b) = unat b div 16" by (simp add: drop_bit_eq_div unat_div_distrib)
  have "and b 0x0f = take_bit 4 b" by (simp add: take_bit_eq_mask mask_eq_exp_minus_1)
  then show "unat (and b 0x0f) = unat b mod 16" by (simp add: take_bit_eq_mod unat_mod_distrib)
qed

lemma read_escape_byte:
  "read_string (escape_byte b @ rest) = map_option (apfst (Cons b)) (read_string rest)"
proof (cases "b < 0x20")
  case True
  have lt: "unat b < 256" using unsigned_less [of b] by simp
  have "hex_val (HEX_CHARS ! (unat b div 16)) = Some (unat b div 16)"
    "hex_val (HEX_CHARS ! (unat b mod 16)) = Some (unat b mod 16)"
    using lt by (simp_all add: hex_val_HEX_CHARS less_mult_imp_div_less)
  moreover have "(of_nat (16 * (unat b div 16) + unat b mod 16) :: byte) = b"
    by (simp only: mult_div_mod_eq) simp
  moreover have "hex_val 0x30 = Some 0" by (simp add: hex_val_def)
  ultimately show ?thesis using True by (auto simp: nibbles)
qed auto

declare escape_byte.simps [simp del] read_string.simps [simp del]

section \<open>Chunks\<close>

definition chunk_range :: "BulkChunk \<Rightarrow> nat list" where
  "chunk_range c = [bc_start_row c..<bc_start_row c + bc_row_count c]"

text \<open>A chunk holds the records of its rows, and is not too large.\<close>

definition chunk_ok :: "(nat \<Rightarrow> byte list) \<Rightarrow> nat \<Rightarrow> nat \<Rightarrow> BulkChunk \<Rightarrow> bool" where
  "chunk_ok rcd max_payload_bytes n c \<longleftrightarrow>
     bc_row_count c > 0 \<and> bc_start_row c + bc_row_count c \<le> n \<and>
     bc_payload c = concat (map rcd (chunk_range c)) \<and> length (bc_payload c) \<le> max_payload_bytes"

definition chunk_inv :: "(nat \<Rightarrow> byte list) \<Rightarrow> nat \<Rightarrow> nat \<Rightarrow> chunk_state \<Rightarrow> bool" where
  "chunk_inv rcd m k cs \<longleftrightarrow>
     (\<forall>c \<in> set (cs_chunks cs). chunk_ok rcd m k c) \<and>
     cs_oversized_rows cs = map (\<lambda>i. (i, length (rcd i))) (filter (\<lambda>i. length (rcd i) > m) [0..<k]) \<and>
     cs_chunk_row_count cs \<le> k \<and>
     concat (map chunk_range (cs_chunks cs)) @ [k - cs_chunk_row_count cs..<k] = filter (\<lambda>i. length (rcd i) \<le> m) [0..<k] \<and>
     cs_current_chunk cs = concat (map rcd [k - cs_chunk_row_count cs..<k]) \<and>
     length (cs_current_chunk cs) \<le> m \<and>
     (cs_chunk_row_count cs > 0 \<longrightarrow> cs_chunk_start_row cs + cs_chunk_row_count cs = k)"

lemma chunk_ok_mono: "chunk_ok rcd m k c \<Longrightarrow> k \<le> k' \<Longrightarrow> chunk_ok rcd m k' c"
  unfolding chunk_ok_def by auto

lemma bulk_record_nonempty: "bulk_record eo b u i = Inr r \<Longrightarrow> r \<noteq> []"
  by (auto simp: bulk_record_def try_bind_Inr BULK_ACTION_def)

lemma chunk_inv_seal:
  assumes inv: "chunk_inv rcd m k cs" and ne: "\<And>i. i < k \<Longrightarrow> rcd i \<noteq> []"
  shows "chunk_inv rcd m k (seal_chunk cs) \<and> cs_chunk_row_count (seal_chunk cs) = 0"
proof (cases "cs_chunk_row_count cs = 0")
  case True
  then have "cs_current_chunk cs = []" using inv by (simp add: chunk_inv_def)
  then show ?thesis using inv True by (simp add: seal_chunk_def)
next
  case False
  let ?c = "\<lparr>bc_start_row = cs_chunk_start_row cs, bc_row_count = cs_chunk_row_count cs, bc_payload = cs_current_chunk cs\<rparr>"
  have st: "cs_chunk_start_row cs + cs_chunk_row_count cs = k" and le: "cs_chunk_row_count cs \<le> k"
    using inv False by (auto simp: chunk_inv_def)
  then have start: "cs_chunk_start_row cs = k - cs_chunk_row_count cs" by simp
  have range: "chunk_range ?c = [k - cs_chunk_row_count cs..<k]" using st by (simp add: chunk_range_def start)
  have cur: "cs_current_chunk cs = concat (map rcd [k - cs_chunk_row_count cs..<k])" using inv by (simp add: chunk_inv_def)
  have "k - cs_chunk_row_count cs \<in> set [k - cs_chunk_row_count cs..<k]" using False le by simp
  then have nonempty: "cs_current_chunk cs \<noteq> []"
    using ne [of "k - cs_chunk_row_count cs"] False le unfolding cur by fastforce
  have "chunk_ok rcd m k ?c" using inv False st unfolding chunk_ok_def chunk_inv_def range by auto
  then show ?thesis using inv nonempty range by (auto simp: seal_chunk_def chunk_inv_def)
qed

lemma chunk_inv_start:
  "chunk_inv rcd m k cs \<Longrightarrow> cs_chunk_row_count cs = 0 \<Longrightarrow> chunk_inv rcd m k (cs\<lparr>cs_chunk_start_row := r\<rparr>)"
  by (simp add: chunk_inv_def)

lemma chunk_inv_push:
  assumes inv: "chunk_inv rcd m k cs" and fits: "length (cs_current_chunk cs) + length (rcd k) \<le> m"
    and start: "cs_chunk_start_row cs + cs_chunk_row_count cs = k"
  shows "chunk_inv rcd m (Suc k) (cs\<lparr>cs_current_chunk := cs_current_chunk cs @ rcd k,
           cs_chunk_row_count := Suc (cs_chunk_row_count cs)\<rparr>)"
proof -
  have le: "cs_chunk_row_count cs \<le> k" using inv by (simp add: chunk_inv_def)
  then have up: "[k - cs_chunk_row_count cs..<Suc k] = [k - cs_chunk_row_count cs..<k] @ [k]" by simp
  have small: "length (rcd k) \<le> m" using fits by simp
  have "concat (map chunk_range (cs_chunks cs)) @ [k - cs_chunk_row_count cs..<k] = filter (\<lambda>i. length (rcd i) \<le> m) [0..<k]"
    using inv by (simp add: chunk_inv_def)
  then have "concat (map chunk_range (cs_chunks cs)) @ [k - cs_chunk_row_count cs..<Suc k] =
    filter (\<lambda>i. length (rcd i) \<le> m) [0..<Suc k]"
    unfolding up using small by (simp flip: append_assoc)
  then show ?thesis
    using inv fits start le small by (auto simp: chunk_inv_def intro: chunk_ok_mono [of _ _ k])
qed

lemma chunk_inv_skip:
  assumes inv: "chunk_inv rcd m k cs" and "cs_chunk_row_count cs = 0" and "m < length (rcd k)"
  shows "chunk_inv rcd m (Suc k) (cs\<lparr>cs_oversized_rows := cs_oversized_rows cs @ [(k, length (rcd k))]\<rparr>)"
  using assms by (auto simp: chunk_inv_def intro: chunk_ok_mono [of _ _ k])

lemma chunk_inv_add:
  assumes inv: "chunk_inv rcd m k cs" and ne: "\<And>i. i < k \<Longrightarrow> rcd i \<noteq> []" and "k < u64_max" and "m < u64_max"
  shows "chunk_inv rcd m (Suc k) (add_record m k (rcd k) cs)"
proof (cases "m < length (rcd k)")
  case True
  then show ?thesis
    using chunk_inv_skip [of rcd m k "seal_chunk cs"] chunk_inv_seal [OF inv ne] by (simp add: add_record_def Let_def)
next
  case False
  define cs1 where "cs1 = (if sat_add (length (cs_current_chunk cs)) (length (rcd k)) > m then seal_chunk cs else cs)"
  define cs2 where "cs2 = (if cs_chunk_row_count cs1 = 0 then cs1\<lparr>cs_chunk_start_row := k\<rparr> else cs1)"
  have inv1: "chunk_inv rcd m k cs1" using inv chunk_inv_seal [OF inv ne] by (simp add: cs1_def)
  have fits: "length (cs_current_chunk cs1) + length (rcd k) \<le> m"
  proof (cases "sat_add (length (cs_current_chunk cs)) (length (rcd k)) > m")
    case True
    then have "cs_current_chunk cs1 = []"
      using chunk_inv_seal [OF inv ne] by (auto simp: cs1_def chunk_inv_def)
    then show ?thesis using False by simp
  next
    case no: False
    then show ?thesis using \<open>m < u64_max\<close> by (auto simp: cs1_def sat_add_def)
  qed
  have inv2: "chunk_inv rcd m k cs2" using inv1 by (simp add: cs2_def chunk_inv_start)
  have start: "cs_chunk_start_row cs2 + cs_chunk_row_count cs2 = k" using inv1 by (simp add: cs2_def chunk_inv_def)
  have count: "sat_add (cs_chunk_row_count cs2) 1 = Suc (cs_chunk_row_count cs2)"
    using start \<open>k < u64_max\<close> by (simp add: sat_add_def)
  have "add_record m k (rcd k) cs = cs2\<lparr>cs_current_chunk := cs_current_chunk cs2 @ rcd k,
           cs_chunk_row_count := Suc (cs_chunk_row_count cs2)\<rparr>"
    using False by (simp add: add_record_def Let_def flip: cs1_def cs2_def count)
  then show ?thesis using chunk_inv_push [OF inv2 _ start] fits by (simp add: cs2_def split: if_splits)
qed

lemma chunk_rows_inv:
  assumes "chunk_inv rcd m k cs" and "n \<le> u64_max" and "m < u64_max" and "k \<le> n"
    and "chunk_rows eo b u m [k..<n] cs = Inr cs'"
    and "\<And>i r. bulk_record eo b u i = Inr r \<Longrightarrow> rcd i = r" and "\<And>i. i < k \<Longrightarrow> rcd i \<noteq> []"
  shows "chunk_inv rcd m n cs' \<and> (\<forall>i \<in> {k..<n}. bulk_record eo b u i = Inr (rcd i))"
  using assms(1,4,5,7)
proof (induction "n - k" arbitrary: k cs)
  case 0
  then show ?case by simp
next
  case (Suc d)
  then have lt: "k < n" by simp
  then have "[k..<n] = k # [Suc k..<n]" by (rule upt_conv_Cons)
  then obtain r where r: "bulk_record eo b u k = Inr r"
    and rest: "chunk_rows eo b u m [Suc k..<n] (add_record m k r cs) = Inr cs'"
    using Suc.prems(3) by (auto simp: try_bind_Inr)
  have rk: "rcd k = r" by (rule assms(6) [OF r])
  then have ne: "i < Suc k \<Longrightarrow> rcd i \<noteq> []" for i
    using Suc.prems(4) bulk_record_nonempty [OF r] by (auto simp: less_Suc_eq)
  have "chunk_inv rcd m (Suc k) (add_record m k r cs)"
    using chunk_inv_add [OF Suc.prems(1,4)] lt assms(2,3) rk by simp
  then have "chunk_inv rcd m n cs' \<and> (\<forall>i \<in> {Suc k..<n}. bulk_record eo b u i = Inr (rcd i))"
    using Suc.hyps(1) [OF _ _ _ rest ne] Suc.hyps(2) lt by simp
  moreover have "{k..<n} = insert k {Suc k..<n}" using lt by (simp add: atLeastLessThanSuc_atLeastAtMost ivl_disj_un_singleton atLeastLessThan_eq_atLeastAtMost_diff) auto
  ultimately show ?case using r rk by simp
qed

section \<open>Records\<close>

text \<open>A record is two lines that are not blank.\<close>

definition line_ok :: "byte list \<Rightarrow> bool" where
  "line_ok l \<longleftrightarrow> 0x0a \<notin> set l \<and> \<not> is_blank l"

definition record_ok :: "byte list \<Rightarrow> bool" where
  "record_ok r \<longleftrightarrow> (\<exists>a d. r = a @ [0x0a] @ d @ [0x0a] \<and> line_ok a \<and> line_ok d)"

text \<open>
  What is asked of the libraries: the texts of times, numbers and reprinted JSON are on one line.
  \<open>names_ok\<close> asks the same of the column names.
\<close>

definition es_ops_ok :: "'b es_ops \<Rightarrow> bool" where
  "es_ops_ok eo \<longleftrightarrow>
     (\<forall>s n t. eo_format_timestamp eo s n = Some t \<longrightarrow> 0x0a \<notin> set t) \<and>
     (\<forall>i. 0x0a \<notin> set (eo_itoa eo i)) \<and>
     (\<forall>b c r t. eo_cell eo b c r = Some (FloatValue (Some t)) \<longrightarrow> 0x0a \<notin> set t) \<and>
     (\<forall>v t. eo_reprint_json eo v = Some t \<longrightarrow> 0x0a \<notin> set t)"

definition names_ok :: "'b es_ops \<Rightarrow> 'b \<Rightarrow> bool" where
  "names_ok eo b \<longleftrightarrow> (\<forall>(name, _) \<in> set (eo_fields eo b). 0x0a \<notin> set name)"

lemma escape_byte_printable: "x \<in> set (escape_byte b) \<Longrightarrow> 0x20 \<le> x"
proof -
  assume x: "x \<in> set (escape_byte b)"
  have hex: "k < 16 \<Longrightarrow> 0x20 \<le> HEX_CHARS ! k" for k
    by (simp add: numeral_eq_Suc less_Suc_eq HEX_CHARS_def ascii_def) auto
  have lt: "unat b < 256" using unsigned_less [of b] by simp
  then have "0x20 \<le> HEX_CHARS ! (unat b div 16)" "0x20 \<le> HEX_CHARS ! (unat b mod 16)"
    by (simp_all add: hex less_mult_imp_div_less)
  then show ?thesis using x by (auto simp: escape_byte.simps nibbles split: if_splits)
qed

lemma write_escaped_no_newline: "0x0a \<notin> set (write_escaped_string s)"
  using escape_byte_printable [of "0x0a"] by (auto simp: write_escaped_string_def)

lemma write_value_no_newline:
  assumes "es_ops_ok eo" and "write_value eo b c r ty u = Inr v"
  shows "0x0a \<notin> set v"
proof -
  have lits: "0x0a \<notin> set null_text" "0x0a \<notin> set (ascii ''true'')" "0x0a \<notin> set (ascii ''false'')"
    by (simp_all add: null_text_def ascii_def)
  have ts: "0x0a \<notin> set (write_timestamp eo s n)" for s n
    using assms(1) lits by (auto simp: write_timestamp_def es_ops_ok_def split: option.splits)
  then have col: "0x0a \<notin> set (write_timestamp_col eo unit i)" for unit i
    by (cases unit) simp_all
  have str: "0x0a \<notin> set (write_string_col eo u s)" for s
    using assms(1) write_escaped_no_newline [of s]
    by (auto simp: write_string_col_def es_ops_ok_def split: option.splits)
  show ?thesis
    using assms ts col str lits write_escaped_no_newline
    by (auto simp: write_value_def write_numeric_col_def try_bind_Inr es_ops_ok_def downcast_def
        split: option.splits es_type.splits sum.splits if_splits es_value.splits)
qed

lemma write_fields_no_newline:
  assumes "es_ops_ok eo"
  shows "write_fields eo b u r c f fs = Inr doc \<Longrightarrow> \<forall>(name, _) \<in> set fs. 0x0a \<notin> set name \<Longrightarrow> 0x0a \<notin> set doc"
proof (induction fs arbitrary: c f doc)
  case (Cons nt fs)
  obtain name ty where nt: "nt = (name, ty)" by (cases nt)
  have name: "0x0a \<notin> set (output_name name)" using Cons.prems(2) by (simp add: nt output_name_def ascii_def)
  show ?case
  proof (cases "eo_cell eo b c r = None")
    case True
    then show ?thesis using Cons by (simp add: nt)
  next
    case False
    then obtain v rest where v: "write_value eo b c r ty (u \<and> is_attr_field name) = Inr v"
      and rest: "write_fields eo b u r (Suc c) False fs = Inr rest"
      and doc: "doc = (if f then [] else [0x2c]) @ [0x22] @ output_name name @ [0x22, 0x3a] @ v @ rest"
      using Cons.prems(1) by (auto simp: nt try_bind_Inr)
    have "0x0a \<notin> set rest" using Cons.IH [OF rest] Cons.prems(2) by simp
    then show ?thesis using write_value_no_newline [OF assms v] name by (auto simp: doc)
  qed
qed simp

lemma bulk_record_ok:
  assumes "es_ops_ok eo" and "names_ok eo b" and "bulk_record eo b u i = Inr r"
  shows "record_ok r"
proof -
  obtain doc where doc: "write_fields eo b u i 0 True (eo_fields eo b) = Inr doc"
    and r: "r = BULK_ACTION @ [0x7b] @ doc @ [0x7d, 0x0a]"
    using assms(3) by (auto simp: bulk_record_def try_bind_Inr)
  have "0x0a \<notin> set doc" using write_fields_no_newline [OF assms(1) doc] assms(2) by (simp add: names_ok_def)
  then have "line_ok ([0x7b] @ doc @ [0x7d])" by (simp add: line_ok_def is_blank_def)
  moreover have "line_ok (ascii ''{\"create\":{}}'')"
    by (simp add: line_ok_def ascii_def is_blank_def)
  ultimately show ?thesis unfolding record_ok_def r BULK_ACTION_def
    by (intro exI [of _ "ascii ''{\"create\":{}}''"] exI [of _ "[0x7b] @ doc @ [0x7d]"]) simp
qed

section \<open>Extraction\<close>

lemma scan_line:
  assumes "0x0a \<notin> set l"
  shows "payload = pre @ l0 @ l @ [0x0a] @ post \<Longrightarrow> \<not> is_blank (l0 @ l) \<Longrightarrow>
    scan_lines payload (length (pre @ l0)) (length pre) (l @ [0x0a] @ post) =
      apfst (Cons (length pre, length (pre @ l0 @ l @ [0x0a])))
        (scan_lines payload (length (pre @ l0 @ l @ [0x0a])) (length (pre @ l0 @ l @ [0x0a])) post)"
  using assms
proof (induction l arbitrary: l0)
  case Nil
  have "byte_slice payload (length pre) (Suc (length (pre @ l0))) = l0 @ [0x0a]"
    by (simp add: byte_slice_def Nil.prems(1))
  then show ?case using Nil.prems(2) by (simp add: is_blank_def split: prod.splits)
next
  case (Cons x l)
  have ne: "x \<noteq> 0x0a" using Cons.prems(3) by auto
  show ?case using Cons.IH [of "l0 @ [x]"] Cons.prems ne by simp
qed

lemma scan_record:
  assumes "payload = pre @ r @ post" and "record_ok r"
  shows "\<exists>x. scan_lines payload (length pre) (length pre) (r @ post) =
    apfst (\<lambda>rs. (length pre, x) # (x, length (pre @ r)) # rs) (scan_lines payload (length (pre @ r)) (length (pre @ r)) post)"
proof -
  obtain a d where r: "r = a @ [0x0a] @ d @ [0x0a]" and a: "line_ok a" and d: "line_ok d"
    using assms(2) by (auto simp: record_ok_def)
  have "scan_lines payload (length (pre @ [])) (length pre) (a @ [0x0a] @ d @ [0x0a] @ post) =
      apfst (Cons (length pre, length (pre @ [] @ a @ [0x0a])))
        (scan_lines payload (length (pre @ [] @ a @ [0x0a])) (length (pre @ [] @ a @ [0x0a])) (d @ [0x0a] @ post))"
    by (rule scan_line) (use a assms(1) in \<open>simp_all add: line_ok_def r\<close>)
  moreover have "scan_lines payload (length ((pre @ a @ [0x0a]) @ [])) (length (pre @ a @ [0x0a])) (d @ [0x0a] @ post) =
      apfst (Cons (length (pre @ a @ [0x0a]), length ((pre @ a @ [0x0a]) @ [] @ d @ [0x0a])))
        (scan_lines payload (length ((pre @ a @ [0x0a]) @ [] @ d @ [0x0a])) (length ((pre @ a @ [0x0a]) @ [] @ d @ [0x0a])) post)"
    by (rule scan_line) (use d assms(1) in \<open>simp_all add: line_ok_def r\<close>)
  ultimately show ?thesis
    by (intro exI [of _ "length (pre @ a @ [0x0a])"])
      (simp add: r apfst_def map_prod.compositionality o_def id_def del: scan_lines.simps)
qed

text \<open>The ranges of a payload made of records: those of record \<open>i\<close> are at \<open>2 * i\<close> and \<open>2 * i + 1\<close>.\<close>

lemma scan_records:
  assumes "\<forall>r \<in> set rs. record_ok r"
  shows "\<exists>ranges. scan_lines (pre @ concat rs) (length pre) (length pre) (concat rs) = (ranges, length (pre @ concat rs)) \<and>
    length ranges = 2 * length rs \<and>
    (\<forall>i < length rs. fst (ranges ! (2 * i)) = length (pre @ concat (take i rs)) \<and>
       snd (ranges ! (2 * i + 1)) = length (pre @ concat (take (Suc i) rs)))"
  using assms
proof (induction rs arbitrary: pre)
  case (Cons r rs)
  obtain ranges where rg: "scan_lines ((pre @ r) @ concat rs) (length (pre @ r)) (length (pre @ r)) (concat rs) =
      (ranges, length ((pre @ r) @ concat rs))" "length ranges = 2 * length rs"
    "\<forall>i < length rs. fst (ranges ! (2 * i)) = length ((pre @ r) @ concat (take i rs)) \<and>
       snd (ranges ! (2 * i + 1)) = length ((pre @ r) @ concat (take (Suc i) rs))"
    using Cons.IH [of "pre @ r"] Cons.prems by auto
  obtain x where x: "scan_lines (pre @ r @ concat rs) (length pre) (length pre) (r @ concat rs) =
      ((length pre, x) # (x, length (pre @ r)) # ranges, length (pre @ r @ concat rs))"
    using scan_record [of "pre @ r @ concat rs" pre r "concat rs"] Cons.prems rg(1) by auto
  show ?case
  proof (intro exI conjI allI impI)
    show "scan_lines (pre @ concat (r # rs)) (length pre) (length pre) (concat (r # rs)) =
      ((length pre, x) # (x, length (pre @ r)) # ranges, length (pre @ concat (r # rs)))" using x by simp
    show "length ((length pre, x) # (x, length (pre @ r)) # ranges) = 2 * length (r # rs)" using rg(2) by simp
    fix i assume "i < length (r # rs)"
    then show "fst (((length pre, x) # (x, length (pre @ r)) # ranges) ! (2 * i)) = length (pre @ concat (take i (r # rs)))"
      "snd (((length pre, x) # (x, length (pre @ r)) # ranges) ! (2 * i + 1)) = length (pre @ concat (take (Suc i) (r # rs)))"
      using rg(3) by (cases i; simp)+
  qed
qed simp

lemma byte_slice_concat:
  assumes "i < length rs"
  shows "byte_slice (concat rs) (length (concat (take i rs))) (length (concat (take (Suc i) rs))) = rs ! i"
proof -
  have "concat rs = concat (take i rs) @ rs ! i @ concat (drop (Suc i) rs)"
    using id_take_nth_drop [OF assms] by (metis concat.simps(2) concat_append)
  then show ?thesis using assms by (simp add: byte_slice_def take_Suc_conv_app_nth)
qed

lemma select_ranges_records:
  assumes "length ranges = 2 * length rs"
    and "\<forall>i < length rs. fst (ranges ! (2 * i)) = length (concat (take i rs)) \<and>
       snd (ranges ! (2 * i + 1)) = length (concat (take (Suc i) rs))"
    and ok: "\<forall>r \<in> set rs. record_ok r"
  shows "\<forall>i \<in> set idxs. i < length rs \<Longrightarrow> select_ranges (concat rs) ranges idxs =
    Inr (map (\<lambda>i. (length (concat (take i rs)), length (concat (take (Suc i) rs)), False)) idxs)"
proof (induction idxs)
  case (Cons i idxs)
  then have i: "i < length rs" by simp
  then have "record_ok (rs ! i)" using ok by simp
  then have "rs ! i \<noteq> [] \<and> last (rs ! i) = 0x0a" by (auto simp: record_ok_def)
  then show ?case using Cons assms(1,2) i byte_slice_concat [OF i] by (simp add: Let_def)
qed simp

lemma extract_records:
  assumes ok: "\<forall>r \<in> set rs. record_ok r" and "\<forall>i \<in> set idxs. i < length rs"
  shows "extract_sub_payload (concat rs) idxs = Inr (concat (map ((!) rs) idxs))"
proof -
  obtain ranges where rg: "line_ranges (concat rs) = ranges" "length ranges = 2 * length rs"
    "\<forall>i < length rs. fst (ranges ! (2 * i)) = length (concat (take i rs)) \<and>
       snd (ranges ! (2 * i + 1)) = length (concat (take (Suc i) rs))"
    using scan_records [OF ok, of "[]"] by (auto simp: line_ranges_def)
  have "map (\<lambda>i. byte_slice (concat rs) (length (concat (take i rs))) (length (concat (take (Suc i) rs)))) idxs = map ((!) rs) idxs"
    using assms(2) by (simp add: byte_slice_concat)
  then show ?thesis
    using select_ranges_records [OF rg(2,3) ok assms(2)] rg(1,2)
    by (simp add: extract_sub_payload_def o_def cong: map_cong)
qed

section \<open>Properties\<close>

lemma concat_escape_printable: "list_all (\<lambda>b. 0x20 \<le> b) (concat (map escape_byte s))"
  using escape_byte_printable by (auto simp: list_all_iff)

lemma read_escaped: "read_string (concat (map escape_byte s) @ [0x22] @ rest) = Some (s, rest)"
  by (induction s) (simp_all add: read_string.simps read_escape_byte)

text \<open>
  C39. A string in a document reads back: after the opening quote a JSON reader returns exactly the
  original bytes and stops at the closing quote, whatever follows. No control character is left in
  the text, so a string never breaks the line structure of a bulk payload.
\<close>

theorem escape_roundtrip:
  "\<exists>body. write_escaped_string s = 0x22 # body \<and> read_string (body @ rest) = Some (s, rest) \<and>
     list_all (\<lambda>b. 0x20 \<le> b) body"
proof (intro exI conjI)
  show "write_escaped_string s = 0x22 # concat (map escape_byte s) @ [0x22]" by (simp add: write_escaped_string_def)
  show "read_string ((concat (map escape_byte s) @ [0x22]) @ rest) = Some (s, rest)" using read_escaped by simp
  show "list_all (\<lambda>b. 0x20 \<le> b) (concat (map escape_byte s) @ [0x22])" using concat_escape_printable by simp
qed

text \<open>The record of every row, and what the finished loop leaves.\<close>

definition the_record :: "'b es_ops \<Rightarrow> 'b \<Rightarrow> bool \<Rightarrow> nat \<Rightarrow> byte list" where
  "the_record eo b u i = (case bulk_record eo b u i of Inr r \<Rightarrow> r | Inl _ \<Rightarrow> [])"

lemma the_chunks:
  assumes run: "serialize_batch_chunks_internal eo b u m = Inr (chunks, oversized)"
    and "eo_num_rows eo b \<le> u64_max" and "m < u64_max"
  defines "rcd \<equiv> the_record eo b u" and "n \<equiv> eo_num_rows eo b"
  shows "(\<forall>i < n. bulk_record eo b u i = Inr (rcd i)) \<and>
    (\<forall>c \<in> set chunks. bc_row_count c > 0 \<and> bc_payload c = concat (map rcd (chunk_range c)) \<and> length (bc_payload c) \<le> m) \<and>
    concat (map chunk_range chunks) = filter (\<lambda>i. length (rcd i) \<le> m) [0..<n] \<and>
    oversized = map (\<lambda>i. (i, length (rcd i))) (filter (\<lambda>i. length (rcd i) > m) [0..<n])"
proof (cases "n = 0")
  case True
  then show ?thesis using run by (simp add: serialize_batch_chunks_internal_def n_def)
next
  case False
  let ?cs0 = "\<lparr>cs_current_chunk = [], cs_chunk_start_row = 0, cs_chunk_row_count = 0, cs_chunks = [], cs_oversized_rows = []\<rparr>"
  obtain cs where cs: "chunk_rows eo b u m [0..<n] ?cs0 = Inr cs"
    and out: "chunks = cs_chunks (seal_chunk cs)" "oversized = cs_oversized_rows (seal_chunk cs)"
    using run False by (auto simp: serialize_batch_chunks_internal_def n_def try_bind_Inr Let_def)
  have r: "bulk_record eo b u i = Inr r \<Longrightarrow> rcd i = r" for i r by (simp add: rcd_def the_record_def)
  have "chunk_inv rcd m 0 ?cs0" by (simp add: chunk_inv_def)
  then have inv: "chunk_inv rcd m n cs" and recs: "\<forall>i \<in> {0..<n}. bulk_record eo b u i = Inr (rcd i)"
    using chunk_rows_inv [OF _ _ assms(3) _ cs r] assms(2) unfolding n_def by auto
  have "i < n \<Longrightarrow> rcd i \<noteq> []" for i using recs bulk_record_nonempty by (metis atLeastLessThan_iff le0)
  then have "chunk_inv rcd m n (seal_chunk cs)" "cs_chunk_row_count (seal_chunk cs) = 0"
    using chunk_inv_seal [OF inv] by auto
  then show ?thesis using recs by (auto simp: chunk_inv_def out chunk_ok_def)
qed

lemma chunk_payload_nonempty:
  assumes "serialize_batch_chunks_internal eo b u m = Inr (chunks, oversized)"
    and "eo_num_rows eo b \<le> u64_max" and "m < u64_max" and c: "c \<in> set chunks"
  shows "bc_payload c \<noteq> [] \<and> bc_row_count c \<noteq> 0"
proof -
  note parts = the_chunks [OF assms(1-3)]
  have count: "bc_row_count c > 0" "bc_payload c = concat (map (the_record eo b u) (chunk_range c))" using parts c by auto
  then have first: "bc_start_row c \<in> set (chunk_range c)" by (simp add: chunk_range_def)
  then have "bc_start_row c \<in> set (concat (map chunk_range chunks))" using c by auto
  then have "bulk_record eo b u (bc_start_row c) = Inr (the_record eo b u (bc_start_row c))" using parts by auto
  then have "the_record eo b u (bc_start_row c) \<noteq> []" by (rule bulk_record_nonempty)
  then show ?thesis using count first by auto
qed

text \<open>An instance for the witnesses: every row is a text, in one column.\<close>

definition text_rows :: "byte list \<Rightarrow> byte list list es_ops" where
  "text_rows name = \<lparr>eo_num_rows = length, eo_fields = (\<lambda>_. [(name, Utf8Type)]), eo_array_type = (\<lambda>_ _. Utf8Type),
     eo_cell = (\<lambda>b _ r. if r < length b then Some (TextValue (b ! r)) else None), eo_display = (\<lambda>_ _ _. Inl []),
     eo_format_timestamp = (\<lambda>_ _. None), eo_itoa = (\<lambda>_. []), eo_reprint_json = (\<lambda>_. None)\<rparr>"

lemma text_rows_ok: "es_ops_ok (text_rows name)"
  by (simp add: es_ops_ok_def text_rows_def)

lemma text_rows_record:
  "i < length b \<Longrightarrow> bulk_record (text_rows name) b False i =
     Inr (BULK_ACTION @ [0x7b, 0x22] @ output_name name @ [0x22, 0x3a] @ write_escaped_string (b ! i) @ [0x7d, 0x0a])"
  by (simp add: bulk_record_def text_rows_def write_value_def downcast_def write_string_col_def)

text \<open>
  C13. The chunks of a batch hold every row exactly once and in order, each as its own record, except for
  the rows whose record alone exceeds the limit; exactly these are reported, with their sizes. Every
  chunk is a contiguous range of rows, is not empty and respects the limit.
\<close>

theorem chunks_partition_rows:
  assumes run: "serialize_batch_chunks_internal eo b u m = Inr (chunks, oversized)"
    and "eo_num_rows eo b \<le> u64_max" and "m < u64_max"
  shows "\<exists>rcd. (\<forall>i < eo_num_rows eo b. bulk_record eo b u i = Inr (rcd i)) \<and>
    (\<forall>c \<in> set chunks. bc_row_count c > 0 \<and> bc_payload c = concat (map rcd (chunk_range c)) \<and> length (bc_payload c) \<le> m) \<and>
    concat (map chunk_range chunks) = filter (\<lambda>i. length (rcd i) \<le> m) [0..<eo_num_rows eo b] \<and>
    oversized = map (\<lambda>i. (i, length (rcd i))) (filter (\<lambda>i. length (rcd i) > m) [0..<eo_num_rows eo b])"
  by (rule exI [of _ "the_record eo b u"], rule the_chunks [OF assms])

theorem chunks_partition_rows_witness:
  "\<exists>chunks. serialize_batch_chunks_internal (text_rows [109]) [[97], [98], [120, 120, 120, 120, 120, 120, 120, 120, 120, 120]] False 30 = Inr (chunks, [(2, 33)]) \<and>
     concat (map chunk_range chunks) = [0, 1]"
proof -
  let ?b = "[[97], [98], [120, 120, 120, 120, 120, 120, 120, 120, 120, 120]] :: byte list list"
  let ?r = "the_record (text_rows [109]) ?b False"
  have n: "eo_num_rows (text_rows [109]) ?b = 3" by (simp add: text_rows_def)
  have r: "i < 3 \<Longrightarrow> bulk_record (text_rows [109]) ?b False i = Inr (?r i)" for i
    by (simp add: the_record_def text_rows_record)
  have len: "length (?r 0) = 24" "length (?r 1) = 24" "length (?r 2) = 33"
    by (simp_all add: the_record_def text_rows_record BULK_ACTION_def ascii_def output_name_def write_escaped_string_def
        escape_byte.simps)
  have upt: "[0..<3] = [0, 1, 2]" by code_simp
  have ne: "?r 0 \<noteq> []" "?r 1 \<noteq> []" using len by auto
  have run: "serialize_batch_chunks_internal (text_rows [109]) ?b False 30 =
    Inr ([\<lparr>bc_start_row = 0, bc_row_count = 1, bc_payload = ?r 0\<rparr>, \<lparr>bc_start_row = 1, bc_row_count = 1, bc_payload = ?r 1\<rparr>], [(2, 33)])"
    using len ne
    by (simp add: serialize_batch_chunks_internal_def n upt r add_record_def seal_chunk_def Let_def
        sat_add_def u64_max_def)
  obtain rcd where rcd: "\<forall>i < 3. bulk_record (text_rows [109]) ?b False i = Inr (rcd i)"
    and ranges: "concat (map chunk_range [\<lparr>bc_start_row = 0, bc_row_count = 1, bc_payload = ?r 0\<rparr>,
        \<lparr>bc_start_row = 1, bc_row_count = 1, bc_payload = ?r 1\<rparr>]) = filter (\<lambda>i. length (rcd i) \<le> 30) [0..<3]"
    using chunks_partition_rows [OF run] unfolding n by (auto simp: u64_max_def)
  have "rcd i = ?r i" if "i < 3" for i using rcd r [OF that] that by simp
  then have "filter (\<lambda>i. length (rcd i) \<le> 30) [0..<3] = [0, 1]" using len by (simp add: upt)
  then show ?thesis using run ranges by metis
qed

text \<open>
  Column names are not escaped. A name with a line break splits every document of the batch, and the
  retry of one document takes lines of another.
\<close>

lemma column_name_splits_documents:
  "let r = the_record (text_rows [97, 10, 98]) [[99], [100]] False
   in extract_sub_payload (r 0 @ r 1) [1] \<noteq> Inr (r 1)"
  by code_simp

end
