(* ===== verification/EsClient.thy ===== *)
theory EsClient
  imports EsSerializer Quantities
begin

text \<open>
  The HTTP client of the Elasticsearch sink (\<open>crates/elasticsearch-sink/src/client.rs\<close>): the items of a
  bulk response, the choice of an endpoint with cooldowns, and \<open>send_bulk\<close>, which sends a payload and
  sends again the documents that failed with a status worth a retry.

  The network and the libraries are the record \<open>es_net\<close>; the replies are indexed by the number of the
  attempt. Other tasks share the client: \<open>en_shared\<close> is what they leave in the endpoint cursor and the
  cooldowns before an attempt. A call returns, beside its result, the requests it sent and the pauses
  it made, in order. Pauses are in nanoseconds, cooldowns in seconds.
\<close>

section \<open>Bulk responses\<close>

record BulkItemError =
  bie_error_type :: string
  bie_reason :: string
  bie_caused_by :: "string option"

record BulkItem =
  bi_index :: "string option"
  bi_id :: "string option"
  bi_status :: nat
  bi_error :: "BulkItemError option"

record BulkItemWrapper =
  bw_create :: "BulkItem option"
  bw_index :: "BulkItem option"
  bw_update :: "BulkItem option"
  bw_delete :: "BulkItem option"

definition option_or :: "'a option \<Rightarrow> 'a option \<Rightarrow> 'a option" where
  "option_or x y = (case x of Some _ \<Rightarrow> x | None \<Rightarrow> y)"

definition bulk_item :: "BulkItemWrapper \<Rightarrow> BulkItem option" where
  "bulk_item w = option_or (option_or (option_or (bw_create w) (bw_index w)) (bw_update w)) (bw_delete w)"

definition item_status :: "BulkItemWrapper \<Rightarrow> nat option" where
  "item_status w = map_option bi_status (bulk_item w)"

definition item_error :: "BulkItemWrapper \<Rightarrow> BulkItemError option" where
  "item_error w = Option.bind (bulk_item w) bi_error"

definition is_recoverable :: "BulkItemWrapper \<Rightarrow> bool" where
  "is_recoverable w = (case item_status w of Some s \<Rightarrow> s = 429 \<or> s = 500 \<or> s = 503 | None \<Rightarrow> False)"

definition is_unrecoverable :: "BulkItemWrapper \<Rightarrow> bool" where
  "is_unrecoverable w =
     (case item_status w of Some s \<Rightarrow> s \<ge> 400 \<and> s \<noteq> 429 \<and> s \<noteq> 500 \<and> s \<noteq> 503 | None \<Rightarrow> False)"

record BulkResponse =
  br_took :: nat
  br_errors :: bool
  br_items :: "BulkItemWrapper list"

definition recoverable_count :: "BulkResponse \<Rightarrow> nat" where
  "recoverable_count r = length (filter is_recoverable (br_items r))"

definition unrecoverable_count :: "BulkResponse \<Rightarrow> nat" where
  "unrecoverable_count r = length (filter is_unrecoverable (br_items r))"

section \<open>The client\<close>

datatype ElasticsearchAuthConfig =
    AuthNone | Basic string "string option" | ApiKey string | Bearer string | AwsSigv4 string string

record HttpClient =
  hc_endpoints :: "string list"
  hc_endpoint_cooldowns :: "nat list"
  hc_current_endpoint :: nat
  hc_auth :: ElasticsearchAuthConfig
  hc_gzip_compression :: bool
  hc_max_retries :: nat
  hc_retry_interval_secs :: nat

definition strip_end_slashes :: "string \<Rightarrow> string" where
  "strip_end_slashes s = rev (dropWhile (\<lambda>c. c = CHR ''/'') (rev s))"

definition trim_slashes :: "string \<Rightarrow> string" where
  "trim_slashes s = strip_end_slashes (dropWhile (\<lambda>c. c = CHR ''/'') s)"

definition cooldown_of :: "HttpClient \<Rightarrow> nat \<Rightarrow> nat" where
  "cooldown_of c i = (if i < length (hc_endpoint_cooldowns c) then hc_endpoint_cooldowns c ! i else 0)"

text \<open>\<open>endpoints.get(i).map_or("", ..)\<close>\<close>

definition endpoint_at :: "HttpClient \<Rightarrow> nat \<Rightarrow> string" where
  "endpoint_at c i = (if i < length (hc_endpoints c) then hc_endpoints c ! i else [])"

definition next_endpoint :: "nat \<Rightarrow> HttpClient \<Rightarrow> string \<times> HttpClient" where
  "next_endpoint now c =
     (let count = length (hc_endpoints c)
      in if count = 0 then ([], c)
         else if count = 1 then (endpoint_at c 0, c)
         else
           let start_idx = hc_current_endpoint c mod count;
               c1 = c\<lparr>hc_current_endpoint := atomic_add (hc_current_endpoint c) 1\<rparr>;
               candidate = (\<lambda>offset. sat_add start_idx offset mod count)
           in case find (\<lambda>offset. cooldown_of c (candidate offset) \<le> now) [0..<count] of
                Some offset \<Rightarrow> (endpoint_at c (candidate offset), c1)
              | None \<Rightarrow> (endpoint_at c start_idx, c1))"

fun position :: "string \<Rightarrow> string list \<Rightarrow> nat option" where
  "position x [] = None"
| "position x (y # ys) = (if y = x then Some 0 else map_option Suc (position x ys))"

definition mark_endpoint_failed :: "nat \<Rightarrow> string \<Rightarrow> HttpClient \<Rightarrow> HttpClient" where
  "mark_endpoint_failed now endpoint c =
     (case position (strip_end_slashes (trim endpoint)) (hc_endpoints c) of
        None \<Rightarrow> c
      | Some pos \<Rightarrow> c\<lparr>hc_endpoint_cooldowns := (hc_endpoint_cooldowns c)[pos := sat_add now 10]\<rparr>)"

definition is_endpoint_in_cooldown :: "nat \<Rightarrow> string \<Rightarrow> HttpClient \<Rightarrow> bool" where
  "is_endpoint_in_cooldown now endpoint c =
     (case position (strip_end_slashes (trim endpoint)) (hc_endpoints c) of
        None \<Rightarrow> False
      | Some pos \<Rightarrow> pos < length (hc_endpoint_cooldowns c) \<and> hc_endpoint_cooldowns c ! pos > now)"

section \<open>Requests\<close>

datatype auth_header =
    NoAuth | BasicAuth string "string option" | AuthorizationHeader string | SignatureHeaders "(string \<times> string) list"

record es_request =
  rq_url :: string
  rq_body :: "byte list"
  rq_gzipped :: bool
  rq_auth :: auth_header

record http_response =
  hr_status :: nat
  hr_reason :: string
  hr_text :: string
  hr_retry_after :: "string option"
  hr_bulk :: "string + BulkResponse"

record es_net =
  en_gzip :: "byte list \<Rightarrow> string + byte list"
  en_sign :: "string \<Rightarrow> string \<Rightarrow> byte list \<Rightarrow> string \<Rightarrow> string \<Rightarrow> string + (string \<times> string) list"
  en_send :: "nat \<Rightarrow> es_request \<Rightarrow> string + http_response"
  en_unix_secs :: "nat \<Rightarrow> nat"
  en_subsec_nanos :: "nat \<Rightarrow> nat"
  en_http_date :: "nat \<Rightarrow> string \<Rightarrow> nat option"
  en_shared :: "nat \<Rightarrow> (nat \<times> nat list) option"

definition apply_auth_request ::
  "es_net \<Rightarrow> HttpClient \<Rightarrow> string \<Rightarrow> string \<Rightarrow> byte list \<Rightarrow> ElasticsearchError + auth_header" where
  "apply_auth_request net c http_method url body =
     (case hc_auth c of
        AuthNone \<Rightarrow> Inr NoAuth
      | Basic username password \<Rightarrow> Inr (BasicAuth username password)
      | ApiKey api_key \<Rightarrow> Inr (AuthorizationHeader (''ApiKey '' @ api_key))
      | Bearer token \<Rightarrow> Inr (AuthorizationHeader (''Bearer '' @ token))
      | AwsSigv4 region service \<Rightarrow>
          (case en_sign net http_method url body region service of
             Inl e \<Rightarrow> Inl (AuthenticationFailed e)
           | Inr headers \<Rightarrow> Inr (SignatureHeaders headers)))"

definition post_bulk_request ::
  "es_net \<Rightarrow> nat \<Rightarrow> HttpClient \<Rightarrow> string \<Rightarrow> string \<Rightarrow> byte list \<Rightarrow> ElasticsearchError + http_response" where
  "post_bulk_request net attempt c endpoint data_stream payload =
     (let url = endpoint @ ''/'' @ data_stream @ ''/_bulk''
      in try_bind (if hc_gzip_compression c \<and> payload \<noteq> []
                   then (case en_gzip net payload of
                           Inl e \<Rightarrow> Inl (Serialization e)
                         | Inr compressed \<Rightarrow> Inr (compressed, True))
                   else Inr (payload, False)) (\<lambda>(body, is_gzipped).
         try_bind (apply_auth_request net c ''POST'' url body) (\<lambda>auth.
           case en_send net attempt \<lparr>rq_url = url, rq_body = body, rq_gzipped = is_gzipped, rq_auth = auth\<rparr> of
             Inl e \<Rightarrow> Inl (Http e)
           | Inr response \<Rightarrow> Inr response)))"

definition is_transient_http_status :: "nat \<Rightarrow> bool" where
  "is_transient_http_status status \<longleftrightarrow> status = 500 \<or> status = 429 \<or> status = 503 \<or> status = 502 \<or> status = 504"

definition is_success :: "nat \<Rightarrow> bool" where
  "is_success status \<longleftrightarrow> 200 \<le> status \<and> status < 300"

definition status_text :: "http_response \<Rightarrow> string" where
  "status_text r = ''HTTP '' @ show_nat (hr_status r) @ '' '' @ hr_reason r"

definition check_bulk_status :: "http_response \<Rightarrow> nat \<Rightarrow> ElasticsearchError + http_response" where
  "check_bulk_status r attempt =
     (if hr_status r = 401 \<or> hr_status r = 403 then Inl (AuthenticationFailed (status_text r @ '': '' @ hr_text r))
      else if \<not> is_success (hr_status r) then Inl (BulkFailed attempt (status_text r @ '': '' @ hr_text r))
      else Inr r)"

section \<open>Pauses\<close>

definition parse_retry_after :: "es_net \<Rightarrow> nat \<Rightarrow> http_response \<Rightarrow> nat option" where
  "parse_retry_after net attempt r =
     (case hr_retry_after r of
        None \<Rightarrow> None
      | Some v \<Rightarrow>
          let s = trim v
          in case parse_uint s of
               Some seconds \<Rightarrow> Some (seconds * 1000000000)
             | None \<Rightarrow> en_http_date net attempt s)"

text \<open>\<open>sleep_backoff\<close>: no pause is a yield.\<close>

definition sleep_backoff :: "es_net \<Rightarrow> HttpClient \<Rightarrow> nat \<Rightarrow> nat" where
  "sleep_backoff net c attempt =
     (if hc_retry_interval_secs c = 0 then 0
      else
        let base_ms = max (sat_mul (hc_retry_interval_secs c) 1000) 100;
            multiplier = 2 ^ min (attempt - 1) 6;
            jitter_ms = en_subsec_nanos net attempt mod 500
        in sat_add (sat_mul base_ms multiplier) jitter_ms * 1000000)"

definition handle_bulk_transient_delay :: "es_net \<Rightarrow> HttpClient \<Rightarrow> http_response \<Rightarrow> nat \<Rightarrow> nat" where
  "handle_bulk_transient_delay net c r attempt =
     (case parse_retry_after net attempt r of
        Some delay \<Rightarrow> min delay 60000000000
      | None \<Rightarrow> sleep_backoff net c attempt)"

section \<open>Sending\<close>

definition merge_retry_items :: "BulkItemWrapper list \<Rightarrow> nat list \<Rightarrow> BulkItemWrapper list \<Rightarrow> BulkItemWrapper list" where
  "merge_retry_items final_items active_indices retry_items =
     foldl (\<lambda>items (orig_idx, w). if orig_idx < length items then items[orig_idx := w] else items)
       final_items (zip active_indices retry_items)"

definition inspect_active_items :: "BulkItemWrapper list \<Rightarrow> nat list \<Rightarrow> nat list" where
  "inspect_active_items final_items active_indices =
     filter (\<lambda>sub_idx. active_indices ! sub_idx < length final_items \<and> is_recoverable (final_items ! (active_indices ! sub_idx)))
       [0..<length active_indices]"

definition prepare_sub_payload_retry ::
  "byte list \<Rightarrow> BulkItemWrapper list \<Rightarrow> nat list \<Rightarrow> ElasticsearchError + (byte list \<times> nat list) option" where
  "prepare_sub_payload_retry current_payload final_items active_indices =
     (let sub_indices = inspect_active_items final_items active_indices
      in if sub_indices = [] then Inr None
         else try_bind (extract_sub_payload current_payload sub_indices) (\<lambda>next_payload.
                Inr (Some (next_payload, map ((!) active_indices) sub_indices))))"

datatype es_event = Exchange string "byte list" "ElasticsearchError + http_response" | Sleep nat

text \<open>One turn of the loop ends the call, or leaves what the next one starts from.\<close>

datatype send_step =
    Done "ElasticsearchError + BulkResponse"
  | Again "byte list" "nat list" "BulkItemWrapper list" nat

definition retry_or_fail ::
  "nat \<Rightarrow> nat \<Rightarrow> string \<Rightarrow> send_step \<Rightarrow> nat \<Rightarrow> send_step \<times> es_event list" where
  "retry_or_fail max_retries attempt message again pause =
     (if attempt \<ge> sat_add max_retries 1 then (Done (Inl (BulkFailed max_retries message)), [])
      else (again, [Sleep pause]))"

definition bulk_answer ::
  "es_net \<Rightarrow> nat \<Rightarrow> HttpClient \<Rightarrow> byte list \<Rightarrow> nat list \<Rightarrow> BulkItemWrapper list \<Rightarrow> nat \<Rightarrow> BulkResponse \<Rightarrow> send_step \<times> es_event list" where
  "bulk_answer net attempt c payload active_indices final_items total_took resp =
     (let took = sat_add total_took (br_took resp)
      in if final_items = [] \<and> \<not> br_errors resp then (Done (Inr resp), [])
         else
           let (items, active) = (if final_items = [] then (br_items resp, [0..<length (br_items resp)])
                                  else (merge_retry_items final_items active_indices (br_items resp), active_indices))
           in case prepare_sub_payload_retry payload items active of
                Inl e \<Rightarrow> (Done (Inl e), [])
              | Inr None \<Rightarrow>
                  (Done (Inr \<lparr>br_took = took, br_errors = list_ex is_unrecoverable items, br_items = items\<rparr>), [])
              | Inr (Some (next_payload, next_indices)) \<Rightarrow>
                  retry_or_fail (hc_max_retries c) (sat_add attempt 1)
                    (show_nat (length next_indices) @ '' items failed with recoverable status (429/500/503) after '' @
                     show_nat (hc_max_retries c) @ '' retries'')
                    (Again next_payload next_indices items took) (sleep_backoff net c (sat_add attempt 1)))"

definition share :: "es_net \<Rightarrow> nat \<Rightarrow> HttpClient \<Rightarrow> HttpClient" where
  "share net attempt c =
     (case en_shared net attempt of
        None \<Rightarrow> c
      | Some (cursor, cooldowns) \<Rightarrow> c\<lparr>hc_current_endpoint := cursor, hc_endpoint_cooldowns := cooldowns\<rparr>)"

definition send_turn ::
  "es_net \<Rightarrow> string \<Rightarrow> nat \<Rightarrow> byte list \<Rightarrow> nat list \<Rightarrow> BulkItemWrapper list \<Rightarrow> nat \<Rightarrow> HttpClient \<Rightarrow>
   send_step \<times> HttpClient \<times> es_event list" where
  "send_turn net data_stream attempt payload active_indices final_items total_took c0 =
     (let now = en_unix_secs net attempt;
          (endpoint, c) = next_endpoint now (share net attempt c0);
          reply = post_bulk_request net attempt c endpoint data_stream payload;
          attempt1 = sat_add attempt 1;
          again = Again payload active_indices final_items total_took;
          (step, c1, pauses) =
            (case reply of
               Inl err \<Rightarrow>
                 let c1 = mark_endpoint_failed now endpoint c
                 in case retry_or_fail (hc_max_retries c) attempt1
                           (''network error after '' @ show_nat attempt1 @ '' attempts: '' @ es_error_text err)
                           again (sleep_backoff net c attempt1) of (step, pauses) \<Rightarrow> (step, c1, pauses)
             | Inr response \<Rightarrow>
                 if is_transient_http_status (hr_status response)
                 then
                   let c1 = mark_endpoint_failed now endpoint c
                   in case retry_or_fail (hc_max_retries c) attempt1
                             (status_text response @ '' after '' @ show_nat attempt1 @ '' attempts'')
                             again (handle_bulk_transient_delay net c response attempt1) of (step, pauses) \<Rightarrow> (step, c1, pauses)
                 else
                   (case try_bind (check_bulk_status response attempt) (\<lambda>r. case hr_bulk r of Inl e \<Rightarrow> Inl (Http e) | Inr b \<Rightarrow> Inr b) of
                      Inl e \<Rightarrow> (Done (Inl e), c, [])
                    | Inr bulk_resp \<Rightarrow>
                        (case bulk_answer net attempt c payload active_indices final_items total_took bulk_resp of
                           (step, pauses) \<Rightarrow> (step, c, pauses))))
      in (step, c1, Exchange endpoint payload reply # pauses))"

text \<open>Every turn that goes on has used up one of the attempts.\<close>

lemma retry_or_fail_cases:
  assumes "retry_or_fail mr attempt msg again pause = (step, ev)"
  obtains (fail) "step = Done (Inl (BulkFailed mr msg))" "ev = []" "sat_add mr 1 \<le> attempt"
    | (again) "step = again" "ev = [Sleep pause]" "attempt < sat_add mr 1"
  using assms by (auto simp: retry_or_fail_def split: if_splits)

lemma next_endpoint_config:
  assumes "next_endpoint now c = (e, c1)"
  shows "hc_max_retries c1 = hc_max_retries c \<and> hc_endpoints c1 = hc_endpoints c \<and> hc_endpoint_cooldowns c1 = hc_endpoint_cooldowns c"
  using assms by (auto simp: next_endpoint_def Let_def split: if_splits option.splits)

lemma share_config [simp]: "hc_max_retries (share net a c) = hc_max_retries c" "hc_endpoints (share net a c) = hc_endpoints c"
  by (auto simp: share_def split: option.splits)

lemma mark_failed_config [simp]:
  "hc_max_retries (mark_endpoint_failed now e c) = hc_max_retries c"
  "hc_endpoints (mark_endpoint_failed now e c) = hc_endpoints c"
  by (auto simp: mark_endpoint_failed_def split: option.splits)

definition answer_of :: "ElasticsearchError + http_response \<Rightarrow> BulkItemWrapper list option" where
  "answer_of reply =
     (case reply of
        Inr r \<Rightarrow> if is_success (hr_status r) then (case hr_bulk r of Inr b \<Rightarrow> Some (br_items b) | Inl _ \<Rightarrow> None) else None
      | Inl _ \<Rightarrow> None)"

fun exchanges :: "es_event list \<Rightarrow> (byte list \<times> (ElasticsearchError + http_response)) list" where
  "exchanges [] = []"
| "exchanges (Exchange e p r # log) = (p, r) # exchanges log"
| "exchanges (Sleep d # log) = exchanges log"

lemma exchanges_append [simp]: "exchanges (xs @ ys) = exchanges xs @ exchanges ys"
  by (induction xs rule: exchanges.induct) auto

definition answered ::
  "byte list \<Rightarrow> nat list \<Rightarrow> BulkItemWrapper list \<Rightarrow> BulkItemWrapper list \<Rightarrow>
   BulkItemWrapper list \<times> (ElasticsearchError + (byte list \<times> nat list) option)" where
  "answered payload active_indices final_items its =
     (let items = (if final_items = [] then its else merge_retry_items final_items active_indices its);
          active = (if final_items = [] then [0..<length its] else active_indices)
      in (items, prepare_sub_payload_retry payload items active))"

text \<open>What a turn can do, in terms of the one request it sends.\<close>

lemma bulk_answer_cases:
  assumes "bulk_answer net attempt c payload act fin took resp = (step, ev)"
  shows "exchanges ev = [] \<and>
    (case step of
       Again p a f t \<Rightarrow> sat_add attempt 1 < sat_add (hc_max_retries c) 1 \<and>
         answered payload act fin (br_items resp) = (f, Inr (Some (p, a)))
     | Done (Inr out) \<Rightarrow> (fin = [] \<and> out = resp \<and> \<not> br_errors resp) \<or>
         (answered payload act fin (br_items resp) = (br_items out, Inr None) \<and> br_errors out = list_ex is_unrecoverable (br_items out))
     | Done (Inl e) \<Rightarrow> True)"
  using assms
  by (auto simp: bulk_answer_def answered_def Let_def retry_or_fail_def
      split: if_splits sum.splits option.splits)

lemma send_turn_cases:
  assumes "send_turn net ds attempt payload act fin took c = (step, c1, ev)"
  shows "hc_max_retries c1 = hc_max_retries c \<and>
    (\<exists>reply. exchanges ev = [(payload, reply)] \<and>
      (case step of
         Again p a f t \<Rightarrow> sat_add attempt 1 < sat_add (hc_max_retries c) 1 \<and>
           (case answer_of reply of
              None \<Rightarrow> p = payload \<and> a = act \<and> f = fin
            | Some its \<Rightarrow> answered payload act fin its = (f, Inr (Some (p, a))))
       | Done (Inr out) \<Rightarrow>
           (\<exists>its. answer_of reply = Some its \<and>
              ((fin = [] \<and> br_items out = its \<and> \<not> br_errors out) \<or>
               (answered payload act fin its = (br_items out, Inr None) \<and> br_errors out = list_ex is_unrecoverable (br_items out))))
       | Done (Inl e) \<Rightarrow> True))"
proof -
  obtain e c' where ne: "next_endpoint (en_unix_secs net attempt) (share net attempt c) = (e, c')" by force
  have mr: "hc_max_retries c' = hc_max_retries c" using next_endpoint_config [OF ne] by simp
  define reply where "reply = post_bulk_request net attempt c' e ds payload"
  show ?thesis
  proof (cases reply)
    case (Inl err)
    then show ?thesis using assms mr
      by (auto simp: send_turn_def ne Let_def retry_or_fail_def answer_of_def simp flip: reply_def split: if_splits)
  next
    case (Inr r)
    show ?thesis
    proof (cases "is_transient_http_status (hr_status r)")
      case True
      then have "answer_of reply = None" by (auto simp: Inr answer_of_def is_transient_http_status_def is_success_def)
      then show ?thesis using assms mr True Inr
        by (auto simp: send_turn_def ne Let_def retry_or_fail_def simp flip: reply_def split: if_splits)
    next
      case False
      consider (err) x where "try_bind (check_bulk_status r attempt) (\<lambda>r. case hr_bulk r of Inl e \<Rightarrow> Inl (Http e) | Inr b \<Rightarrow> Inr b) = Inl x"
        | (ok) resp where "try_bind (check_bulk_status r attempt) (\<lambda>r. case hr_bulk r of Inl e \<Rightarrow> Inl (Http e) | Inr b \<Rightarrow> Inr b) = Inr resp"
        by (meson sum.exhaust_sel)
      then show ?thesis
      proof cases
        case err
        then show ?thesis using assms mr False Inr
          by (auto simp: send_turn_def ne Let_def simp flip: reply_def)
      next
        case ok
        then have ans: "answer_of reply = Some (br_items resp)"
          by (auto simp: Inr answer_of_def check_bulk_status_def split: if_splits sum.splits)
        obtain st ps where ba: "bulk_answer net attempt c' payload act fin took resp = (st, ps)" by force
        have "step = st" "c1 = c'" "exchanges ev = (payload, reply) # exchanges ps"
          using assms ok False Inr by (auto simp: send_turn_def ne Let_def ba simp flip: reply_def)
        then show ?thesis using bulk_answer_cases [OF ba] ans mr
          by (cases st) (auto split: sum.splits)
      qed
    qed
  qed
qed

lemma send_turn_progress:
  "send_turn net ds attempt payload act fin took c = (Again p a f t, c1, ev) \<Longrightarrow>
     attempt < u64_max \<and> sat_add attempt 1 = Suc attempt \<and> Suc attempt < sat_add (hc_max_retries c) 1"
  by (drule send_turn_cases) (auto simp: sat_add_def)

function send_loop ::
  "es_net \<Rightarrow> string \<Rightarrow> nat \<Rightarrow> byte list \<Rightarrow> nat list \<Rightarrow> BulkItemWrapper list \<Rightarrow> nat \<Rightarrow> HttpClient \<Rightarrow>
   (ElasticsearchError + BulkResponse) \<times> HttpClient \<times> es_event list" where
  "send_loop net data_stream attempt payload active_indices final_items total_took c =
     (case send_turn net data_stream attempt payload active_indices final_items total_took c of
        (Done r, c1, ev) \<Rightarrow> (r, c1, ev)
      | (Again next_payload next_indices items took, c1, ev) \<Rightarrow>
          (case send_loop net data_stream (sat_add attempt 1) next_payload next_indices items took c1 of
             (r, c2, log) \<Rightarrow> (r, c2, ev @ log)))"
  by pat_completeness auto
termination
  by (relation "measure (\<lambda>(_, _, attempt, _). u64_max - attempt)") (auto dest!: send_turn_progress [OF sym])

declare send_loop.simps [simp del]

definition send_bulk ::
  "es_net \<Rightarrow> string \<Rightarrow> byte list \<Rightarrow> HttpClient \<Rightarrow> (ElasticsearchError + BulkResponse) \<times> HttpClient \<times> es_event list" where
  "send_bulk net data_stream payload c = send_loop net (trim_slashes data_stream) 0 payload [] [] 0 c"

section \<open>Which documents are sent, and what is known of them\<close>

text \<open>
  The specification. Of the documents \<open>act\<close> of a request those stay whose item asks for a retry; a
  request without an answer changes nothing. \<open>retry_plan\<close> lists what each request should hold,
  \<open>verdicts\<close> the last answer for every document.
\<close>

definition still_failing :: "nat list \<Rightarrow> BulkItemWrapper list \<Rightarrow> nat list" where
  "still_failing act its = map fst (filter (\<lambda>(_, w). is_recoverable w) (zip act its))"

fun retry_plan :: "nat list \<Rightarrow> (byte list \<times> (ElasticsearchError + http_response)) list \<Rightarrow> nat list list" where
  "retry_plan act [] = []"
| "retry_plan act ((p, reply) # exs) =
     act # retry_plan (case answer_of reply of None \<Rightarrow> act | Some its \<Rightarrow> still_failing act its) exs"

fun verdicts ::
  "(nat \<rightharpoonup> BulkItemWrapper) \<Rightarrow> nat list \<Rightarrow> (byte list \<times> (ElasticsearchError + http_response)) list \<Rightarrow> nat \<rightharpoonup> BulkItemWrapper" where
  "verdicts v act [] = v"
| "verdicts v act ((p, reply) # exs) =
     (case answer_of reply of
        None \<Rightarrow> verdicts v act exs
      | Some its \<Rightarrow> verdicts (v ++ map_of (zip act its)) (still_failing act its) exs)"

text \<open>The documented form of an answer: one item for every document of the request.\<close>

definition doc_count :: "byte list \<Rightarrow> nat" where
  "doc_count payload = length (line_ranges payload) div 2"

definition one_item_per_document :: "(byte list \<times> (ElasticsearchError + http_response)) list \<Rightarrow> bool" where
  "one_item_per_document exs \<longleftrightarrow>
     (\<forall>(p, reply) \<in> set exs. \<forall>its. answer_of reply = Some its \<longrightarrow> length its = doc_count p)"

lemma doc_count_records: "\<forall>r \<in> set rs. record_ok r \<Longrightarrow> doc_count (concat rs) = length rs"
  using scan_records [of rs "[]"] by (auto simp: doc_count_def line_ranges_def)

lemma still_failing_nth:
  assumes "length its = length act"
  shows "still_failing act its = map ((!) act) (filter (\<lambda>k. is_recoverable (its ! k)) [0..<length act])"
proof -
  have "zip act its = map (\<lambda>k. (act ! k, its ! k)) [0..<length act]"
    using assms by (intro nth_equalityI) simp_all
  then show ?thesis by (simp add: still_failing_def filter_map o_def)
qed

lemma still_failing_set:
  "length its = length act \<Longrightarrow> set (still_failing act its) = {act ! k | k. k < length act \<and> is_recoverable (its ! k)}"
  by (auto simp: still_failing_nth)

lemma still_failing_distinct: "distinct act \<Longrightarrow> length its = length act \<Longrightarrow> distinct (still_failing act its)"
  by (auto simp: still_failing_nth distinct_map inj_on_def nth_eq_iff_index_eq)

lemma merge_retry_items_nth:
  assumes "distinct act" and "length its = length act"
  shows "length (merge_retry_items fin act its) = length fin \<and>
    (\<forall>i < length fin. merge_retry_items fin act its ! i = (case map_of (zip act its) i of Some w \<Rightarrow> w | None \<Rightarrow> fin ! i))"
  using assms
proof (induction act arbitrary: fin its)
  case (Cons a act)
  then obtain w ws where its: "its = w # ws" by (cases its) auto
  have none: "map_of (zip act ws) a = None" using Cons.prems its by (simp add: map_of_zip_is_None)
  define f where "f = (if a < length fin then fin[a := w] else fin)"
  have f: "length f = length fin" "\<And>i. i < length fin \<Longrightarrow> f ! i = (if i = a then w else fin ! i)"
    by (auto simp: f_def nth_list_update)
  have step: "merge_retry_items fin (a # act) its = merge_retry_items f act ws"
    by (simp add: merge_retry_items_def its f_def)
  have IH: "length (merge_retry_items f act ws) = length f"
    "\<And>i. i < length f \<Longrightarrow> merge_retry_items f act ws ! i = (case map_of (zip act ws) i of Some w \<Rightarrow> w | None \<Rightarrow> f ! i)"
    using Cons.IH [of ws f] Cons.prems its by auto
  have "merge_retry_items f act ws ! i = (case map_of (zip (a # act) its) i of Some w \<Rightarrow> w | None \<Rightarrow> fin ! i)"
    if "i < length fin" for i
    using IH(2) [of i] f(1) f(2) [OF that] that none by (cases "i = a") (simp_all add: its split: option.splits)
  then show ?case using IH(1) f(1) by (simp add: step)
qed (simp add: merge_retry_items_def)

definition loop_state ::
  "byte list list \<Rightarrow> (nat \<rightharpoonup> BulkItemWrapper) \<Rightarrow> nat list \<Rightarrow> byte list \<Rightarrow> nat list \<Rightarrow> BulkItemWrapper list \<Rightarrow> bool" where
  "loop_state rs v act payload active fin \<longleftrightarrow>
     payload = concat (map ((!) rs) act) \<and> act \<noteq> [] \<and> distinct act \<and> (\<forall>i \<in> set act. i < length rs) \<and>
     (if fin = [] then act = [0..<length rs]
      else active = act \<and> length fin = length rs \<and>
        (\<forall>i < length rs. v i = Some (fin ! i) \<and> (i \<notin> set act \<longrightarrow> \<not> is_recoverable (fin ! i))))"

text \<open>The items after an answer: new ones for the documents of the request, the old ones for the others.\<close>

lemma answered_items:
  assumes st: "loop_state rs v act payload active fin" and len: "length its = length act"
    and ans: "answered payload active fin its = (items, prep)"
  shows "length items = length rs"
    and "\<And>i. i < length rs \<Longrightarrow> (v ++ map_of (zip act its)) i = Some (items ! i)"
    and "\<And>i. i < length rs \<Longrightarrow> i \<notin> set act \<Longrightarrow> \<not> is_recoverable (items ! i)"
    and "prep = prepare_sub_payload_retry payload items act"
proof -
  have d: "distinct act" using st by (simp add: loop_state_def)
  have "length items = length rs \<and> (\<forall>i < length rs. (v ++ map_of (zip act its)) i = Some (items ! i) \<and>
      (i \<notin> set act \<longrightarrow> \<not> is_recoverable (items ! i))) \<and> prep = prepare_sub_payload_retry payload items act"
  proof (cases "fin = []")
    case True
    then have act: "act = [0..<length rs]" using st by (simp add: loop_state_def)
    have "map_of (zip act its) i = Some (its ! i)" if "i < length rs" for i
      using map_of_zip_nth [of act its i] len that by (simp add: act)
    then show ?thesis using ans True act len by (auto simp: answered_def)
  next
    case False
    then have f: "active = act" "length fin = length rs"
      "\<forall>i < length rs. v i = Some (fin ! i) \<and> (i \<notin> set act \<longrightarrow> \<not> is_recoverable (fin ! i))"
      using st by (simp_all add: loop_state_def)
    have items: "items = merge_retry_items fin act its" "prep = prepare_sub_payload_retry payload items act"
      using ans False f(1) by (auto simp: answered_def Let_def)
    have "i \<notin> set act \<Longrightarrow> map_of (zip act its) i = None" for i using len by (simp add: map_of_zip_is_None)
    then show ?thesis using merge_retry_items_nth [OF d len, of fin] f items
      by (auto simp: map_add_def split: option.splits)
  qed
  then show "length items = length rs"
    and "\<And>i. i < length rs \<Longrightarrow> (v ++ map_of (zip act its)) i = Some (items ! i)"
    and "\<And>i. i < length rs \<Longrightarrow> i \<notin> set act \<Longrightarrow> \<not> is_recoverable (items ! i)"
    and "prep = prepare_sub_payload_retry payload items act" by auto
qed

lemma answered_active_item:
  assumes "loop_state rs v act payload active fin" and "length its = length act"
    and "answered payload active fin its = (items, prep)" and "k < length act"
  shows "items ! (act ! k) = its ! k"
proof -
  have "distinct act" "act ! k < length rs" using assms(1,4) by (auto simp: loop_state_def)
  moreover have "map_of (zip act its) (act ! k) = Some (its ! k)"
    by (rule map_of_zip_nth) (use assms(2,4) \<open>distinct act\<close> in auto)
  ultimately show ?thesis using answered_items(2) [OF assms(1,2,3), of "act ! k"] by simp
qed

lemma answered_prep:
  assumes ok: "\<forall>r \<in> set rs. record_ok r" and st: "loop_state rs v act payload active fin" and len: "length its = length act"
    and ans: "answered payload active fin its = (items, prep)"
  shows "prep = (if still_failing act its = [] then Inr None
                 else Inr (Some (concat (map ((!) rs) (still_failing act its)), still_failing act its)))"
proof -
  let ?subs = "filter (\<lambda>k. is_recoverable (its ! k)) [0..<length act]"
  have bound: "i \<in> set act \<Longrightarrow> i < length rs" for i using st by (simp add: loop_state_def)
  have subs: "inspect_active_items items act = ?subs"
    unfolding inspect_active_items_def
    by (rule filter_cong) (use answered_active_item [OF st len ans] answered_items(1) [OF st len ans] bound in auto)
  have recs: "\<forall>r \<in> set (map ((!) rs) act). record_ok r" using ok bound by auto
  have "extract_sub_payload (concat (map ((!) rs) act)) ?subs = Inr (concat (map ((!) (map ((!) rs) act)) ?subs))"
    by (rule extract_records [OF recs]) auto
  moreover have "map ((!) (map ((!) rs) act)) ?subs = map ((!) rs) (map ((!) act) ?subs)" by simp
  moreover have "payload = concat (map ((!) rs) act)" using st by (simp add: loop_state_def)
  ultimately show ?thesis
    using answered_items(4) [OF st len ans] by (simp add: prepare_sub_payload_retry_def subs still_failing_nth [OF len] Let_def)
qed

lemma loop_state_next:
  assumes ok: "\<forall>r \<in> set rs. record_ok r" and st: "loop_state rs v act payload active fin" and len: "length its = length act"
    and ans: "answered payload active fin its = (items, Inr (Some (p, a)))"
  shows "a = still_failing act its \<and> loop_state rs (v ++ map_of (zip act its)) a p a items"
proof -
  have pa: "still_failing act its \<noteq> []" "a = still_failing act its" "p = concat (map ((!) rs) a)"
    using answered_prep [OF ok st len ans] by (auto split: if_splits)
  have act: "distinct act" "act \<noteq> []" "\<And>i. i \<in> set act \<Longrightarrow> i < length rs" using st by (auto simp: loop_state_def)
  then have n: "length rs > 0" using nth_mem [of 0 act] by fastforce
  have rec: "\<not> is_recoverable (items ! i)" if "i < length rs" "i \<notin> set a" for i
  proof (cases "i \<in> set act")
    case True
    then obtain k where k: "k < length act" "i = act ! k" by (auto simp: in_set_conv_nth)
    then show ?thesis using that(2) answered_active_item [OF st len ans k(1)] by (auto simp: pa(2) still_failing_set [OF len])
  qed (use answered_items(3) [OF st len ans that(1)] in simp)
  have "i < length rs" if "i \<in> set a" for i using that act(3) by (auto simp: pa(2) still_failing_set [OF len])
  then have "loop_state rs (v ++ map_of (zip act its)) a p a items"
    using pa(1,2) still_failing_distinct [OF act(1) len] answered_items(1,2) [OF st len ans] rec n
    unfolding loop_state_def pa(3) by auto
  then show ?thesis using pa(2) by simp
qed

lemma send_loop_verdicts:
  assumes ok: "\<forall>r \<in> set rs. record_ok r"
  shows "loop_state rs v act payload active fin \<Longrightarrow>
    send_loop net ds attempt payload active fin took c = (res, c', log) \<Longrightarrow> one_item_per_document (exchanges log) \<Longrightarrow>
    attempt < sat_add (hc_max_retries c) 1 \<Longrightarrow>
      map fst (exchanges log) = map (\<lambda>ix. concat (map ((!) rs) ix)) (retry_plan act (exchanges log)) \<and>
      length (exchanges log) + attempt \<le> sat_add (hc_max_retries c) 1 \<and>
      (\<forall>out. res = Inr out \<longrightarrow> length (br_items out) = length rs \<and>
         (\<forall>i < length rs. verdicts v act (exchanges log) i = Some (br_items out ! i)) \<and>
         (list_ex is_recoverable (br_items out) \<longrightarrow> \<not> br_errors out))"
proof (induction net ds attempt payload active fin took c arbitrary: v act log res c' rule: send_loop.induct)
  case (1 net ds attempt payload active fin took c)
  note st = 1(2) and run = 1(3) and honest = 1(4) and bound = 1(5)
  have payload: "payload = concat (map ((!) rs) act)" "\<forall>r \<in> set (map ((!) rs) act). record_ok r"
    using st ok by (auto simp: loop_state_def)
  obtain step c1 ev where turn: "send_turn net ds attempt payload active fin took c = (step, c1, ev)"
    by (metis surj_pair)
  obtain reply where reply: "exchanges ev = [(payload, reply)]" and mr: "hc_max_retries c1 = hc_max_retries c"
    using send_turn_cases [OF turn] by blast
  have "\<exists>log'. exchanges log = (payload, reply) # log'"
    using run reply unfolding send_loop.simps [of net ds attempt] turn by (auto split: send_step.splits prod.splits)
  then have "answer_of reply = Some its \<Longrightarrow> length its = doc_count payload" for its
    using honest by (auto simp: one_item_per_document_def)
  then have len: "answer_of reply = Some its \<Longrightarrow> length its = length act" for its
    using doc_count_records [OF payload(2)] payload(1) by simp
  show ?case
  proof (cases step)
    case (Done r)
    then have log: "exchanges log = [(payload, reply)]" "res = r"
      using run reply unfolding send_loop.simps [of net ds attempt] turn by auto
    have "length (br_items out) = length rs \<and> (\<forall>i < length rs. verdicts v act (exchanges log) i = Some (br_items out ! i)) \<and>
        (list_ex is_recoverable (br_items out) \<longrightarrow> \<not> br_errors out)" if out: "res = Inr out" for out
    proof -
      obtain its where its: "answer_of reply = Some its"
        and cases: "(fin = [] \<and> br_items out = its \<and> \<not> br_errors out) \<or>
               (answered payload active fin its = (br_items out, Inr None) \<and> br_errors out = list_ex is_unrecoverable (br_items out))"
        using send_turn_cases [OF turn] Done out log(2) reply by auto
      note l = len [OF its]
      have v: "verdicts v act (exchanges log) = v ++ map_of (zip act its)" by (simp add: log its)
      from cases show ?thesis
      proof
        assume first: "fin = [] \<and> br_items out = its \<and> \<not> br_errors out"
        then have act: "act = [0..<length rs]" using st by (simp add: loop_state_def)
        have "(v ++ map_of (zip act its)) i = Some (its ! i)" if "i < length rs" for i
          by (rule map_add_find_right) (use map_of_zip_nth [of act its i] l that in \<open>simp add: act\<close>)
        then show ?thesis using first l act unfolding v by simp
      next
        assume a: "answered payload active fin its = (br_items out, Inr None) \<and> br_errors out = list_ex is_unrecoverable (br_items out)"
        then have none: "still_failing act its = []" using answered_prep [OF ok st l] by (auto split: if_splits)
        have "\<not> is_recoverable (br_items out ! i)" if i: "i < length rs" for i
        proof (cases "i \<in> set act")
          case True
          then obtain k where k: "k < length act" "i = act ! k" by (auto simp: in_set_conv_nth)
          then show ?thesis using answered_active_item [OF st l _ k(1)] a none still_failing_set [OF l] by fastforce
        qed (use answered_items(3) [OF st l] a i in auto)
        then have "\<not> list_ex is_recoverable (br_items out)"
          using answered_items(1) [OF st l] a by (auto simp: list_ex_iff in_set_conv_nth)
        then show ?thesis using answered_items(1,2) [OF st l] a by (auto simp: v)
      qed
    qed
    then show ?thesis using bound by (simp add: log payload(1))
  next
    case (Again p a f t)
    obtain r c2 log' where rest: "send_loop net ds (sat_add attempt 1) p a f t c1 = (r, c2, log')" by (metis surj_pair)
    have log: "exchanges log = (payload, reply) # exchanges log'" "res = r"
      using run reply rest unfolding send_loop.simps [of net ds attempt] turn Again by auto
    have prog: "sat_add attempt 1 = Suc attempt" "Suc attempt < sat_add (hc_max_retries c) 1"
      using send_turn_progress turn Again by blast+
    define act' where "act' = (case answer_of reply of None \<Rightarrow> act | Some its \<Rightarrow> still_failing act its)"
    define v' where "v' = (case answer_of reply of None \<Rightarrow> v | Some its \<Rightarrow> v ++ map_of (zip act its))"
    have "loop_state rs v' act' p a f"
    proof (cases "answer_of reply")
      case None
      then have "p = payload" "a = active" "f = fin" using send_turn_cases [OF turn] Again reply by auto
      then show ?thesis using st None by (simp add: act'_def v'_def)
    next
      case (Some its)
      then have "answered payload active fin its = (f, Inr (Some (p, a)))" using send_turn_cases [OF turn] Again reply by auto
      then have "a = still_failing act its" "loop_state rs (v ++ map_of (zip act its)) a p a f"
        using loop_state_next [OF ok st len [OF Some]] by blast+
      then show ?thesis using Some by (simp add: act'_def v'_def)
    qed
    moreover have "one_item_per_document (exchanges log')" using honest by (simp add: log one_item_per_document_def)
    ultimately have IH: "map fst (exchanges log') = map (\<lambda>ix. concat (map ((!) rs) ix)) (retry_plan act' (exchanges log')) \<and>
      length (exchanges log') + sat_add attempt 1 \<le> sat_add (hc_max_retries c1) 1 \<and>
      (\<forall>out. r = Inr out \<longrightarrow> length (br_items out) = length rs \<and>
         (\<forall>i < length rs. verdicts v' act' (exchanges log') i = Some (br_items out ! i)) \<and>
         (list_ex is_recoverable (br_items out) \<longrightarrow> \<not> br_errors out))"
      using 1(1) [OF turn [symmetric] Again refl _ rest] prog mr by simp
    have "verdicts v act (exchanges log) = verdicts v' act' (exchanges log')"
      by (simp add: log act'_def v'_def split: option.splits)
    then show ?thesis using IH prog mr by (simp add: log payload(1) flip: act'_def)
  qed
qed

lemma send_bulk_start:
  assumes "rs \<noteq> []"
  shows "loop_state rs Map.empty [0..<length rs] (concat rs) [] []" "0 < sat_add (hc_max_retries c) 1"
  using assms by (simp_all add: loop_state_def map_nth sat_add_def u64_max_def)

lemma send_bulk_items:
  assumes "\<forall>r \<in> set rs. record_ok r" and "rs \<noteq> []"
    and "send_bulk net data_stream (concat rs) c = (Inr out, c', log)" and "one_item_per_document (exchanges log)"
  shows "length (br_items out) = length rs"
    and "i < length rs \<Longrightarrow> verdicts Map.empty [0..<length rs] (exchanges log) i = Some (br_items out ! i)"
  using send_loop_verdicts [OF assms(1) send_bulk_start(1) [OF assms(2)] assms(3) [unfolded send_bulk_def] assms(4)
      send_bulk_start(2) [OF assms(2)]] by auto

text \<open>
  The hypothesis of one item per document matters: an answer that reports errors but lists no items is
  taken for a success of the whole request.
\<close>

lemma empty_items_accepted:
  assumes "hr_status r = 200" and "hr_bulk r = Inr \<lparr>br_took = 0, br_errors = True, br_items = []\<rparr>"
    and "\<And>rq. en_send net 0 rq = Inr r" and "hc_auth c = AuthNone" and "\<not> hc_gzip_compression c"
  shows "fst (send_bulk net data_stream payload c) = Inr \<lparr>br_took = 0, br_errors = False, br_items = []\<rparr>"
proof -
  obtain e c1 where ne: "next_endpoint (en_unix_secs net 0) (share net 0 c) = (e, c1)" by force
  have "hc_auth c1 = AuthNone" "\<not> hc_gzip_compression c1"
    using ne assms(4,5) by (auto simp: next_endpoint_def share_def Let_def split: if_splits option.splits)
  then have "post_bulk_request net 0 c1 e ds payload = Inr r" for ds
    using assms(3) by (simp add: post_bulk_request_def apply_auth_request_def)
  then show ?thesis
    using assms(1,2)
    by (simp add: send_bulk_def send_loop.simps [of net _ 0] send_turn_def ne is_transient_http_status_def check_bulk_status_def
        is_success_def bulk_answer_def prepare_sub_payload_retry_def inspect_active_items_def sat_add_def)
qed

section \<open>Endpoints\<close>

lemma position_Some: "position x xs = Some i \<Longrightarrow> i < length xs \<and> xs ! i = x"
  by (induction xs arbitrary: i) (auto split: if_splits)

lemma position_None: "position x xs = None \<Longrightarrow> x \<notin> set xs"
  by (induction xs) (auto split: if_splits)

definition client_ok :: "HttpClient \<Rightarrow> bool" where
  "client_ok c \<longleftrightarrow> length (hc_endpoint_cooldowns c) = length (hc_endpoints c) \<and> distinct (hc_endpoints c) \<and>
     list_all (\<lambda>e. strip_end_slashes (trim e) = e) (hc_endpoints c) \<and> 2 * length (hc_endpoints c) \<le> u64_max"

text \<open>Starting anywhere, the offsets reach every endpoint.\<close>

lemma offsets_cover:
  fixes s n j :: nat
  assumes "s < n" and "j < n"
  shows "\<exists>k < n. (s + k) mod n = j"
proof (cases "s \<le> j")
  case True
  then show ?thesis using assms by (intro exI [of _ "j - s"]) auto
next
  case False
  then have "(s + (n + j - s)) mod n = (n + j) mod n" using assms by simp
  then show ?thesis using assms False by (intro exI [of _ "n + j - s"]) auto
qed

lemma next_endpoint_available:
  assumes ok: "client_ok c" and n: "1 < length (hc_endpoints c)" and run: "next_endpoint t c = (e, c1)"
    and j: "j < length (hc_endpoints c)" "cooldown_of c j \<le> t"
  shows "\<exists>i < length (hc_endpoints c). e = hc_endpoints c ! i \<and> cooldown_of c i \<le> t"
proof -
  let ?n = "length (hc_endpoints c)" and ?s = "hc_current_endpoint c mod length (hc_endpoints c)"
  have s: "?s < ?n" using n by (intro mod_less_divisor) linarith
  have sat: "sat_add ?s k = ?s + k" if "k < ?n" for k
  proof -
    have "?s + k < u64_max" using s that ok by (simp add: client_ok_def)
    then show ?thesis by (simp add: sat_add_def)
  qed
  obtain k where k: "k < ?n" "(?s + k) mod ?n = j" using offsets_cover [OF s j(1)] by auto
  have "cooldown_of c (sat_add ?s k mod ?n) \<le> t" using k(2) j(2) sat [OF k(1)] by simp
  then obtain off where off: "find (\<lambda>offset. cooldown_of c (sat_add ?s offset mod ?n) \<le> t) [0..<?n] = Some off"
    using k(1) by (metis (no_types, lifting) atLeast_upt find_None_iff lessThan_iff not_None_eq)
  then have "cooldown_of c (sat_add ?s off mod ?n) \<le> t" by (auto simp: find_Some_iff)
  moreover have "e = hc_endpoints c ! (sat_add ?s off mod ?n)"
    using run n off by (auto simp: next_endpoint_def Let_def endpoint_at_def split: if_splits option.splits)
  moreover have "sat_add ?s off mod ?n < ?n" using n by (intro mod_less_divisor) linarith
  ultimately show ?thesis by blast
qed

section \<open>Properties\<close>

text \<open>
  C12. Every request of \<open>send_bulk\<close> holds exactly the documents that every answer so far asked to send
  again, in their order and byte for byte, and there are at most \<open>max_retries + 1\<close> requests. When the
  call succeeds, its response lists for every document the last answer the cluster gave for it, and no
  document is left that asks for a retry, unless the cluster itself reported no errors.
\<close>

theorem send_bulk_verdicts:
  assumes "\<forall>r \<in> set rs. record_ok r" and "rs \<noteq> []"
    and "send_bulk net data_stream (concat rs) c = (res, c', log)" and "one_item_per_document (exchanges log)"
  shows "map fst (exchanges log) = map (\<lambda>ix. concat (map ((!) rs) ix)) (retry_plan [0..<length rs] (exchanges log)) \<and>
    length (exchanges log) \<le> sat_add (hc_max_retries c) 1 \<and>
    (\<forall>out. res = Inr out \<longrightarrow> length (br_items out) = length rs \<and>
       (\<forall>i < length rs. verdicts Map.empty [0..<length rs] (exchanges log) i = Some (br_items out ! i)) \<and>
       (list_ex is_recoverable (br_items out) \<longrightarrow> \<not> br_errors out))"
  using send_loop_verdicts [OF assms(1) send_bulk_start(1) [OF assms(2)] assms(3) [unfolded send_bulk_def] assms(4)
      send_bulk_start(2) [OF assms(2)]] by simp

text \<open>A cluster that refuses the first document once, and answers every later request with success.\<close>

definition item_with :: "nat \<Rightarrow> BulkItemWrapper" where
  "item_with s = \<lparr>bw_create = Some \<lparr>bi_index = None, bi_id = None, bi_status = s, bi_error = None\<rparr>,
     bw_index = None, bw_update = None, bw_delete = None\<rparr>"

definition busy_reply :: "nat \<Rightarrow> http_response" where
  "busy_reply attempt = \<lparr>hr_status = 200, hr_reason = ''OK'', hr_text = [], hr_retry_after = None,
     hr_bulk = Inr (if attempt = 0
       then \<lparr>br_took = 1, br_errors = True, br_items = [item_with 429, item_with 201]\<rparr>
       else \<lparr>br_took = 2, br_errors = False, br_items = [item_with 201]\<rparr>)\<rparr>"

definition busy_cluster :: es_net where
  "busy_cluster = \<lparr>en_gzip = Inr, en_sign = (\<lambda>_ _ _ _ _. Inr []), en_send = (\<lambda>attempt _. Inr (busy_reply attempt)),
     en_unix_secs = (\<lambda>_. 0), en_subsec_nanos = (\<lambda>_. 0), en_http_date = (\<lambda>_ _. None), en_shared = (\<lambda>_. None)\<rparr>"

definition one_node :: HttpClient where
  "one_node = \<lparr>hc_endpoints = [''http://a''], hc_endpoint_cooldowns = [0], hc_current_endpoint = 0, hc_auth = AuthNone,
     hc_gzip_compression = False, hc_max_retries = 3, hc_retry_interval_secs = 0\<rparr>"

definition two_records :: "byte list list" where
  "two_records = [[97, 10, 98, 10], [99, 10, 100, 10]]"

lemma two_records_ok: "\<forall>r \<in> set two_records. record_ok r"
proof -
  have "line_ok [97]" "line_ok [98]" "line_ok [99]" "line_ok [100]" by (simp_all add: line_ok_def is_blank_def)
  then have "record_ok ([97] @ [0x0a] @ [98] @ [0x0a])" "record_ok ([99] @ [0x0a] @ [100] @ [0x0a])"
    unfolding record_ok_def by blast+
  then show ?thesis by (simp add: two_records_def)
qed

lemma busy_post: "post_bulk_request busy_cluster attempt one_node e ds payload = Inr (busy_reply attempt)"
  by (simp add: post_bulk_request_def one_node_def apply_auth_request_def busy_cluster_def)

lemma busy_next: "next_endpoint now (share busy_cluster attempt one_node) = (''http://a'', one_node)"
  by (simp add: next_endpoint_def share_def busy_cluster_def one_node_def endpoint_at_def)

lemma item_with_status: "is_recoverable (item_with s) \<longleftrightarrow> s = 429 \<or> s = 500 \<or> s = 503"
  "is_unrecoverable (item_with s) \<longleftrightarrow> s \<ge> 400 \<and> s \<noteq> 429 \<and> s \<noteq> 500 \<and> s \<noteq> 503"
  by (auto simp: is_recoverable_def is_unrecoverable_def item_status_def bulk_item_def option_or_def item_with_def)

lemma busy_first:
  "send_turn busy_cluster ds 0 (concat two_records) [] [] 0 one_node =
     (Again (two_records ! 0) [0] [item_with 429, item_with 201] 1, one_node,
      [Exchange ''http://a'' (concat two_records) (Inr (busy_reply 0)), Sleep 0])"
proof -
  have "extract_sub_payload (concat two_records) [0] = Inr (two_records ! 0)"
    using extract_records [OF two_records_ok, of "[0]"] by (simp add: two_records_def)
  then have "prepare_sub_payload_retry (concat two_records) [item_with 429, item_with 201] [0..<2] = Inr (Some (two_records ! 0, [0]))"
    by (simp add: prepare_sub_payload_retry_def inspect_active_items_def item_with_status numeral_2_eq_2)
  moreover have "[0..<Suc (Suc 0)] = [0..<2]" by (simp only: numeral_2_eq_2)
  ultimately show ?thesis
    by (simp add: send_turn_def busy_next busy_post is_transient_http_status_def check_bulk_status_def is_success_def
        busy_reply_def bulk_answer_def retry_or_fail_def sat_add_def u64_max_def sleep_backoff_def del: upt_Suc)
      (simp add: one_node_def)
qed

lemma busy_second:
  "send_turn busy_cluster ds 1 (two_records ! 0) [0] [item_with 429, item_with 201] 1 one_node =
     (Done (Inr \<lparr>br_took = 3, br_errors = False, br_items = [item_with 201, item_with 201]\<rparr>), one_node,
      [Exchange ''http://a'' (two_records ! 0) (Inr (busy_reply 1))])"
  by (simp add: send_turn_def busy_next busy_post is_transient_http_status_def check_bulk_status_def is_success_def
      busy_reply_def bulk_answer_def retry_or_fail_def sat_add_def u64_max_def merge_retry_items_def
      prepare_sub_payload_retry_def inspect_active_items_def item_with_status)

lemma busy_cluster_run:
  "send_bulk busy_cluster ''logs'' (concat two_records) one_node =
     (Inr \<lparr>br_took = 3, br_errors = False, br_items = [item_with 201, item_with 201]\<rparr>, one_node,
      [Exchange ''http://a'' (concat two_records) (Inr (busy_reply 0)), Sleep 0, Exchange ''http://a'' (two_records ! 0) (Inr (busy_reply 1))])"
  by (simp add: send_bulk_def send_loop.simps busy_first busy_second [unfolded One_nat_def] sat_add_def u64_max_def)

theorem send_bulk_verdicts_witness:
  "verdicts Map.empty [0, 1] [(concat two_records, Inr (busy_reply 0)), (two_records ! 0, Inr (busy_reply 1))] 0 = Some (item_with 201)"
proof -
  have "doc_count (concat two_records) = 2" "doc_count (two_records ! 0) = 1"
    using doc_count_records [OF two_records_ok] doc_count_records [of "[two_records ! 0]"] two_records_ok
    by (simp_all add: two_records_def)
  then have honest: "one_item_per_document (exchanges [Exchange ''http://a'' (concat two_records) (Inr (busy_reply 0)), Sleep 0,
      Exchange ''http://a'' (two_records ! 0) (Inr (busy_reply 1))])"
    by (simp add: one_item_per_document_def answer_of_def busy_reply_def is_success_def)
  have upt: "[0..<length two_records] = [0, 1]" by (simp add: two_records_def)
  have ne: "two_records \<noteq> []" "0 < length two_records" by (simp_all add: two_records_def)
  note run = send_bulk_verdicts [OF two_records_ok ne(1) busy_cluster_run honest, THEN conjunct2, THEN conjunct2, rule_format, OF refl]
  show ?thesis using run [THEN conjunct2, THEN conjunct1, rule_format, OF ne(2)]
    by (simp only: upt exchanges.simps BulkResponse.simps nth_Cons_0)
qed

text \<open>
  For ten seconds after a failure the client does not choose the failed endpoint, as long as some
  other endpoint is not in cooldown.
\<close>

lemma failed_endpoint_avoided:
  assumes ok: "client_ok c" and e: "e \<in> set (hc_endpoints c)" and t: "t < sat_add now 10"
    and other: "j < length (hc_endpoints c)" "hc_endpoints c ! j \<noteq> e" "cooldown_of c j \<le> t"
  shows "fst (next_endpoint t (mark_endpoint_failed now e c)) \<noteq> e"
proof -
  let ?c = "mark_endpoint_failed now e c"
  have norm: "strip_end_slashes (trim e) = e" using ok e by (auto simp: client_ok_def list_all_iff)
  obtain pos where pos: "position e (hc_endpoints c) = Some pos" using position_None e by fastforce
  then have p: "pos < length (hc_endpoints c)" "hc_endpoints c ! pos = e" using position_Some by auto
  have cd: "cooldown_of ?c i = (if i = pos then sat_add now 10 else cooldown_of c i)" if "i < length (hc_endpoints c)" for i
    using that ok p(1) by (auto simp: cooldown_of_def mark_endpoint_failed_def norm pos client_ok_def nth_list_update)
  have ok': "client_ok ?c" using ok by (simp add: client_ok_def mark_endpoint_failed_def norm pos)
  have "j \<noteq> pos" using other(2) p(2) by auto
  then have "cooldown_of ?c j \<le> t" "1 < length (hc_endpoints ?c)" using cd [OF other(1)] other(1,3) p(1) by auto
  then obtain i where i: "i < length (hc_endpoints ?c)" "fst (next_endpoint t ?c) = hc_endpoints ?c ! i" "cooldown_of ?c i \<le> t"
    using next_endpoint_available [OF ok' _ prod.collapse [symmetric]] other(1) by (metis mark_failed_config(2))
  then have "i \<noteq> pos" using cd [of i] t by auto
  then show ?thesis using i ok p by (auto simp: client_ok_def nth_eq_iff_index_eq)
qed

end
