(* ===== verification/EsStartup.thy ===== *)
theory EsStartup
  imports EsClient
begin

text \<open>
  The checks of the Elasticsearch sink at startup (\<open>crates/elasticsearch-sink/src/client.rs\<close>): the health check,
  the wildcard patterns of index templates, and the three tiers that decide whether a data stream
  will accept documents.

  The requests go to the functions of the record \<open>es_admin\<close>, each with the URL. Messages are
  spelled out where the code looks into them.
\<close>

section \<open>Wildcard patterns\<close>

fun suffixes_of :: "'a list \<Rightarrow> 'a list list" where
  "suffixes_of [] = [[]]"
| "suffixes_of (x # xs) = (x # xs) # suffixes_of xs"

function match_recursive :: "string \<Rightarrow> string \<Rightarrow> bool" where
  "match_recursive [] t = (t = [])"
| "match_recursive (p # ps) t =
     (if p = CHR ''*'' then
        (let rest = dropWhile (\<lambda>c. c = CHR ''*'') ps
         in rest = [] \<or> list_ex (match_recursive rest) (suffixes_of t))
      else if p = CHR ''?'' then (case t of [] \<Rightarrow> False | _ # t' \<Rightarrow> match_recursive ps t')
      else (case t of [] \<Rightarrow> False | c # t' \<Rightarrow> c = p \<and> match_recursive ps t'))"
  by pat_completeness auto
termination
  by (relation "measure (\<lambda>(p, t). length p)") (auto simp: less_Suc_eq_le length_dropWhile_le)

declare match_recursive.simps [simp del]

definition pattern_matches :: "string \<Rightarrow> string \<Rightarrow> bool" where
  "pattern_matches p t \<longleftrightarrow> p = ''*'' \<or> match_recursive p t"

text \<open>What a pattern means.\<close>

inductive glob :: "string \<Rightarrow> string \<Rightarrow> bool" where
  glob_end: "glob [] []"
| glob_char: "glob ps t \<Longrightarrow> c \<noteq> CHR ''*'' \<Longrightarrow> c \<noteq> CHR ''?'' \<Longrightarrow> glob (c # ps) (c # t)"
| glob_any: "glob ps t \<Longrightarrow> glob (CHR ''?'' # ps) (c # t)"
| glob_star: "glob ps t \<Longrightarrow> glob (CHR ''*'' # ps) (s @ t)"

inductive_simps glob_nil: "glob [] t"
inductive_simps glob_cons: "glob (c # ps) t"

lemma suffixes_of_iff: "u \<in> set (suffixes_of t) \<longleftrightarrow> (\<exists>s. t = s @ u)"
proof (induction t)
  case (Cons x t)
  show ?case by (auto simp: Cons Cons_eq_append_conv)
qed simp

text \<open>A star and the stars behind it match like one.\<close>

lemma glob_stars: "glob (dropWhile (\<lambda>c. c = CHR ''*'') ps) u \<Longrightarrow> glob (CHR ''*'' # ps) (s @ u)"
proof (induction ps arbitrary: s)
  case (Cons p ps)
  show ?case
  proof (cases "p = CHR ''*''")
    case True
    then have "glob (CHR ''*'' # ps) ([] @ u)" using Cons.IH [of "[]"] Cons.prems by simp
    then show ?thesis using glob_star [of "CHR ''*'' # ps" u s] True by simp
  next
    case False
    then show ?thesis using Cons.prems by (simp add: glob_star)
  qed
qed (simp add: glob_star)

lemma glob_starsD: "glob (CHR ''*'' # ps) t \<Longrightarrow> \<exists>s u. t = s @ u \<and> glob (dropWhile (\<lambda>c. c = CHR ''*'') ps) u"
proof (induction ps arbitrary: t)
  case Nil
  then show ?case by (auto simp: glob_cons)
next
  case (Cons p ps)
  obtain s u where su: "t = s @ u" "glob (p # ps) u" using Cons.prems by (auto simp: glob_cons)
  show ?case
  proof (cases "p = CHR ''*''")
    case True
    then obtain s' u' where "u = s' @ u'" "glob (dropWhile (\<lambda>c. c = CHR ''*'') ps) u'" using Cons.IH su(2) by blast
    then show ?thesis using True su(1) by (intro exI [of _ "s @ s'"] exI [of _ u']) simp
  qed (use su in auto)
qed

lemma match_recursive_glob: "match_recursive p t \<longleftrightarrow> glob p t"
proof (induction p t rule: match_recursive.induct)
  case (1 t)
  then show ?case by (auto simp: match_recursive.simps glob_nil)
next
  case (2 p ps t)
  consider (star) "p = CHR ''*''" | (any) "p = CHR ''?''" | (char) "p \<noteq> CHR ''*''" "p \<noteq> CHR ''?''" by blast
  then show ?case
  proof cases
    case star
    let ?rest = "dropWhile (\<lambda>c. c = CHR ''*'') ps"
    have "match_recursive (p # ps) t \<longleftrightarrow> ?rest = [] \<or> (\<exists>s u. t = s @ u \<and> glob ?rest u)"
      using 2(1) star by (auto simp: match_recursive.simps(2) list_ex_iff suffixes_of_iff Let_def)
    also have "\<dots> \<longleftrightarrow> (\<exists>s u. t = s @ u \<and> glob ?rest u)"
      by (metis append_Nil2 glob_end)
    also have "\<dots> \<longleftrightarrow> glob (p # ps) t" using glob_stars glob_starsD star by blast
    finally show ?thesis .
  next
    case any
    then show ?thesis using 2(2) by (cases t) (auto simp: match_recursive.simps(2) glob_cons)
  next
    case char
    then show ?thesis using 2(3) by (cases t) (auto simp: match_recursive.simps(2) glob_cons)
  qed
qed

section \<open>Administrative requests\<close>

datatype json_value = JsonNull | JsonOther

record IndexTemplateContent =
  ic_index_patterns :: "string list"
  ic_data_stream :: "json_value option"
  ic_priority :: "int option"

record IndexTemplateItem =
  it_name :: string
  it_index_template :: "IndexTemplateContent option"

record SimulateIndexResponse =
  si_template :: "json_value option option"
  si_overlapping :: "string list"

record 'a admin_response =
  ar_status :: nat
  ar_reason :: string
  ar_text :: string
  ar_json :: "string + 'a"

record es_admin =
  ea_info :: "string \<Rightarrow> string + string option admin_response"
  ea_list :: "string \<Rightarrow> string + IndexTemplateItem list admin_response"
  ea_simulate :: "string \<Rightarrow> string + SimulateIndexResponse admin_response"
  ea_data_stream :: "string \<Rightarrow> string + string list admin_response"

datatype TemplateCheckError = Auth nat string | Transport string | Validation string

fun check_error_text :: "TemplateCheckError \<Rightarrow> string" where
  "check_error_text (Auth _ m) = m"
| "check_error_text (Transport m) = m"
| "check_error_text (Validation m) = m"

fun join_strs :: "string \<Rightarrow> string list \<Rightarrow> string" where
  "join_strs sep [] = []"
| "join_strs sep [s] = s"
| "join_strs sep (s # t # ts) = s @ sep @ join_strs sep (t # ts)"

definition quoted :: "string \<Rightarrow> string" where
  "quoted s = [CHR 0x27] @ s @ [CHR 0x27]"

definition http_status :: "'a admin_response \<Rightarrow> string" where
  "http_status r = ''HTTP '' @ show_nat (ar_status r) @ '' '' @ ar_reason r"

definition is_data_stream :: "json_value option \<Rightarrow> bool" where
  "is_data_stream v \<longleftrightarrow> (case v of Some x \<Rightarrow> x \<noteq> JsonNull | None \<Rightarrow> False)"

definition signed :: "es_net \<Rightarrow> HttpClient \<Rightarrow> string \<Rightarrow> string \<Rightarrow> string \<Rightarrow> byte list \<Rightarrow> TemplateCheckError + auth_header" where
  "signed net c endpoint http_method url body =
     (case apply_auth_request net c http_method url body of
        Inl e \<Rightarrow> Inl (Validation (endpoint @ '': auth signing failed: '' @ es_error_text e))
      | Inr h \<Rightarrow> Inr h)"

definition template_priority :: "IndexTemplateItem \<Rightarrow> int" where
  "template_priority t =
     (case Option.bind (it_index_template t) ic_priority of Some p \<Rightarrow> p | None \<Rightarrow> 0)"

definition template_matches :: "string \<Rightarrow> IndexTemplateItem \<Rightarrow> bool" where
  "template_matches data_stream t =
     (case it_index_template t of
        None \<Rightarrow> False
      | Some content \<Rightarrow> list_ex (\<lambda>pat. pattern_matches pat data_stream) (ic_index_patterns content))"

text \<open>\<open>sort_by\<close> is stable; the priorities are compared in descending order.\<close>

definition judge_templates :: "string \<Rightarrow> IndexTemplateItem list \<Rightarrow> TemplateCheckError + unit" where
  "judge_templates data_stream templates =
     (if templates = [] then
        Inl (Validation (''index template for data stream '' @ quoted data_stream @ '' returned empty template list''))
      else
        case sort_key (\<lambda>t. - template_priority t) (filter (template_matches data_stream) templates) of
          [] \<Rightarrow> Inl (Validation (''no index template matches data stream '' @ quoted data_stream))
        | winning # _ \<Rightarrow>
            if is_data_stream (Option.bind (it_index_template winning) ic_data_stream) then Inr ()
            else Inl (Validation (''matching index template '' @ quoted (it_name winning) @ '' for data stream '' @
                   quoted data_stream @ '' is not configured as a data-stream template (missing '' @ quoted ''data_stream'' @ '' field)'')))"

definition check_list_index_templates_matching ::
  "es_net \<Rightarrow> es_admin \<Rightarrow> HttpClient \<Rightarrow> string \<Rightarrow> string \<Rightarrow> TemplateCheckError + unit" where
  "check_list_index_templates_matching net adm c endpoint data_stream =
     (let url = endpoint @ ''/_index_template''
      in try_bind (signed net c endpoint ''GET'' url []) (\<lambda>_.
           case ea_list adm url of
             Inl e \<Rightarrow> Inl (Transport (''failed to list index templates on '' @ quoted endpoint @ '': '' @ e))
           | Inr r \<Rightarrow>
               if ar_status r = 404
               then Inl (Validation (''index template for data stream '' @ quoted data_stream @ '' not found (HTTP 404)''))
               else if ar_status r = 401 \<or> ar_status r = 403
               then Inl (Auth (ar_status r) (''unauthorized to list index templates on '' @ quoted endpoint @ '': '' @ http_status r))
               else if \<not> is_success (ar_status r)
               then Inl (Transport (''index template list on '' @ quoted endpoint @ '' returned '' @ http_status r @ '': '' @ ar_text r))
               else case ar_json r of
                      Inl e \<Rightarrow> Inl (Transport (''failed to parse index templates list response on '' @ quoted endpoint @ '': '' @ e))
                    | Inr templates \<Rightarrow> judge_templates data_stream templates))"

definition check_simulate_index_template ::
  "es_net \<Rightarrow> es_admin \<Rightarrow> HttpClient \<Rightarrow> string \<Rightarrow> string \<Rightarrow> TemplateCheckError + unit" where
  "check_simulate_index_template net adm c endpoint data_stream =
     (let url = endpoint @ ''/_index_template/_simulate_index/'' @ data_stream; on = quoted data_stream @ '' on '' @ quoted endpoint
      in try_bind (signed net c endpoint ''POST'' url (ascii ''{}'')) (\<lambda>_.
           case ea_simulate adm url of
             Inl e \<Rightarrow> Inl (Transport (''failed to simulate index template for '' @ on @ '': '' @ e))
           | Inr r \<Rightarrow>
               if ar_status r = 401
               then Inl (Auth 401 (''unauthorized to simulate index template for '' @ on @ '': HTTP 401''))
               else if ar_status r = 403
               then Inl (Auth 403 (''forbidden to simulate index template for '' @ on @ '': HTTP 403''))
               else if ar_status r = 404 \<or> ar_status r = 405
               then Inl (Validation (''simulate index template endpoint not supported or not found for '' @ on @ '' ('' @ http_status r @ '')''))
               else if \<not> is_success (ar_status r)
               then Inl (Transport (''simulate index template for '' @ on @ '' returned '' @ http_status r @ '': '' @ ar_text r))
               else case ar_json r of
                      Inl e \<Rightarrow> Inl (Transport (''failed to parse simulate index template '' @ quoted data_stream @
                                '' response on '' @ quoted endpoint @ '': '' @ e))
                    | Inr parsed \<Rightarrow>
                        if is_data_stream (Option.bind (si_template parsed) id) then Inr ()
                        else Inl (Validation (''simulated index template for '' @ on @ '' is not configured with '' @
                               quoted ''data_stream: {}'' @ '' (resolved template would create a regular index'' @
                               (if si_overlapping parsed = [] then []
                                else ''; overlapping templates: '' @ join_strs '', '' (si_overlapping parsed)) @ '')''))))"

definition check_data_stream_exists ::
  "es_net \<Rightarrow> es_admin \<Rightarrow> HttpClient \<Rightarrow> string \<Rightarrow> string \<Rightarrow> TemplateCheckError + unit" where
  "check_data_stream_exists net adm c endpoint data_stream =
     (let url = endpoint @ ''/_data_stream/'' @ data_stream; on = quoted data_stream @ '' on '' @ quoted endpoint
      in try_bind (signed net c endpoint ''GET'' url []) (\<lambda>_.
           case ea_data_stream adm url of
             Inl e \<Rightarrow> Inl (Transport (''failed to check data stream '' @ on @ '': '' @ e))
           | Inr r \<Rightarrow>
               if ar_status r = 404
               then Inl (Validation (''data stream '' @ quoted data_stream @ '' does not exist on '' @ quoted endpoint))
               else if ar_status r = 401 \<or> ar_status r = 403
               then Inl (Auth (ar_status r) (''unauthorized to check data stream '' @ on @ '': '' @ http_status r))
               else if \<not> is_success (ar_status r)
               then Inl (Transport (''check data stream '' @ on @ '' returned '' @ http_status r @ '': '' @ ar_text r))
               else case ar_json r of
                      Inl e \<Rightarrow> Inl (Transport (''failed to parse data stream '' @ quoted data_stream @ '' response on '' @
                                quoted endpoint @ '': '' @ e))
                    | Inr names \<Rightarrow>
                        if data_stream \<in> set names then Inr ()
                        else Inl (Validation (''data stream response on '' @ quoted endpoint @ '' did not contain data stream '' @
                               quoted data_stream))))"

section \<open>The three tiers\<close>

definition not_404_405 :: "string \<Rightarrow> bool" where
  "not_404_405 msg \<longleftrightarrow> \<not> str_contains ''returned HTTP 404'' msg \<and> \<not> str_contains ''returned HTTP 405'' msg"

text \<open>Whether an error of the first or the second tier ends the check.\<close>

definition definitive :: "(string \<Rightarrow> bool) \<Rightarrow> TemplateCheckError \<Rightarrow> bool" where
  "definitive decided e =
     (case e of Transport msg \<Rightarrow> not_404_405 msg | Auth status _ \<Rightarrow> status = 401 | Validation msg \<Rightarrow> decided msg)"

definition check_get_index_template ::
  "es_net \<Rightarrow> es_admin \<Rightarrow> HttpClient \<Rightarrow> string \<Rightarrow> string \<Rightarrow> TemplateCheckError + unit" where
  "check_get_index_template net adm c endpoint data_stream =
     (case check_list_index_templates_matching net adm c endpoint data_stream of
        Inr _ \<Rightarrow> Inr ()
      | Inl e1 \<Rightarrow>
          if definitive (\<lambda>msg. \<not> str_contains ''(HTTP 404)'' msg) e1 then Inl e1
          else case check_simulate_index_template net adm c endpoint data_stream of
                 Inr _ \<Rightarrow> Inr ()
               | Inl e2 \<Rightarrow>
                   if definitive (str_contains (''is not configured with '' @ quoted ''data_stream: {}'')) e2 then Inl e2
                   else case check_data_stream_exists net adm c endpoint data_stream of
                          Inr _ \<Rightarrow> Inr ()
                        | Inl e3 \<Rightarrow>
                            if definitive (\<lambda>_. False) e3 then Inl e3
                            else Inl (Validation (''all validation tiers failed for '' @ quoted data_stream @ '' on '' @ quoted endpoint @
                                   '': Tier 1 (cluster-wide composable template list): '' @ check_error_text e1 @
                                   ''; Tier 2 (index template simulation): '' @ check_error_text e2 @
                                   ''; Tier 3 (active data stream check): '' @ check_error_text e3)))"

text \<open>The loop over the endpoints: the errors in order, the last authentication error, and the client.\<close>

fun validate_endpoints ::
  "es_net \<Rightarrow> es_admin \<Rightarrow> nat \<Rightarrow> string \<Rightarrow> string list \<Rightarrow> string list \<Rightarrow> string option \<Rightarrow> HttpClient \<Rightarrow>
   ((string list \<times> string option) + unit) \<times> HttpClient" where
  "validate_endpoints net adm now data_stream [] errors auth_error c = (Inl (errors, auth_error), c)"
| "validate_endpoints net adm now data_stream (endpoint # endpoints) errors auth_error c =
     (case check_get_index_template net adm c endpoint data_stream of
        Inr _ \<Rightarrow> (Inr (), c)
      | Inl (Auth _ message) \<Rightarrow>
          validate_endpoints net adm now data_stream endpoints (errors @ [endpoint @ '': '' @ message]) (Some message)
            (mark_endpoint_failed now endpoint c)
      | Inl (Transport msg) \<Rightarrow>
          validate_endpoints net adm now data_stream endpoints (errors @ [msg]) auth_error (mark_endpoint_failed now endpoint c)
      | Inl (Validation msg) \<Rightarrow>
          validate_endpoints net adm now data_stream endpoints (errors @ [msg]) auth_error c)"

text \<open>How the errors of all endpoints become one: shared by the health check and the template check.\<close>

definition combine_errors :: "string \<Rightarrow> string \<Rightarrow> string list \<Rightarrow> string option \<Rightarrow> ElasticsearchError" where
  "combine_errors auth_marker summary errors auth_error =
     (case auth_error of
        Some msg \<Rightarrow>
          if length errors = 1 \<or> list_all (str_contains auth_marker) errors then AuthenticationFailed msg
          else StartupValidation (summary @ join_strs ''; '' errors)
      | None \<Rightarrow> StartupValidation (summary @ join_strs ''; '' errors))"

definition validate_index_template ::
  "es_net \<Rightarrow> es_admin \<Rightarrow> nat \<Rightarrow> string \<Rightarrow> HttpClient \<Rightarrow> (ElasticsearchError + unit) \<times> HttpClient" where
  "validate_index_template net adm now data_stream c =
     (let ds = trim_slashes data_stream
      in case validate_endpoints net adm now ds (hc_endpoints c) [] None c of
           (Inr _, c1) \<Rightarrow> (Inr (), c1)
         | (Inl (errors, auth_error), c1) \<Rightarrow>
             (Inl (combine_errors ''unauthorized''
                     (''all cluster endpoints failed index template validation for '' @ quoted ds @ '': '') errors auth_error), c1))"

section \<open>Health check\<close>

text \<open>One endpoint: healthy, or the error, the authentication error if it is one, and whether the endpoint is marked.\<close>

definition probe_endpoint :: "es_net \<Rightarrow> es_admin \<Rightarrow> HttpClient \<Rightarrow> string \<Rightarrow> (string \<times> string option \<times> bool) + unit" where
  "probe_endpoint net adm c endpoint =
     (let url = endpoint @ ''/''
      in case apply_auth_request net c ''GET'' url [] of
           Inl e \<Rightarrow> Inl (endpoint @ '': auth signing failed: '' @ es_error_text e, None, False)
         | Inr _ \<Rightarrow>
             (case ea_info adm url of
                Inl e \<Rightarrow> Inl (''failed to connect to cluster endpoint '' @ quoted endpoint @ '': '' @ e, None, True)
              | Inr r \<Rightarrow>
                  if ar_status r = 401 \<or> ar_status r = 403
                  then let msg = ''health check authentication failed with '' @ http_status r
                       in Inl (endpoint @ '': '' @ msg, Some msg, True)
                  else if \<not> is_success (ar_status r)
                  then Inl (''health check against '' @ quoted endpoint @ '' returned '' @ http_status r, None, True)
                  else case ar_json r of
                         Inl e \<Rightarrow> Inl (''failed to parse cluster info JSON from '' @ quoted endpoint @ '': '' @ e, None, True)
                       | Inr version \<Rightarrow>
                           (case version of
                              Some number \<Rightarrow>
                                if trim number = []
                                then Inl (''cluster info from '' @ quoted endpoint @ '' did not contain a valid version number'', None, True)
                                else Inr ()
                            | None \<Rightarrow>
                                Inl (''cluster info from '' @ quoted endpoint @ '' did not contain a valid version number'', None, True))))"

fun probe_endpoints ::
  "es_net \<Rightarrow> es_admin \<Rightarrow> nat \<Rightarrow> string list \<Rightarrow> string list \<Rightarrow> string option \<Rightarrow> HttpClient \<Rightarrow>
   ((string list \<times> string option) + unit) \<times> HttpClient" where
  "probe_endpoints net adm now [] errors auth_error c = (Inl (errors, auth_error), c)"
| "probe_endpoints net adm now (endpoint # endpoints) errors auth_error c =
     (case probe_endpoint net adm c endpoint of
        Inr _ \<Rightarrow> (Inr (), c)
      | Inl (e, auth, mark) \<Rightarrow>
          probe_endpoints net adm now endpoints (errors @ [e]) (option_or auth auth_error)
            (if mark then mark_endpoint_failed now endpoint c else c))"

definition health_check :: "es_net \<Rightarrow> es_admin \<Rightarrow> nat \<Rightarrow> HttpClient \<Rightarrow> (ElasticsearchError + unit) \<times> HttpClient" where
  "health_check net adm now c =
     (case probe_endpoints net adm now (hc_endpoints c) [] None c of
        (Inr _, c1) \<Rightarrow> (Inr (), c1)
      | (Inl (errors, auth_error), c1) \<Rightarrow>
          (Inl (combine_errors ''authentication failed'' ''all cluster endpoints failed health check: '' errors auth_error), c1))"

section \<open>What the checks decide\<close>

text \<open>The head of a stable sort is the first element with the least key.\<close>

lemma sort_key_hd:
  assumes "sort_key f xs = h # rest"
  shows "\<exists>pre post. xs = pre @ h # post \<and> (\<forall>x \<in> set pre. f h < f x) \<and> (\<forall>x \<in> set post. f h \<le> f x)"
proof -
  have least: "f h \<le> f x" if "x \<in> set xs" for x
  proof -
    have "sorted (map f (h # rest))" using sorted_sort_key [of f xs] unfolding assms .
    moreover have "x \<in> set (h # rest)" using that set_sort [of f xs] unfolding assms by simp
    ultimately show ?thesis by auto
  qed
  have "filter (\<lambda>x. f x = f h) xs = filter (\<lambda>x. f x = f h) (sort_key f xs)"
    by (simp add: sort_key_stable)
  then have "filter (\<lambda>x. f x = f h) xs = h # filter (\<lambda>x. f x = f h) rest" by (simp add: assms)
  then obtain pre post where xs: "xs = pre @ h # post" and pre: "\<forall>x \<in> set pre. f x \<noteq> f h" by (auto simp: filter_eq_Cons_iff)
  then have "f h < f x" if "x \<in> set pre" for x using least [of x] that by fastforce
  then show ?thesis using xs least by (intro exI [of _ pre] exI [of _ post]) simp
qed

text \<open>
  The template check passes exactly if the template that will apply, the first of the highest priority
  among those that match, makes a data stream.
\<close>

lemma judge_templates_sound:
  assumes "judge_templates ds ts = Inr ()"
  shows "\<exists>pre t post. filter (template_matches ds) ts = pre @ t # post \<and>
    is_data_stream (Option.bind (it_index_template t) ic_data_stream) \<and>
    (\<forall>x \<in> set pre. template_priority x < template_priority t) \<and> (\<forall>x \<in> set post. template_priority x \<le> template_priority t)"
proof -
  obtain t rest where sorted: "sort_key (\<lambda>t. - template_priority t) (filter (template_matches ds) ts) = t # rest"
    and win: "is_data_stream (Option.bind (it_index_template t) ic_data_stream)"
    using assms by (auto simp: judge_templates_def split: if_splits list.splits)
  show ?thesis using sort_key_hd [OF sorted] win by fastforce
qed

text \<open>The health check passes exactly if some endpoint is healthy.\<close>

lemma probe_endpoint_auth: "hc_auth c' = hc_auth c \<Longrightarrow> probe_endpoint net adm c' e = probe_endpoint net adm c e"
  by (simp add: probe_endpoint_def apply_auth_request_def)

lemma mark_failed_auth: "hc_auth (mark_endpoint_failed now e c) = hc_auth c"
  by (auto simp: mark_endpoint_failed_def split: option.splits)

lemma probe_endpoints_iff:
  "hc_auth c' = hc_auth c \<Longrightarrow> fst (probe_endpoints net adm now es errs auth c') = Inr () \<longleftrightarrow>
     (\<exists>e \<in> set es. probe_endpoint net adm c e = Inr ())"
proof (induction es arbitrary: errs auth c')
  case (Cons e es)
  have p: "probe_endpoint net adm c' e = probe_endpoint net adm c e" by (rule probe_endpoint_auth) (rule Cons.prems)
  show ?case using Cons by (auto simp: p mark_failed_auth split: sum.splits)
qed simp

lemma health_check_iff:
  "fst (health_check net adm now c) = Inr () \<longleftrightarrow> (\<exists>e \<in> set (hc_endpoints c). probe_endpoint net adm c e = Inr ())"
  using probe_endpoints_iff [OF refl, of net adm now "hc_endpoints c" "[]" None c]
  by (auto simp: health_check_def split: prod.splits sum.splits)

section \<open>Properties\<close>

text \<open>
  C40. The wildcard matcher decides what the pattern means: a star stands for any text, also none, a
  question mark for one character, every other character for itself.
\<close>

theorem pattern_matches_glob: "pattern_matches p t \<longleftrightarrow> glob p t"
proof -
  have "glob ''*'' t" using glob_star [OF glob_end, of t] by simp
  then show ?thesis by (auto simp: pattern_matches_def match_recursive_glob)
qed

end
