(* ===== verification/EsSink.thy ===== *)
theory EsSink
  imports EsClient LeaseOps Sort
begin

text \<open>
  The Elasticsearch sink (\<open>crates/elasticsearch-sink/src/lib.rs\<close>): what it does with one lease. The
  batch is sorted and cut into chunks, every chunk is sent by a task of its own, and the lease is
  acknowledged, quarantined in part, or given back.

  A task is represented by what joining it returns. Tasks finish in any order: \<open>de_picks\<close> and \<open>pl_drain\<close> say
  which of the running tasks are joined next. Other users of the buffer act before the sink
  returns to the lease (\<open>pl_meanwhile\<close>). \<open>process_lease\<close> also returns the calls it makes on the lease.
\<close>

section \<open>Failures\<close>

definition classify_elasticsearch_error :: "ElasticsearchError \<Rightarrow> FailureClass" where
  "classify_elasticsearch_error err =
     (case err of
        AuthenticationFailed _ \<Rightarrow> Fatal (es_error_text err)
      | Http _ \<Rightarrow> Transient
      | BulkFailed _ message \<Rightarrow>
          if starts_with ''HTTP 429'' message \<or> starts_with ''HTTP 500'' message \<or> starts_with ''HTTP 502'' message \<or>
             starts_with ''HTTP 503'' message \<or> starts_with ''HTTP 504'' message \<or> starts_with ''network error'' message \<or>
             str_contains ''recoverable status (429/500/503)'' message
          then Transient else Rejected (es_error_text err)
      | _ \<Rightarrow> Rejected (es_error_text err))"

fun failure_class_severity :: "FailureClass \<Rightarrow> nat" where
  "failure_class_severity Transient = 1"
| "failure_class_severity (Rejected _) = 2"
| "failure_class_severity (Fatal _) = 3"

section \<open>Tasks\<close>

type_synonym chunk_task_output = "nat \<times> nat \<times> (ElasticsearchError + BulkResponse)"

record task_acc =
  ta_outcomes :: "(nat \<times> nat \<times> BulkResponse) list"
  ta_first_es_err :: "ElasticsearchError option"
  ta_first_join_err :: "PipelineError option"

definition record_task_result :: "string + chunk_task_output \<Rightarrow> task_acc \<Rightarrow> task_acc" where
  "record_task_result res acc =
     (case res of
        Inr (start_row, row_count, Inr resp) \<Rightarrow> acc\<lparr>ta_outcomes := ta_outcomes acc @ [(start_row, row_count, resp)]\<rparr>
      | Inr (_, _, Inl es_err) \<Rightarrow>
          (let replace = (case ta_first_es_err acc of
                 None \<Rightarrow> True
               | Some existing \<Rightarrow>
                   failure_class_severity (classify_elasticsearch_error es_err) >
                   failure_class_severity (classify_elasticsearch_error existing))
           in if replace then acc\<lparr>ta_first_es_err := Some es_err\<rparr> else acc)
      | Inl join_err \<Rightarrow>
          if ta_first_join_err acc = None
          then acc\<lparr>ta_first_join_err := Some (Internal (''Bulk dispatch task failed: '' @ join_err))\<rparr> else acc)"

text \<open>Joining: every pick takes one of the running tasks.\<close>

fun join_tasks ::
  "nat list \<Rightarrow> (string + chunk_task_output) list \<Rightarrow> task_acc \<Rightarrow> (string + chunk_task_output) list \<times> task_acc" where
  "join_tasks [] ts acc = (ts, acc)"
| "join_tasks (k # ks) ts acc =
     (if ts = [] then (ts, acc)
      else let i = k mod length ts
           in join_tasks ks (take i ts @ drop (Suc i) ts) (record_task_result (ts ! i) acc))"

record dispatch_env =
  de_picks :: "nat list"
  de_permit :: "string option"
  de_panic :: "string option"
  de_net :: es_net

definition run_task :: "dispatch_env \<Rightarrow> HttpClient \<Rightarrow> string \<Rightarrow> BulkChunk \<Rightarrow> string + chunk_task_output" where
  "run_task env client data_stream chunk =
     (case de_panic env of
        Some e \<Rightarrow> Inl e
      | None \<Rightarrow> Inr (bc_start_row chunk, bc_row_count chunk, fst (send_bulk (de_net env) data_stream (bc_payload chunk) client)))"

text \<open>\<open>de_permit\<close> is the error of the semaphore, if acquiring a permit fails.\<close>

definition dispatch ::
  "dispatch_env \<Rightarrow> HttpClient \<Rightarrow> string \<Rightarrow> BulkChunk \<Rightarrow> (string + chunk_task_output) list \<Rightarrow> task_acc \<Rightarrow>
   unit result \<times> (string + chunk_task_output) list \<times> task_acc" where
  "dispatch env client data_stream chunk join_set acc =
     (if bc_payload chunk = [] \<or> bc_row_count chunk = 0 then (Inr (), join_set, acc)
      else
        case join_tasks (de_picks env) join_set acc of (ts, acc1) \<Rightarrow>
          (case de_permit env of
             Some e \<Rightarrow> (Inl (Internal (''Failed to acquire semaphore permit: '' @ e)), ts, acc1)
           | None \<Rightarrow> (Inr (), ts @ [run_task env client data_stream chunk], acc1)))"

fun dispatch_all ::
  "(nat \<Rightarrow> dispatch_env) \<Rightarrow> HttpClient \<Rightarrow> string \<Rightarrow> nat \<Rightarrow> BulkChunk list \<Rightarrow> (string + chunk_task_output) list \<Rightarrow> task_acc \<Rightarrow>
   unit result \<times> (string + chunk_task_output) list \<times> task_acc" where
  "dispatch_all envs client data_stream i [] join_set acc = (Inr (), join_set, acc)"
| "dispatch_all envs client data_stream i (chunk # chunks) join_set acc =
     (case dispatch (envs i) client data_stream chunk join_set acc of
        (Inl e, ts, acc1) \<Rightarrow> (Inl e, ts, acc1)
      | (Inr _, ts, acc1) \<Rightarrow> dispatch_all envs client data_stream (Suc i) chunks ts acc1)"

definition drain_join_set ::
  "(nat \<Rightarrow> nat) \<Rightarrow> (string + chunk_task_output) list \<Rightarrow> task_acc \<Rightarrow> task_acc" where
  "drain_join_set order ts acc = snd (join_tasks (map order [0..<length ts]) ts acc)"

section \<open>Rows that cannot be delivered\<close>

text \<open>Each entry is the reason and the slice of the row, if the row exists.\<close>

definition oversized_rejects ::
  "('b, 's) arrow_ops \<Rightarrow> nat \<Rightarrow> 'b \<Rightarrow> (nat \<times> nat) list \<Rightarrow> (string \<times> 'b option) list" where
  "oversized_rejects ao max_payload_bytes sorted_batch oversized_rows =
     map (\<lambda>(row_idx, record_bytes).
        (''oversized record ('' @ show_nat record_bytes @ '' bytes > max_payload_bytes '' @ show_nat max_payload_bytes @ '')'',
         if row_idx < ao_num_rows ao sorted_batch then Some (ao_slice ao sorted_batch row_idx 1) else None)) oversized_rows"

definition item_reason :: "BulkItemWrapper \<Rightarrow> string" where
  "item_reason w =
     ''item '' @ show_nat (case item_status w of Some s \<Rightarrow> s | None \<Rightarrow> 400) @ '': '' @
     (case item_error w of Some e \<Rightarrow> bie_error_type e | None \<Rightarrow> ''unknown'') @ '': '' @
     (case item_error w of Some e \<Rightarrow> bie_reason e | None \<Rightarrow> ''unrecoverable bulk item error'')"

definition item_rejects ::
  "('b, 's) arrow_ops \<Rightarrow> 'b \<Rightarrow> (nat \<times> nat \<times> BulkResponse) list \<Rightarrow> (string \<times> 'b option) list" where
  "item_rejects ao sorted_batch outcomes =
     concat (map (\<lambda>(start_row, row_count, resp).
       map (\<lambda>(item_idx, w).
           (item_reason w,
            if item_idx < row_count \<and> sat_add start_row item_idx < ao_num_rows ao sorted_batch
            then Some (ao_slice ao sorted_batch (sat_add start_row item_idx) 1) else None))
         (filter (\<lambda>(_, w). is_unrecoverable w) (enumerate 0 (br_items resp)))) outcomes)"

section \<open>One lease\<close>

datatype 'b lease_call = QuarantineCall "'b list" | NackCall FailureClass | AckCall

record ('b, 's) lease_env =
  pl_reads :: "nat \<Rightarrow> bool \<times> read_event list"
  pl_prepare_join_ok :: bool
  pl_files :: dir
  pl_dispatch :: "nat \<Rightarrow> dispatch_env"
  pl_drain :: "nat \<Rightarrow> nat"
  pl_meanwhile :: "('b, 's) BufferInner \<Rightarrow> ('b, 's) BufferInner"
  pl_clock :: clock
  pl_ack_reply :: "unit reply"
  pl_nack :: nack_io
  pl_to_json :: "DeadLetterMetadata \<Rightarrow> byte list"
  pl_dead_io :: dead_letter_io
  pl_quarantine_join_ok :: bool

type_synonym ('b, 's) settled = "unit result \<times> 'b lease_call list \<times> ('b, 's) BufferInner"

definition settle_ack :: "('b, 's) lease_env \<Rightarrow> ('b, 's) Lease \<Rightarrow> ('b, 's) BufferInner \<Rightarrow> ('b, 's) settled" where
  "settle_ack env le st = (case ack (pl_clock env) (pl_ack_reply env) le st of (res, st1) \<Rightarrow> (res, [AckCall], st1))"

definition settle_fatal ::
  "('b, 's) arrow_ops \<Rightarrow> ('b, 's) lease_env \<Rightarrow> PipelineError \<Rightarrow> ('b, 's) Lease \<Rightarrow> ('b, 's) BufferInner \<Rightarrow> ('b, 's) settled" where
  "settle_fatal ao env e le st =
     (case nack ao (pl_to_json env) (pl_nack env) (pl_clock env) (Fatal (error_text e)) le st of
        (_, st1) \<Rightarrow> (Inl e, [NackCall (Fatal (error_text e))], st1))"

text \<open>Quarantine of the rejected rows, if there are any, and the acknowledgement.\<close>

definition settle_rejects ::
  "('b, 's) arrow_ops \<Rightarrow> ('b, 's) lease_env \<Rightarrow> (string \<times> 'b option) list \<Rightarrow> ('b, 's) Lease \<Rightarrow> ('b, 's) BufferInner \<Rightarrow> ('b, 's) settled" where
  "settle_rejects ao env rejects le st =
     (let slices = List.map_filter snd rejects
      in if slices = [] then settle_ack env le st
         else
           case lease_quarantine_batches ao (pl_to_json env) (pl_dead_io env) (pl_quarantine_join_ok env) (pl_clock env)
                  (fst (hd rejects)) slices le st of
             (Inl dlq_err, le1, st1) \<Rightarrow>
               (case settle_fatal ao env dlq_err le1 st1 of (res, calls, st2) \<Rightarrow> (res, QuarantineCall slices # calls, st2))
           | (Inr _, le1, st1) \<Rightarrow>
               (case settle_ack env le1 st1 of (res, calls, st2) \<Rightarrow> (res, QuarantineCall slices # calls, st2)))"

definition prepare_chunks ::
  "('b, 's, 'c) sort_ops \<Rightarrow> ('b, 's) arrow_ops \<Rightarrow> 'b es_ops \<Rightarrow> BatchSorter \<Rightarrow> SignalKind \<Rightarrow> bool \<Rightarrow> nat \<Rightarrow> 'b \<Rightarrow>
   ('b \<times> BulkChunk list \<times> (nat \<times> nat) list) result" where
  "prepare_chunks so ao eo sorter sig unpack_attributes max_payload_bytes batch =
     (if ao_num_rows ao batch = 0 then Inr (batch, [], [])
      else
        try_bind (sort_batch so sorter batch sig) (\<lambda>sorted_batch.
        try_bind (serialize_batch_chunks_with_oversized eo sorted_batch unpack_attributes max_payload_bytes) (\<lambda>(chunks, oversized_rows).
          Inr (sorted_batch, chunks, oversized_rows))))"

text \<open>After all tasks have been joined.\<close>

definition settle_outcomes ::
  "('b, 's) arrow_ops \<Rightarrow> ('b, 's) lease_env \<Rightarrow> nat \<Rightarrow> 'b \<Rightarrow> (nat \<times> nat) list \<Rightarrow> task_acc \<Rightarrow> ('b, 's) Lease \<Rightarrow>
   ('b, 's) BufferInner \<Rightarrow> ('b, 's) settled" where
  "settle_outcomes ao env max_payload_bytes sorted_batch oversized_rows acc le st =
     (case ta_first_join_err acc of
        Some join_err \<Rightarrow> settle_fatal ao env join_err le st
      | None \<Rightarrow>
          (case ta_first_es_err acc of
             Some es_err \<Rightarrow>
               (let cls = classify_elasticsearch_error es_err
                in case nack ao (pl_to_json env) (pl_nack env) (pl_clock env) cls le st of
                     (Inl e, st1) \<Rightarrow> (Inl e, [NackCall cls], st1)
                   | (Inr _, st1) \<Rightarrow>
                       ((case cls of Fatal _ \<Rightarrow> Inl (to_pipeline_error es_err) | _ \<Rightarrow> Inr ()), [NackCall cls], st1))
           | None \<Rightarrow>
               let outcomes = sort_key fst (ta_outcomes acc)
               in if list_ex (\<lambda>(_, _, resp). recoverable_count resp > 0) outcomes
                  then (case nack ao (pl_to_json env) (pl_nack env) (pl_clock env) Transient le st of
                          (res, st1) \<Rightarrow> (res, [NackCall Transient], st1))
                  else settle_rejects ao env
                         (oversized_rejects ao max_payload_bytes sorted_batch oversized_rows @ item_rejects ao sorted_batch outcomes)
                         le st))"

definition process_lease ::
  "('b, 's, 'c) sort_ops \<Rightarrow> ('b, 's) arrow_ops \<Rightarrow> 'b es_ops \<Rightarrow> ('b, 's) lease_env \<Rightarrow> string \<Rightarrow> HttpClient \<Rightarrow> BatchSorter \<Rightarrow>
   bool \<Rightarrow> nat \<Rightarrow> ('b, 's) Lease \<Rightarrow> ('b, 's) BufferInner \<Rightarrow> ('b, 's) settled" where
  "process_lease so ao eo env data_stream client sorter unpack_attributes max_payload_bytes le st0 =
     (let st = pl_meanwhile env st0
      in if le_num_rows le = 0 then settle_ack env le st
         else
           case prepare ao (pl_reads env) (pl_prepare_join_ok env) (pl_files env) (in_config st)
                  (prepare_chunks so ao eo sorter (li_signal (le_id le)) unpack_attributes max_payload_bytes) le of
             Inl err \<Rightarrow> settle_fatal ao env err le st
           | Inr (sorted_batch, chunks, oversized_rows) \<Rightarrow>
               if chunks = [] then settle_rejects ao env (oversized_rejects ao max_payload_bytes sorted_batch oversized_rows) le st
               else
                 case dispatch_all (pl_dispatch env) client data_stream 0 chunks []
                        \<lparr>ta_outcomes = [], ta_first_es_err = None, ta_first_join_err = None\<rparr> of
                   (Inl dispatch_err, _, _) \<Rightarrow> settle_fatal ao env dispatch_err le st
                 | (Inr _, join_set, acc) \<Rightarrow>
                     settle_outcomes ao env max_payload_bytes sorted_batch oversized_rows
                       (drain_join_set (pl_drain env) join_set acc) le st)"

section \<open>Every task is accounted for\<close>

definition accounted ::
  "(string + chunk_task_output) list \<Rightarrow> (string + chunk_task_output) list \<Rightarrow> task_acc \<Rightarrow> bool" where
  "accounted spawned ts acc \<longleftrightarrow>
     (ta_first_es_err acc = None \<longrightarrow> ta_first_join_err acc = None \<longrightarrow>
       (\<forall>t \<in> set spawned. t \<in> set ts \<or> (\<exists>s c r. t = Inr (s, c, Inr r) \<and> (s, c, r) \<in> set (ta_outcomes acc))))"

lemma record_task_result_err:
  assumes "ta_first_es_err (record_task_result t acc) = None" and "ta_first_join_err (record_task_result t acc) = None"
  obtains s c r where "t = Inr (s, c, Inr r)" "ta_first_es_err acc = None" "ta_first_join_err acc = None"
    "ta_outcomes (record_task_result t acc) = ta_outcomes acc @ [(s, c, r)]"
  using assms by (auto simp: record_task_result_def Let_def split: sum.splits prod.splits if_splits option.splits)

lemma accounted_record:
  assumes acc: "accounted spawned ts acc" and i: "i < length ts"
  shows "accounted spawned (take i ts @ drop (Suc i) ts) (record_task_result (ts ! i) acc)"
  unfolding accounted_def
proof (intro impI ballI)
  assume none: "ta_first_es_err (record_task_result (ts ! i) acc) = None" "ta_first_join_err (record_task_result (ts ! i) acc) = None"
  fix t assume t: "t \<in> set spawned"
  obtain s c r where ok: "ts ! i = Inr (s, c, Inr r)" "ta_first_es_err acc = None" "ta_first_join_err acc = None"
    "ta_outcomes (record_task_result (ts ! i) acc) = ta_outcomes acc @ [(s, c, r)]"
    using record_task_result_err [OF none] .
  have "set ts = insert (ts ! i) (set (take i ts @ drop (Suc i) ts))"
    using id_take_nth_drop [OF i] by (metis Un_insert_right list.simps(15) set_append)
  then show "t \<in> set (take i ts @ drop (Suc i) ts) \<or>
      (\<exists>s c r. t = Inr (s, c, Inr r) \<and> (s, c, r) \<in> set (ta_outcomes (record_task_result (ts ! i) acc)))"
    using acc t ok unfolding accounted_def by fastforce
qed

lemma accounted_join: "accounted spawned ts acc \<Longrightarrow> join_tasks ks ts acc = (ts', acc') \<Longrightarrow> accounted spawned ts' acc'"
proof (induction ks ts acc rule: join_tasks.induct)
  case (2 k ks ts acc)
  show ?case
  proof (cases "ts = []")
    case False
    then show ?thesis using 2 accounted_record [of spawned ts acc "k mod length ts"] by (simp add: Let_def)
  qed (use 2 in simp)
qed simp

lemma join_tasks_all: "length ts \<le> length ks \<Longrightarrow> fst (join_tasks ks ts acc) = []"
proof (induction ks ts acc rule: join_tasks.induct)
  case (2 k ks ts acc)
  show ?case
  proof (cases "ts = []")
    case False
    then obtain i where i: "k mod length ts = i" "i < length ts" using mod_less_divisor by blast
    have "length (take i ts @ drop (Suc i) ts) \<le> length ks" using 2(2) i(2) by simp
    then show ?thesis using 2(1) False i by (simp add: Let_def)
  qed simp
qed simp

lemma accounted_dispatch_all:
  assumes "\<forall>c \<in> set chunks. bc_payload c \<noteq> [] \<and> bc_row_count c \<noteq> 0"
  shows "accounted spawned ts acc \<Longrightarrow> dispatch_all envs client ds i chunks ts acc = (Inr u, ts', acc') \<Longrightarrow>
    accounted (spawned @ map (\<lambda>k. run_task (envs (i + k)) client ds (chunks ! k)) [0..<length chunks]) ts' acc'"
  using assms
proof (induction chunks arbitrary: i ts acc spawned)
  case (Cons chunk chunks)
  let ?t = "run_task (envs i) client ds chunk"
  obtain ts1 acc1 where j: "join_tasks (de_picks (envs i)) ts acc = (ts1, acc1)" by force
  have step: "dispatch (envs i) client ds chunk ts acc = (Inr (), ts1 @ [?t], acc1)"
    "dispatch_all envs client ds (Suc i) chunks (ts1 @ [?t]) acc1 = (Inr u, ts', acc')"
    using Cons.prems(2,3) j by (auto simp: dispatch_def split: option.splits)
  have "accounted (spawned @ [?t]) (ts1 @ [?t]) acc1"
    using accounted_join [OF Cons.prems(1) j] by (auto simp: accounted_def)
  then have "accounted ((spawned @ [?t]) @ map (\<lambda>k. run_task (envs (Suc i + k)) client ds (chunks ! k)) [0..<length chunks]) ts' acc'"
    by (rule Cons.IH [OF _ step(2)]) (use Cons.prems(3) in simp)
  moreover have "map (\<lambda>k. run_task (envs (i + k)) client ds ((chunk # chunks) ! k)) [0..<length (chunk # chunks)] =
    ?t # map (\<lambda>k. run_task (envs (Suc i + k)) client ds (chunks ! k)) [0..<length chunks]"
    by (simp add: upt_conv_Cons map_Suc_upt [symmetric] del: upt_Suc)
  ultimately show ?case by simp
qed simp

text \<open>Without an error, every chunk has been sent with success and its response is among the outcomes.\<close>

lemma all_chunks_answered:
  assumes ne: "\<forall>c \<in> set chunks. bc_payload c \<noteq> [] \<and> bc_row_count c \<noteq> 0"
    and run: "dispatch_all envs client ds 0 chunks [] \<lparr>ta_outcomes = [], ta_first_es_err = None, ta_first_join_err = None\<rparr> = (Inr u, ts, acc)"
    and none: "ta_first_es_err (drain_join_set order ts acc) = None" "ta_first_join_err (drain_join_set order ts acc) = None"
    and k: "k < length chunks"
  obtains resp where "fst (send_bulk (de_net (envs k)) ds (bc_payload (chunks ! k)) client) = Inr resp"
    "(bc_start_row (chunks ! k), bc_row_count (chunks ! k), resp) \<in> set (ta_outcomes (drain_join_set order ts acc))"
proof -
  obtain acc2 where drain: "join_tasks (map order [0..<length ts]) ts acc = ([], acc2)"
    using join_tasks_all [of ts "map order [0..<length ts]" acc] by (metis length_map length_upt diff_zero order_refl prod.collapse)
  have acc2: "drain_join_set order ts acc = acc2" by (simp add: drain_join_set_def drain)
  have "accounted (map (\<lambda>k. run_task (envs k) client ds (chunks ! k)) [0..<length chunks]) ts acc"
    using accounted_dispatch_all [OF ne _ run, of "[]"] by (simp add: accounted_def)
  then have "accounted (map (\<lambda>k. run_task (envs k) client ds (chunks ! k)) [0..<length chunks]) [] acc2"
    by (rule accounted_join [OF _ drain])
  then obtain s c r where "run_task (envs k) client ds (chunks ! k) = Inr (s, c, Inr r)" "(s, c, r) \<in> set (ta_outcomes acc2)"
    using none k unfolding acc2 accounted_def by fastforce
  then show thesis using that [of r] by (auto simp: run_task_def acc2 split: option.splits)
qed

section \<open>What an acknowledgement means\<close>

fun is_terminal :: "'b lease_call \<Rightarrow> bool" where
  "is_terminal (QuarantineCall _) = False"
| "is_terminal (NackCall _) = True"
| "is_terminal AckCall = True"

definition settled_once :: "'b lease_call list \<Rightarrow> bool" where
  "settled_once calls \<longleftrightarrow> calls \<noteq> [] \<and> is_terminal (last calls) \<and> list_all (\<lambda>c. \<not> is_terminal c) (butlast calls)"

definition quarantined_in :: "'b lease_call list \<Rightarrow> 'b \<Rightarrow> bool" where
  "quarantined_in calls b \<longleftrightarrow> (\<exists>bs. QuarantineCall bs \<in> set calls \<and> b \<in> set bs)"

lemma settle_ack_calls: "settle_ack env le st = (res, calls, st') \<Longrightarrow> calls = [AckCall]"
  by (auto simp: settle_ack_def split: prod.splits)

lemma settle_fatal_calls: "settle_fatal ao env e le st = (res, calls, st') \<Longrightarrow> calls = [NackCall (Fatal (error_text e))]"
  by (auto simp: settle_fatal_def split: prod.splits)

lemma settle_rejects_calls:
  assumes "settle_rejects ao env rejects le st = (res, calls, st')"
  shows "settled_once calls \<and> (AckCall \<in> set calls \<longrightarrow> (\<forall>why b. (why, Some b) \<in> set rejects \<longrightarrow> quarantined_in calls b))"
proof -
  let ?slices = "List.map_filter snd rejects"
  have mem: "b \<in> set ?slices" if "(why, Some b) \<in> set rejects" for why b
    using that by (force simp: List.map_filter_def)
  show ?thesis
  proof (cases "?slices = []")
    case True
    then have "calls = [AckCall]" using assms settle_ack_calls by (auto simp: settle_rejects_def Let_def)
    then show ?thesis using True mem by (fastforce simp: settled_once_def)
  next
    case False
    then have "calls = [QuarantineCall ?slices, AckCall] \<or> (\<exists>e. calls = [QuarantineCall ?slices, NackCall e])"
      using assms by (auto simp: settle_rejects_def Let_def dest!: settle_ack_calls settle_fatal_calls split: prod.splits sum.splits)
    then show ?thesis using mem by (auto simp: settled_once_def quarantined_in_def)
  qed
qed

lemma settle_outcomes_calls:
  assumes "settle_outcomes ao env m b over acc le st = (res, calls, st')"
  shows "settled_once calls \<and>
    (AckCall \<in> set calls \<longrightarrow> ta_first_join_err acc = None \<and> ta_first_es_err acc = None \<and>
       (\<forall>(_, _, resp) \<in> set (ta_outcomes acc). recoverable_count resp = 0) \<and>
       (\<forall>why x. (why, Some x) \<in> set (oversized_rejects ao m b over @ item_rejects ao b (sort_key fst (ta_outcomes acc))) \<longrightarrow>
          quarantined_in calls x))"
proof (cases "ta_first_join_err acc = None \<and> ta_first_es_err acc = None \<and>
    \<not> list_ex (\<lambda>(_, _, resp). recoverable_count resp > 0) (sort_key fst (ta_outcomes acc))")
  case True
  then have "settle_rejects ao env (oversized_rejects ao m b over @ item_rejects ao b (sort_key fst (ta_outcomes acc))) le st = (res, calls, st')"
    using assms by (simp add: settle_outcomes_def Let_def)
  from settle_rejects_calls [OF this] show ?thesis using True by (auto simp: list_ex_iff)
next
  case False
  then have "\<exists>c. calls = [NackCall c]"
    using assms by (auto simp: settle_outcomes_def Let_def dest!: settle_fatal_calls split: option.splits prod.splits sum.splits if_splits)
  then show ?thesis by (auto simp: settled_once_def)
qed

lemma item_rejects_row:
  assumes "(s, c, resp) \<in> set outcomes" and "j < length (br_items resp)" and "is_unrecoverable (br_items resp ! j)" and "j < c"
    and "s + j < ao_num_rows ao b" and "ao_num_rows ao b \<le> u64_max"
  shows "\<exists>why. (why, Some (ao_slice ao b (s + j) 1)) \<in> set (item_rejects ao b outcomes)"
proof -
  have sat: "sat_add s j = s + j" using assms(5,6) by (simp add: sat_add_def)
  have "(j, br_items resp ! j) \<in> set (filter (\<lambda>(_, w). is_unrecoverable w) (enumerate 0 (br_items resp)))"
    using assms(2,3) by (simp add: in_set_enumerate_eq)
  then have "(item_reason (br_items resp ! j), Some (ao_slice ao b (s + j) 1)) \<in> set (item_rejects ao b outcomes)"
    using assms(1,4,5) sat unfolding item_rejects_def set_concat set_map
    by (intro UN_I [OF imageI [OF assms(1)]]) (auto intro!: rev_image_eqI)
  then show ?thesis by blast
qed

section \<open>Properties\<close>

text \<open>The run of the task that sends chunk \<open>k\<close>, and what it shows of a row: the cluster took it.\<close>

definition chunk_run ::
  "('b, 's) lease_env \<Rightarrow> string \<Rightarrow> HttpClient \<Rightarrow> BulkChunk list \<Rightarrow> nat \<Rightarrow>
   (ElasticsearchError + BulkResponse) \<times> HttpClient \<times> es_event list" where
  "chunk_run env data_stream client chunks k =
     send_bulk (de_net (pl_dispatch env k)) data_stream (bc_payload (chunks ! k)) client"

definition row_accepted ::
  "('b, 's) lease_env \<Rightarrow> string \<Rightarrow> HttpClient \<Rightarrow> BulkChunk list \<Rightarrow> nat \<Rightarrow> bool" where
  "row_accepted env data_stream client chunks row \<longleftrightarrow>
     (\<exists>k < length chunks. row \<in> set (chunk_range (chunks ! k)) \<and>
        (\<exists>w. verdicts Map.empty [0..<bc_row_count (chunks ! k)] (exchanges (snd (snd (chunk_run env data_stream client chunks k))))
               (row - bc_start_row (chunks ! k)) = Some w \<and> \<not> is_recoverable w \<and> \<not> is_unrecoverable w))"

lemma prepare_applies: "prepare ao rd jk files config f le = Inr x \<Longrightarrow> \<exists>b. f b = Inr x"
  by (auto simp: prepare_def try_bind_Inr split: if_splits)

lemma prepare_chunks_cases:
  assumes "prepare_chunks so ao eo sorter sig u m batch = Inr (b, chunks, over)"
  shows "(ao_num_rows ao b = 0 \<and> chunks = [] \<and> over = []) \<or> serialize_batch_chunks_internal eo b u m = Inr (chunks, over)"
  using assms
  by (auto simp: prepare_chunks_def try_bind_Inr serialize_batch_chunks_with_oversized_def map_es_def split: if_splits sum.splits)

text \<open>
  What the sink relies on of the client that sends a payload: a successful response has one item per
  document, and each is the last answer the cluster gave for that document. From this follows what
  the response says of every row of a chunk.
\<close>

locale document_sender =
  fixes send :: "'n \<Rightarrow> string \<Rightarrow> byte list \<Rightarrow> 'c \<Rightarrow> (ElasticsearchError + BulkResponse) \<times> 'c \<times> es_event list"
  assumes item_per_document: "\<And>rs. \<forall>r \<in> set rs. record_ok r \<Longrightarrow> rs \<noteq> [] \<Longrightarrow> send net ds (concat rs) c = (Inr out, c', log) \<Longrightarrow>
      one_item_per_document (exchanges log) \<Longrightarrow> length (br_items out) = length rs"
    and last_answer: "\<And>rs. \<forall>r \<in> set rs. record_ok r \<Longrightarrow> rs \<noteq> [] \<Longrightarrow> send net ds (concat rs) c = (Inr out, c', log) \<Longrightarrow>
      one_item_per_document (exchanges log) \<Longrightarrow> i < length rs \<Longrightarrow>
      verdicts Map.empty [0..<length rs] (exchanges log) i = Some (br_items out ! i)"
begin

lemma chunk_answers:
  assumes ser: "serialize_batch_chunks_internal eo b u m = Inr (chunks, over)"
    and size: "eo_num_rows eo b \<le> u64_max" "m < u64_max" and ok: "es_ops_ok eo" "names_ok eo b"
    and c: "c \<in> set chunks" and row: "row \<in> set (chunk_range c)"
    and run: "send net ds (bc_payload c) client = (Inr resp, client', log)" and honest: "one_item_per_document (exchanges log)"
  defines "j \<equiv> row - bc_start_row c"
  shows "j < bc_row_count c" and "length (br_items resp) = bc_row_count c"
    and "verdicts Map.empty [0..<bc_row_count c] (exchanges log) j = Some (br_items resp ! j)"
proof -
  let ?rcd = "the_record eo b u"
  let ?rs = "map ?rcd (chunk_range c)"
  note parts = the_chunks [OF ser size]
  have payload: "bc_row_count c > 0" "bc_payload c = concat ?rs" using parts c by auto
  have len: "length ?rs = bc_row_count c" by (simp add: chunk_range_def)
  have "row' < eo_num_rows eo b" if "row' \<in> set (chunk_range c)" for row'
  proof -
    have "row' \<in> set (concat (map chunk_range chunks))" using that c by auto
    then show ?thesis using parts by auto
  qed
  then have "bulk_record eo b u row' = Inr (?rcd row')" if "row' \<in> set (chunk_range c)" for row' using parts that by blast
  then have recs: "\<forall>r \<in> set ?rs. record_ok r" using bulk_record_ok [OF ok] by fastforce
  have ne: "?rs \<noteq> []" using len payload(1) by auto
  note send = run [unfolded payload(2)]
  show lt: "j < bc_row_count c" using row by (auto simp: j_def chunk_range_def)
  show "length (br_items resp) = bc_row_count c" using item_per_document [OF recs ne send honest] len by simp
  show "verdicts Map.empty [0..<bc_row_count c] (exchanges log) j = Some (br_items resp ! j)"
    using last_answer [OF recs ne send honest, of j] len lt by simp
qed

end

interpretation es: document_sender send_bulk
  by unfold_locales (blast intro: send_bulk_items)+

lemma outcome_accounts_row:
  assumes ser: "serialize_batch_chunks_internal eo b u m = Inr (chunks, over)"
    and size: "eo_num_rows eo b \<le> u64_max" "m < u64_max" "eo_num_rows eo b = ao_num_rows ao b" and ok: "es_ops_ok eo" "names_ok eo b"
    and k: "k < length chunks" "row \<in> set (chunk_range (chunks ! k))" and row: "row < ao_num_rows ao b"
    and run: "fst (chunk_run env ds client chunks k) = Inr resp"
    and honest: "one_item_per_document (exchanges (snd (snd (chunk_run env ds client chunks k))))"
    and out: "(bc_start_row (chunks ! k), bc_row_count (chunks ! k), resp) \<in> set outcomes" "recoverable_count resp = 0"
    and q: "\<And>why x. (why, Some x) \<in> set (item_rejects ao b outcomes) \<Longrightarrow> quarantined_in calls x"
  shows "quarantined_in calls (ao_slice ao b row 1) \<or> row_accepted env ds client chunks row"
proof -
  let ?j = "row - bc_start_row (chunks ! k)"
  obtain c' log where r: "chunk_run env ds client chunks k = (Inr resp, c', log)" using run by (metis prod.collapse)
  then have send: "send_bulk (de_net (pl_dispatch env k)) ds (bc_payload (chunks ! k)) client = (Inr resp, c', log)"
    by (simp add: chunk_run_def)
  have log: "exchanges (snd (snd (chunk_run env ds client chunks k))) = exchanges log" by (simp add: r)
  note v = es.chunk_answers [OF ser size(1,2) ok nth_mem [OF k(1)] k(2) send honest [unfolded log], folded log]
  have at: "bc_start_row (chunks ! k) + ?j = row" using k(2) by (auto simp: chunk_range_def)
  have "br_items resp ! ?j \<in> set (br_items resp)" using v(1,2) by simp
  then have rec: "\<not> is_recoverable (br_items resp ! ?j)" using out(2) by (auto simp: recoverable_count_def filter_empty_conv)
  show ?thesis
  proof (cases "is_unrecoverable (br_items resp ! ?j)")
    case True
    then have "\<exists>why. (why, Some (ao_slice ao b (bc_start_row (chunks ! k) + ?j) 1)) \<in> set (item_rejects ao b outcomes)"
      by (intro item_rejects_row [OF out(1)]) (use v(1,2) row at size in simp_all)
    then show ?thesis using q at by auto
  next
    case False
    then show ?thesis using v(3) rec k unfolding row_accepted_def by blast
  qed
qed

text \<open>The rows of a lease whose chunks have all been dispatched and joined.\<close>

lemma dispatched_rows_accounted:
  assumes ser: "serialize_batch_chunks_internal eo b u m = Inr (chunks, over)"
    and size: "eo_num_rows eo b \<le> u64_max" "m < u64_max" "eo_num_rows eo b = ao_num_rows ao b" and ok: "es_ops_ok eo" "names_ok eo b"
    and disp: "dispatch_all (pl_dispatch env) client ds 0 chunks []
        \<lparr>ta_outcomes = [], ta_first_es_err = None, ta_first_join_err = None\<rparr> = (Inr uu, ts, acc)"
    and run: "settle_outcomes ao env m b over (drain_join_set (pl_drain env) ts acc) le st = (res, calls, st')"
    and honest: "\<forall>k < length chunks. one_item_per_document (exchanges (snd (snd (chunk_run env ds client chunks k))))"
    and ack: "AckCall \<in> set calls"
    and k: "k < length chunks" "row \<in> set (chunk_range (chunks ! k))" and row: "row < ao_num_rows ao b"
  shows "quarantined_in calls (ao_slice ao b row 1) \<or> row_accepted env ds client chunks row"
proof -
  let ?acc = "drain_join_set (pl_drain env) ts acc"
  note calls = settle_outcomes_calls [OF run]
  have ne: "\<forall>c \<in> set chunks. bc_payload c \<noteq> [] \<and> bc_row_count c \<noteq> 0"
    using chunk_payload_nonempty [OF ser size(1,2)] by blast
  obtain resp where resp: "fst (chunk_run env ds client chunks k) = Inr resp"
    "(bc_start_row (chunks ! k), bc_row_count (chunks ! k), resp) \<in> set (ta_outcomes ?acc)"
    using all_chunks_answered [OF ne disp _ _ k(1)] calls ack unfolding chunk_run_def by metis
  have out: "(bc_start_row (chunks ! k), bc_row_count (chunks ! k), resp) \<in> set (sort_key fst (ta_outcomes ?acc))"
    "recoverable_count resp = 0" using resp(2) calls ack by auto
  have q: "quarantined_in calls x" if "(why, Some x) \<in> set (item_rejects ao b (sort_key fst (ta_outcomes ?acc)))" for why x
    using calls ack that by auto
  have "one_item_per_document (exchanges (snd (snd (chunk_run env ds client chunks k))))" using honest k(1) by blast
  from outcome_accounts_row [OF ser size ok k row resp(1) this out q] show ?thesis .
qed

text \<open>A row is in a chunk, or among those that are too large.\<close>

lemma row_placed:
  assumes ser: "serialize_batch_chunks_internal eo b u m = Inr (chunks, over)"
    and size: "eo_num_rows eo b \<le> u64_max" "m < u64_max" "eo_num_rows eo b = ao_num_rows ao b" and row: "row < ao_num_rows ao b"
  obtains (oversized) why where "(why, Some (ao_slice ao b row 1)) \<in> set (oversized_rejects ao m b over)"
    | (chunk) k where "k < length chunks" "row \<in> set (chunk_range (chunks ! k))"
proof -
  note parts = the_chunks [OF ser size(1,2)]
  show thesis
  proof (cases "m < length (the_record eo b u row)")
    case True
    then show thesis using oversized parts row size(3) by (force simp: oversized_rejects_def)
  next
    case False
    then have "row \<in> set (concat (map chunk_range chunks))" using parts row size(3) by auto
    then obtain c where "c \<in> set chunks" "row \<in> set (chunk_range c)" by auto
    then show thesis using chunk by (metis in_set_conv_nth)
  qed
qed


text \<open>A lease of one row, and a cluster that takes it.\<close>

definition byte_rows :: "byte list es_ops" where
  "byte_rows = \<lparr>eo_num_rows = length, eo_fields = (\<lambda>_. [([109], Utf8Type)]), eo_array_type = (\<lambda>_ _. Utf8Type),
     eo_cell = (\<lambda>b _ r. if r < length b then Some (TextValue [b ! r]) else None), eo_display = (\<lambda>_ _ _. Inl []),
     eo_format_timestamp = (\<lambda>_ _. None), eo_itoa = (\<lambda>_. []), eo_reprint_json = (\<lambda>_. None)\<rparr>"

definition unsorted :: "(byte list, unit, unit) sort_ops" where
  "unsorted = \<lparr>so_num_rows = length, so_schema = (\<lambda>_. ()), so_columns = (\<lambda>_. []), so_column_by_name = (\<lambda>_ _. None),
     so_lexsort_to_indices = (\<lambda>_. Inr []), so_take = (\<lambda>_ _. Inr ()), so_try_new = (\<lambda>_ _. Inr [])\<rparr>"

definition no_sorter :: BatchSorter where
  "no_sorter = \<lparr>bs_on_missing_column = Skip, bs_logs_keys = [], bs_metrics_keys = [], bs_traces_keys = []\<rparr>"

definition kind_cluster :: es_net where
  "kind_cluster = busy_cluster\<lparr>en_send := (\<lambda>_ _. Inr (busy_reply 1))\<rparr>"

definition row_env :: "(byte list, unit) lease_env" where
  "row_env = \<lparr>pl_reads = (\<lambda>_. (True, [])), pl_prepare_join_ok = True, pl_files = Map.empty,
     pl_dispatch = (\<lambda>_. \<lparr>de_picks = [], de_permit = None, de_panic = None, de_net = kind_cluster\<rparr>), pl_drain = id, pl_meanwhile = id,
     pl_clock = \<lparr>clk_now = 0, clk_unix_ms = 0\<rparr>, pl_ack_reply = Replied (Inr ()),
     pl_nack = \<lparr>ni_reads = (\<lambda>_. (True, [])), ni_files = Map.empty, ni_dead = demo_dl_io, ni_join_ok = True, ni_reply = Replied (Inr ())\<rparr>,
     pl_to_json = (\<lambda>_. []), pl_dead_io = demo_dl_io, pl_quarantine_join_ok = True\<rparr>"

definition row_lease :: "(byte list, unit) Lease" where
  "row_lease = \<lparr>le_id = \<lparr>li_instance_id = 0, li_signal = Logs, li_first_seq = 1, li_last_seq = 1\<rparr>, le_batches = [[97]],
     le_payloads = [InMemory [97]], le_meta = [], le_num_rows = 1, le_quarantined_rows = 0, le_byte_size = 1, le_attempt = 0,
     le_leased_at = 0, le_completed = False\<rparr>"

definition row_chunk :: BulkChunk where
  "row_chunk = \<lparr>bc_start_row = 0, bc_row_count = 1, bc_payload = the_record byte_rows [97] False 0\<rparr>"

lemma byte_rows_record:
  "bulk_record byte_rows [97] False 0 = Inr (the_record byte_rows [97] False 0)"
  "length (the_record byte_rows [97] False 0) = 24"
  by (simp_all add: the_record_def bulk_record_def byte_rows_def write_value_def downcast_def write_string_col_def
      BULK_ACTION_def ascii_def output_name_def write_escaped_string_def escape_byte.simps)

lemma row_chunk_serialized: "serialize_batch_chunks_internal byte_rows [97] False 100 = Inr ([row_chunk], [])"
proof -
  have "the_record byte_rows [97] False 0 \<noteq> []" using byte_rows_record(2) by auto
  moreover have "eo_num_rows byte_rows [97] = 1" by (simp add: byte_rows_def)
  ultimately show ?thesis using byte_rows_record
    by (simp add: serialize_batch_chunks_internal_def add_record_def seal_chunk_def Let_def sat_add_def u64_max_def row_chunk_def)
qed

lemma kind_cluster_run:
  "send_bulk kind_cluster ds payload one_node =
     (Inr \<lparr>br_took = 2, br_errors = False, br_items = [item_with 201]\<rparr>, one_node, [Exchange ''http://a'' payload (Inr (busy_reply 1))])"
proof -
  have "next_endpoint now (share kind_cluster a one_node) = (''http://a'', one_node)" for now a
    by (simp add: next_endpoint_def share_def kind_cluster_def busy_cluster_def one_node_def endpoint_at_def)
  moreover have "post_bulk_request kind_cluster a one_node e d payload = Inr (busy_reply 1)" for a e d
    by (simp add: post_bulk_request_def one_node_def apply_auth_request_def kind_cluster_def)
  ultimately show ?thesis
    by (simp add: send_bulk_def send_loop.simps send_turn_def busy_reply_def is_transient_http_status_def check_bulk_status_def
        is_success_def bulk_answer_def)
qed

lemma row_lease_prepared:
  "prepare byte_ops (pl_reads row_env) (pl_prepare_join_ok row_env) (pl_files row_env) config
     (prepare_chunks unsorted byte_ops byte_rows no_sorter Logs False 100) row_lease = Inr ([97], [row_chunk], [])"
proof -
  have "sort_batch unsorted no_sorter [97] Logs = Inr [97]"
    by (simp add: sort_batch_def sort_with_extra_lead_column_def unsorted_def)
  moreover have "ao_num_rows byte_ops [97] = 1" by (simp add: byte_ops_def)
  ultimately show ?thesis
    by (simp add: prepare_def row_lease_def row_env_def prepare_chunks_def serialize_batch_chunks_with_oversized_def
        map_es_def row_chunk_serialized)
qed

lemma row_lease_acked:
  "AckCall \<in> set (fst (snd (process_lease unsorted byte_ops byte_rows row_env ''logs'' one_node no_sorter False 100 row_lease st)))"
proof -
  let ?p = "process_lease unsorted byte_ops byte_rows row_env ''logs'' one_node no_sorter False 100 row_lease st"
  have ne: "bc_payload row_chunk \<noteq> []" "bc_row_count row_chunk = 1" using byte_rows_record(2) by (auto simp: row_chunk_def)
  have lease: "le_num_rows row_lease = 1" "li_signal (le_id row_lease) = Logs" by (simp_all add: row_lease_def)
  have env: "pl_dispatch row_env k = \<lparr>de_picks = [], de_permit = None, de_panic = None, de_net = kind_cluster\<rparr>" for k
    by (simp add: row_env_def)
  have none: "List.map_filter snd (oversized_rejects byte_ops 100 [97] [] @
      item_rejects byte_ops [97] [(0, 1, \<lparr>br_took = 2, br_errors = False, br_items = [item_with 201]\<rparr>)]) = []"
    by (simp add: oversized_rejects_def item_rejects_def item_with_status List.map_filter_def)
  have "?p = settle_ack row_env row_lease (pl_meanwhile row_env st)"
    using ne none row_lease_prepared [of "in_config (pl_meanwhile row_env st)"]
    by (simp add: process_lease_def lease Let_def dispatch_def run_task_def env kind_cluster_run drain_join_set_def
        record_task_result_def settle_outcomes_def settle_rejects_def recoverable_count_def item_with_status row_chunk_def)
  then show ?thesis using settle_ack_calls by (metis list.set_intros(1) prod.collapse)
qed


end
