(* ===== verification/EsConfig.thy ===== *)
theory EsConfig
  imports EsStartup EsSink
begin

text \<open>
  Configuration and life cycle of the Elasticsearch sink: \<open>crates/elasticsearch-sink/src/config.rs\<close>, the TLS settings of
  \<open>crates/core/src/tls.rs\<close>, and from \<open>lib.rs\<close> the construction, the startup validation and the loop of \<open>run\<close>.
\<close>

section \<open>TLS\<close>

datatype TlsVerificationMode = Full | Disabled

record TlsConfig =
  tls_ca_cert_path :: "string option"
  tls_verification :: TlsVerificationMode
  tls_insecure_skip_verify :: "bool option"

definition is_insecure :: "TlsConfig \<Rightarrow> bool" where
  "is_insecure t =
     (case tls_insecure_skip_verify t of
        Some insecure \<Rightarrow> insecure \<or> tls_verification t = Disabled
      | None \<Rightarrow> tls_verification t = Disabled)"

definition tls_validate :: "(string \<Rightarrow> bool) \<Rightarrow> TlsConfig \<Rightarrow> unit result" where
  "tls_validate is_file t =
     (if is_insecure t then Inl (Configuration ''disabling TLS certificate verification is prohibited'')
      else case tls_ca_cert_path t of
             Some path \<Rightarrow> if is_file path then Inr () else Inl (Configuration ''CA certificate file not found'')
           | None \<Rightarrow> Inr ())"

section \<open>The configuration\<close>

record DataStreamMapping =
  dsm_logs :: string
  dsm_metrics :: string
  dsm_traces :: string

record ElasticsearchBatchingConfig =
  eb_max_batch_size_bytes :: nat
  eb_max_batch_interval_sec :: nat
  eb_max_batch_records :: nat

record ElasticsearchSinkConfig =
  ec_endpoints :: "string list"
  ec_auth :: ElasticsearchAuthConfig
  ec_data_streams :: DataStreamMapping
  ec_tls :: TlsConfig
  ec_unpack_attributes :: bool
  ec_gzip_compression :: bool
  ec_max_concurrent_requests :: nat
  ec_max_payload_bytes :: nat
  ec_connect_timeout_secs :: nat
  ec_request_timeout_secs :: nat
  ec_max_retries :: nat
  ec_retry_interval_secs :: nat
  ec_validate_on_startup :: bool
  ec_buffer :: "BufferConfig option"
  ec_batching :: "ElasticsearchBatchingConfig option"
  ec_order_by :: "SortConfig option"

definition resolved_buffer_config :: "ElasticsearchSinkConfig \<Rightarrow> BufferConfig result" where
  "resolved_buffer_config c =
     (let legacy = map_option (\<lambda>b. \<lparr>lb_max_batch_size_bytes = eb_max_batch_size_bytes b,
                       lb_max_batch_records = Some (eb_max_batch_records b),
                       lb_max_batch_interval_sec = eb_max_batch_interval_sec b\<rparr>) (ec_batching c)
      in try_bind (resolve (ec_buffer c) legacy True) (\<lambda>cfg.
           if ec_buffer c = None
           then let cfg1 = ensure_min_buffer_bytes (cfg\<lparr>max_inflight_leases := ec_max_concurrent_requests c\<rparr>)
                in try_bind (validate cfg1) (\<lambda>_. Inr cfg1)
           else Inr cfg))"

fun check_endpoints :: "(string \<Rightarrow> bool) \<Rightarrow> string list \<Rightarrow> ElasticsearchError + unit" where
  "check_endpoints url_ok [] = Inr ()"
| "check_endpoints url_ok (ep # eps) =
     (let trimmed = strip_end_slashes (trim ep)
      in if trimmed = [] then Inl (StartupValidation ''endpoint URL cannot be empty'')
         else if \<not> starts_with ''http://'' trimmed \<and> \<not> starts_with ''https://'' trimmed
         then Inl (StartupValidation (''endpoint '' @ quoted ep @ '' must start with http:// or https://''))
         else if \<not> url_ok trimmed then Inl (StartupValidation (''endpoint '' @ quoted ep @ '' is not a valid URL''))
         else check_endpoints url_ok eps)"

definition as_startup :: "'a result \<Rightarrow> ElasticsearchError + 'a" where
  "as_startup r = (case r of Inl e \<Rightarrow> Inl (StartupValidation (error_text e)) | Inr x \<Rightarrow> Inr x)"

definition check_batching :: "ElasticsearchBatchingConfig option \<Rightarrow> ElasticsearchError + unit" where
  "check_batching batching =
     (case batching of
        None \<Rightarrow> Inr ()
      | Some b \<Rightarrow>
          if eb_max_batch_size_bytes b = 0 then Inl (StartupValidation ''batching.max_batch_size_bytes must be greater than 0'')
          else if eb_max_batch_interval_sec b = 0 then Inl (StartupValidation ''batching.max_batch_interval_sec must be greater than 0'')
          else if eb_max_batch_records b = 0 then Inl (StartupValidation ''batching.max_batch_records must be greater than 0'')
          else Inr ())"

definition es_validate :: "(string \<Rightarrow> bool) \<Rightarrow> (string \<Rightarrow> bool) \<Rightarrow> ElasticsearchSinkConfig \<Rightarrow> ElasticsearchError + unit" where
  "es_validate url_ok is_file c =
     (if ec_endpoints c = [] then Inl (StartupValidation ''at least one endpoint must be configured'')
      else
        try_bind (check_endpoints url_ok (ec_endpoints c)) (\<lambda>_.
          if ec_max_concurrent_requests c = 0 then Inl (StartupValidation ''max_concurrent_requests must be greater than 0'')
          else if ec_max_payload_bytes c = 0 then Inl (StartupValidation ''max_payload_bytes must be greater than 0'')
          else if trim (dsm_logs (ec_data_streams c)) = [] \<or> trim (dsm_metrics (ec_data_streams c)) = [] \<or>
                  trim (dsm_traces (ec_data_streams c)) = []
          then Inl (StartupValidation ''data stream names for logs, metrics, and traces must not be empty'')
          else
            try_bind (check_batching (ec_batching c)) (\<lambda>_.
            try_bind (as_startup (tls_validate is_file (ec_tls c))) (\<lambda>_.
            try_bind (as_startup (resolved_buffer_config c)) (\<lambda>_. Inr ())))))"

section \<open>Construction\<close>

text \<open>Reading and parsing the certificate and building the connection pool are calls of libraries.\<close>

record es_setup =
  es_read_file :: "string \<Rightarrow> string + byte list"
  es_from_pem :: "byte list \<Rightarrow> string + unit"
  es_build :: "string + unit"

definition client_try_new :: "es_setup \<Rightarrow> ElasticsearchSinkConfig \<Rightarrow> ElasticsearchError + HttpClient" where
  "client_try_new lib c =
     (let endpoints = map (\<lambda>ep. strip_end_slashes (trim ep)) (ec_endpoints c);
          http = (\<lambda>r. case r of Inl e \<Rightarrow> Inl (Http e) | Inr x \<Rightarrow> Inr x)
      in if ec_endpoints c = [] then Inl (StartupValidation ''at least one endpoint must be configured'')
         else if list_ex (\<lambda>ep. ep = []) endpoints then Inl (StartupValidation ''endpoint URL cannot be empty'')
         else if is_insecure (ec_tls c) then Inl (StartupValidation ''disabling TLS certificate verification is prohibited'')
         else
           try_bind (case tls_ca_cert_path (ec_tls c) of
                       None \<Rightarrow> Inr ()
                     | Some ca_path \<Rightarrow>
                         (case es_read_file lib ca_path of
                            Inl e \<Rightarrow> Inl (StartupValidation (''failed to read CA certificate from '' @ quoted ca_path @ '': '' @ e))
                          | Inr pem_bytes \<Rightarrow> http (es_from_pem lib pem_bytes))) (\<lambda>_.
           try_bind (http (es_build lib)) (\<lambda>_.
             Inr \<lparr>hc_endpoints = endpoints, hc_endpoint_cooldowns = replicate (length endpoints) 0, hc_current_endpoint = 0,
                  hc_auth = ec_auth c, hc_gzip_compression = ec_gzip_compression c, hc_max_retries = ec_max_retries c,
                  hc_retry_interval_secs = ec_retry_interval_secs c\<rparr>)))"

record ElasticsearchSink =
  sk_config :: ElasticsearchSinkConfig
  sk_client :: HttpClient
  sk_sorter :: BatchSorter
  sk_permits :: nat
  sk_validated :: bool

text \<open>\<open>default_sorter\<close> is \<open>BatchSorter::default()\<close>.\<close>

definition sink_try_new ::
  "(string \<Rightarrow> bool) \<Rightarrow> (string \<Rightarrow> bool) \<Rightarrow> es_setup \<Rightarrow> BatchSorter \<Rightarrow> ElasticsearchSinkConfig \<Rightarrow> ElasticsearchSink result" where
  "sink_try_new url_ok is_file lib default_sorter c =
     try_bind (case es_validate url_ok is_file c of Inl e \<Rightarrow> Inl (Internal (es_error_text e)) | Inr _ \<Rightarrow> Inr ()) (\<lambda>_.
     try_bind (map_es (client_try_new lib c)) (\<lambda>client.
     try_bind (case ec_order_by c of Some order_by \<Rightarrow> from_config order_by | None \<Rightarrow> Inr default_sorter) (\<lambda>sorter.
       Inr \<lparr>sk_config = c, sk_client = client, sk_sorter = sorter, sk_permits = ec_max_concurrent_requests c, sk_validated = False\<rparr>)))"

fun data_stream_for :: "ElasticsearchSink \<Rightarrow> SignalKind \<Rightarrow> string" where
  "data_stream_for sk Logs = dsm_logs (ec_data_streams (sk_config sk))"
| "data_stream_for sk Metrics = dsm_metrics (ec_data_streams (sk_config sk))"
| "data_stream_for sk Traces = dsm_traces (ec_data_streams (sk_config sk))"

section \<open>Startup and the loop\<close>

fun validate_streams ::
  "es_net \<Rightarrow> es_admin \<Rightarrow> nat \<Rightarrow> string list \<Rightarrow> HttpClient \<Rightarrow> (ElasticsearchError + unit) \<times> HttpClient" where
  "validate_streams net adm now [] c = (Inr (), c)"
| "validate_streams net adm now (s # ss) c =
     (case validate_index_template net adm now s c of
        (Inl e, c1) \<Rightarrow> (Inl e, c1)
      | (Inr _, c1) \<Rightarrow> validate_streams net adm now ss c1)"

definition validate_startup :: "es_net \<Rightarrow> es_admin \<Rightarrow> nat \<Rightarrow> ElasticsearchSink \<Rightarrow> unit result \<times> ElasticsearchSink" where
  "validate_startup net adm now sk =
     (if \<not> ec_validate_on_startup (sk_config sk) \<or> sk_validated sk then (Inr (), sk)
      else
        case health_check net adm now (sk_client sk) of
          (Inl e, c1) \<Rightarrow> (Inl (to_pipeline_error e), sk\<lparr>sk_client := c1\<rparr>)
        | (Inr _, c1) \<Rightarrow>
            (case validate_streams net adm now (map (data_stream_for sk) [Logs, Metrics, Traces]) c1 of
               (Inl e, c2) \<Rightarrow> (Inl (to_pipeline_error e), sk\<lparr>sk_client := c2\<rparr>)
             | (Inr _, c2) \<Rightarrow> (Inr (), sk\<lparr>sk_client := c2, sk_validated := True\<rparr>)))"

text \<open>
  What \<open>select!\<close> yields: a lease task has ended, or \<open>next_lease\<close> has returned. When the buffer is drained, the
  results of the tasks still running come with it.
\<close>

type_synonym join_outcome = "string + unit result"

datatype 'l run_event = TaskJoined join_outcome | NextLease 'l | BufferDrained "join_outcome list" | BufferFailed PipelineError

definition lease_task_result :: "join_outcome \<Rightarrow> unit result" where
  "lease_task_result j = (case j of Inr r \<Rightarrow> r | Inl e \<Rightarrow> Inl (Internal (''Bulk dispatch task failed: '' @ e)))"

fun drain_lease_tasks_propagating :: "join_outcome list \<Rightarrow> PipelineError option \<Rightarrow> unit result" where
  "drain_lease_tasks_propagating [] first_err = (case first_err of Some e \<Rightarrow> Inl e | None \<Rightarrow> Inr ())"
| "drain_lease_tasks_propagating (j # js) first_err =
     drain_lease_tasks_propagating js
       (case lease_task_result j of Inr _ \<Rightarrow> first_err | Inl e \<Rightarrow> (if first_err = None then Some e else first_err))"

text \<open>The result, once there is one, and the leases given to \<open>process_lease\<close>.\<close>

fun run_loop :: "'l run_event list \<Rightarrow> unit result option \<times> 'l list" where
  "run_loop [] = (None, [])"
| "run_loop (TaskJoined j # evs) = (case lease_task_result j of Inr _ \<Rightarrow> run_loop evs | Inl e \<Rightarrow> (Some (Inl e), []))"
| "run_loop (NextLease l # evs) = (case run_loop evs of (r, ls) \<Rightarrow> (r, l # ls))"
| "run_loop (BufferDrained js # evs) = (Some (drain_lease_tasks_propagating js None), [])"
| "run_loop (BufferFailed e # evs) = (Some (Inl e), [])"

definition sink_run :: "es_net \<Rightarrow> es_admin \<Rightarrow> nat \<Rightarrow> 'l run_event list \<Rightarrow> ElasticsearchSink \<Rightarrow> unit result option \<times> 'l list" where
  "sink_run net adm now evs sk =
     (case validate_startup net adm now sk of
        (Inl e, _) \<Rightarrow> (Some (Inl e), [])
      | (Inr _, _) \<Rightarrow> run_loop evs)"

section \<open>Lemmas\<close>

lemma resolved_buffer_config_validated: "resolved_buffer_config c = Inr cfg \<Longrightarrow> validate cfg = Inr ()"
  by (auto simp: resolved_buffer_config_def try_bind_Inr resolve_def Let_def split: if_splits option.splits)

lemma drain_propagating_ok:
  "drain_lease_tasks_propagating js first_err = Inr () \<longleftrightarrow> first_err = None \<and> list_all (\<lambda>j. lease_task_result j = Inr ()) js"
  by (induction js arbitrary: first_err) (auto split: option.splits sum.splits)

text \<open>The sink ends without an error only when the buffer is drained and no lease task has failed.\<close>

lemma run_loop_ok:
  "fst (run_loop evs) = Some (Inr ()) \<Longrightarrow>
     \<exists>pre js post. evs = pre @ BufferDrained js # post \<and> list_all (\<lambda>j. lease_task_result j = Inr ()) js \<and>
       list_all (\<lambda>e. case e of TaskJoined j \<Rightarrow> lease_task_result j = Inr () | NextLease _ \<Rightarrow> True | _ \<Rightarrow> False) pre"
proof (induction evs rule: run_loop.induct)
  case (2 j evs)
  then obtain pre js post where "evs = pre @ BufferDrained js # post" "list_all (\<lambda>j. lease_task_result j = Inr ()) js"
    "list_all (\<lambda>e. case e of TaskJoined j \<Rightarrow> lease_task_result j = Inr () | NextLease _ \<Rightarrow> True | _ \<Rightarrow> False) pre" "lease_task_result j = Inr ()"
    by (auto split: sum.splits)
  then show ?case by (intro exI [of _ "TaskJoined j # pre"] exI [of _ js] exI [of _ post]) simp
next
  case (3 l evs)
  then obtain pre js post where "evs = pre @ BufferDrained js # post" "list_all (\<lambda>j. lease_task_result j = Inr ()) js"
    "list_all (\<lambda>e. case e of TaskJoined j \<Rightarrow> lease_task_result j = Inr () | NextLease _ \<Rightarrow> True | _ \<Rightarrow> False) pre"
    by (auto split: prod.splits)
  then show ?case by (intro exI [of _ "NextLease l # pre"] exI [of _ js] exI [of _ post]) simp
next
  case (4 js evs)
  then show ?case by (intro exI [of _ "[]"] exI [of _ js] exI [of _ evs]) (simp add: drain_propagating_ok)
qed simp_all

end
