(* ===== verification/Spec2Isabelle.thy ===== *)
theory Spec2Isabelle
  imports Recovery BufferMetrics Fanout WasmGuarantees Dispatcher ParquetRouting EsConfig
begin

text \<open>
  A verification library for the OpenTelemetry data lake collector (the Rust workspace under
  \<open>src/crates\<close>). The collector receives OTLP signals, converts them to Arrow record batches, optionally passes them
  through a WebAssembly transformer, and buffers them, in memory or on disk, in front of every sink. A sink
  takes a batch as a lease, and acknowledges or rejects it. What has not been acknowledged must survive
  restarts of the sink and, in disk mode, of the process. That contract is the core of this library.

  \<^bold>\<open>Conventions.\<close> Rust structs are records, enums datatypes, \<open>Result\<close> is a sum with the error on the left
  (\<open>result\<close> of \<open>Prelude\<close>), and 64-bit counters are natural numbers with the operation the code uses on them:
  \<open>sat_add\<close>, \<open>sat_mul\<close>, \<open>checked_add\<close>, \<open>atomic_add\<close> and so on (\<open>Prelude\<close>). A method with
  \<open>&mut self\<close> takes the state and returns it updated; one call is one atomic step where the code holds the lock
  of the ring for its duration. What the program calls but does not contain (Arrow, the checksum, the file
  system, the clock, Wasmtime, channels of the runtime) is an argument of the definitions: \<open>arrow_ops\<close>, \<open>sort_ops\<close>,
  \<open>array_ops\<close>, \<open>wasm_ops\<close>, and functions giving the outcome of every system call. Theorems that need documented
  behaviour of those name it as a hypothesis and have a witness with a concrete instance.

  \<^bold>\<open>The buffer\<close> (\<open>crates/core/src/buffer\<close>).
  \<^item> \<open>Signals\<close>: signal tags, the typed batch, the error type (\<open>sort.rs\<close>, \<open>pipeline.rs\<close>, \<open>error.rs\<close>).
  \<^item> \<open>BufferConfiguration\<close>: defaults, the two configuration tables and their resolution, \<open>validate\<close> and the derived limits
    (\<open>config.rs\<close>). \<open>validate\<close> is shown to accept exactly the documented configurations.
  \<^item> \<open>SignalRing\<close>: the queue, slot table, counters and watermark of a signal (\<open>memory.rs\<close>). \<open>Ledger\<close> holds its
    invariant and \<open>RingSteps\<close> one preservation lemma per operation.
  \<^item> \<open>BufferMetrics\<close>: counters and gauges (\<open>metrics.rs\<close>).
  \<^item> \<open>Frame\<close>: the on-disk frame format (\<open>disk.rs\<close>): round trip, detection of torn frames, splitting of large batches.
  \<^item> \<open>Decimal\<close> and \<open>Watermark\<close>: segment names, the persisted watermark, its atomic replacement and the garbage
    collection of segments.
  \<^item> \<open>DiskWriter\<close>: the writer thread, with an outcome for every system call. An acknowledged append can be read back until
    the watermark covers it.
  \<^item> \<open>DiskRecovery\<close>: replaying the segments at start-up. \<open>Recovery\<close> shows that recovery ends and restores exactly what
    was not acknowledged.
  \<^item> \<open>DeadLetter\<close>: the quarantine store, its quota and its file pairs (\<open>dead_letter.rs\<close>).
  \<^item> \<open>BufferCore\<close>: the shared state \<open>BufferInner\<close>, taking leases, shutdown, the client side of the disk backend
    (\<open>mod.rs\<close>, \<open>disk.rs\<close>). \<open>LeaseOps\<close>: prepare, ack, nack, quarantine and drop of a lease (\<open>lease.rs\<close>).
    \<open>Sender\<close>: admission, eviction, reservations and sending. \<open>SinkBufferOps\<close>: the consumer (\<open>mod.rs\<close>).
  \<^item> \<open>BufferFrame\<close>, \<open>LeasePop\<close>, \<open>SenderRings\<close>: what each of these operations does to the rings.
  \<^item> \<open>EventSystem\<close>: the locale of an event system with an invariant and reachability. \<open>BufferSystem\<close> instantiates it with the
    operations of the buffer as events, interleaved in any order, and states the properties of whole runs: no batch
    disappears unless an event resolved it, the watermark never covers an unfinished batch and never falls, and
    the counters balance.
  \<^item> \<open>Fanout\<close>: one batch to several buffers (\<open>pipeline.rs\<close>).

  \<^bold>\<open>Sorting\<close>. \<open>Sort\<close>: sort keys, their shorthand and the sort of a batch before it is written (\<open>sort.rs\<close>).

  \<^bold>\<open>The WebAssembly transformer\<close> (\<open>crates/wasm-transformer\<close>).
  \<^item> \<open>Quantities\<close>: byte sizes and durations in configuration strings (\<open>worker.rs\<close>).
  \<^item> \<open>SchemaGuard\<close>: the checks on what a guest returns (\<open>guard.rs\<close>).
  \<^item> \<open>WasmWorker\<close>: a worker, its guest instance and the module cache (\<open>worker.rs\<close>, \<open>engine.rs\<close>, \<open>wasi_env.rs\<close>).
    \<open>WasmGuarantees\<close>: a guest, however it behaves, cannot make the host read or free outside its memory, lose the batch, or drop a
    core column, with the one exception that theory exhibits.
  \<^item> \<open>Dispatcher\<close>: distributing batches to workers and routing outcomes (\<open>dispatcher.rs\<close>).

  \<^bold>\<open>The Parquet sink\<close> (\<open>crates/parquet-sink\<close>).
  \<^item> \<open>PartitionPath\<close>: partition directories and file names (\<open>partition.rs\<close>, \<open>naming.rs\<close>).
  \<^item> \<open>Parquet\<close>: the partition writer and the partition manager with its pool of open files (\<open>writer.rs\<close>, \<open>partition.rs\<close>).
    \<open>ParquetPool\<close>: the effect of every operation on the pool and its invariant. \<open>ParquetRouting\<close>: routing refines
    appending rows to an abstract store of partitions, and the configured limits hold in every reachable state.

  \<^bold>\<open>The Elasticsearch sink\<close> (\<open>crates/elasticsearch-sink\<close>).
  \<^item> \<open>EsSerializer\<close>: rows as bulk documents, cut into chunks under the payload limit, and the extraction of single documents
    from a payload (\<open>serializer.rs\<close>, \<open>extract_sub_payload\<close> of \<open>client.rs\<close>).
  \<^item> \<open>EsClient\<close>: endpoints with cooldowns and \<open>send_bulk\<close>, which sends again exactly the documents whose answers ask for it
    (\<open>client.rs\<close>). \<open>EsStartup\<close>: health check, wildcard patterns and index template checks (\<open>client.rs\<close>).
  \<^item> \<open>EsSink\<close>: what happens to a lease (\<open>lib.rs\<close>), on top of \<open>Sort\<close>, \<open>LeaseOps\<close> and the client. An acknowledged lease has every row taken by
    the cluster or quarantined, in whatever order the chunk tasks finish.
  \<^item> \<open>EsConfig\<close>: configuration, TLS settings, construction, startup validation and the loop of \<open>run\<close> (\<open>config.rs\<close>, \<open>tls.rs\<close>, \<open>lib.rs\<close>).

  \<^bold>\<open>Interfaces\<close>. The locales state what a client relies on and are interpreted on the definitions of the providing
  component: \<open>ordered_map\<close>, the operations of \<open>BTreeMap\<close> that rings and writer use (\<open>Prelude\<close>), \<open>monotonic_merge\<close>,
  snapshots that can be merged in any order (\<open>Watermark\<close>), and \<open>event_system\<close> with its extension \<open>monotone_system\<close>
  (\<open>EventSystem\<close>), interpreted on the whole buffer in \<open>BufferSystem\<close> and on the partition manager in \<open>ParquetRouting\<close>,
  \<open>evicting_pool\<close>, what an eviction loop relies on, interpreted on the pool of Parquet writers (\<open>ParquetPool\<close>), and
  \<open>document_sender\<close>, what the Elasticsearch sink relies on of its client, interpreted on \<open>send_bulk\<close> (\<open>EsSink\<close>).

  \<^bold>\<open>Loops and fuel\<close>. Loops over data are structural recursion. The scan of a segment takes fuel, one more than the length of the
  file: every turn moves past at least a header, so recovery always returns (\<open>recovery_terminates\<close>). The compare-and-swap loop of
  the quota takes the list of what other threads do before each attempt; when the list ends there is no more interference.
  The loops of sender and consumer take a list with one element per turn (the clock, the outcome of the calls and what other
  tasks do meanwhile); when it ends the call is still suspended. \<open>check_hot_reload\<close> ends after two readings of an unchanged cache. The
  loops of the partition manager take as fuel the number of open files, of uploads in flight, and twice the number of rows plus
  one, which is shown to be enough. The retry loop of \<open>send_bulk\<close> is total: every turn that goes on uses up an attempt.

  \<^bold>\<open>Not modelled\<close>. The OTLP receiver, the Arrow codec, the Kafka and StarRocks sinks, the Iceberg storage, the
  re-encoding and upload tasks of the Parquet sink, the transformer's host calls and module reload, the WebAssembly SDK and
  command-line tool, and the wiring in \<open>src/main.rs\<close>. Most of these are calls of third-party clients and servers. Log
  messages and the text of most error messages are left out. Memory orderings are not modelled: atomics are read and
  written in one step. Of the Elasticsearch sink the semaphore that bounds concurrent requests and the sharing of one client between
  sinks are left out.
\<close>

end
